(* ===== verification/OCP_Prelude.thy ===== *)
theory OCP_Prelude
  imports Main "HOL-Library.Word" "HOL-Library.Sublist"
begin

text \<open>
  Shared vocabulary of the development: the machine integers of the crate, the
  outcome of a Rust call that may panic, the checked arithmetic of the two build
  profiles, the slice and string operations of the Rust standard library that
  the crate uses, and generic lemmas about them.
\<close>

unbundle bit_operations_syntax

section \<open>Machine integers and strings\<close>

type_synonym u8 = "8 word"
type_synonym u32 = "32 word"
type_synonym i32 = "32 word"
type_synonym u64 = "64 word"

text \<open>
  \<open>usize\<close> is 64 bits wide: the model fixes a 64-bit target.  A double is kept as
  its bit pattern; the crate carries doubles and never computes with them.  A
  string is its sequence of UTF-8 bytes, one \<open>char\<close> each.
\<close>

type_synonym usize = "64 word"
type_synonym f64 = "64 word"
type_synonym bytes = "u8 list"

definition isize_max :: nat where
  "isize_max = 2 ^ 63 - 1"

lemma isize_max_less: "n \<le> isize_max \<Longrightarrow> n < 2 ^ 64"
  by (simp add: isize_max_def)

section \<open>Outcomes: values and panics\<close>

text \<open>
  A call of Rust code either returns a value or panics.  The panics the crate can
  raise are the failed \<open>assert!\<close>, integer overflow in a build with overflow
  checks, a \<open>Vec\<close> larger than \<open>isize::MAX\<close> bytes, and a slice cut into chunks
  of size zero.
\<close>

datatype panic = AssertFailed | ArithOverflow | CapacityOverflow | ChunkSizeZero

datatype 'a outcome = Ret (returned: 'a) | Panic panic

primrec obind :: "'a outcome \<Rightarrow> ('a \<Rightarrow> 'b outcome) \<Rightarrow> 'b outcome" where
  "obind (Ret x) f = f x"
| "obind (Panic p) f = Panic p"

primrec rbind :: "'e + 'a \<Rightarrow> ('a \<Rightarrow> 'e + 'b) \<Rightarrow> 'e + 'b" where
  "rbind (Inl e) f = Inl e"
| "rbind (Inr x) f = f x"

named_theorems return_iff \<open>inversion of monadic results\<close>

lemma obind_cong [fundef_cong]:
  "m = m' \<Longrightarrow> (\<And>x. m' = Ret x \<Longrightarrow> f x = f' x) \<Longrightarrow> obind m f = obind m' f'"
  by (cases m') auto

lemma obind_assoc: "obind (obind m f) g = obind m (\<lambda>x. obind (f x) g)"
  by (cases m) auto

lemma obind_Ret_iff [return_iff]:
  "obind m f = Ret y \<longleftrightarrow> (\<exists>x. m = Ret x \<and> f x = Ret y)"
  by (cases m) auto

lemma rbind_Inr_iff [return_iff]:
  "rbind m f = Inr y \<longleftrightarrow> (\<exists>x. m = Inr x \<and> f x = Inr y)"
  by (cases m) auto

lemma rbind_Inl_iff [return_iff]:
  "rbind m f = Inl e \<longleftrightarrow> m = Inl e \<or> (\<exists>x. m = Inr x \<and> f x = Inl e)"
  by (cases m) auto

text \<open>\<open>Option::unwrap_or\<close> and \<open>Result::map\<close>.\<close>

primrec unwrap_or :: "'a option \<Rightarrow> 'a \<Rightarrow> 'a" where
  "unwrap_or None d = d"
| "unwrap_or (Some x) d = x"

primrec map_ok :: "('a \<Rightarrow> 'b) \<Rightarrow> 'e + 'a \<Rightarrow> 'e + 'b" where
  "map_ok f (Inl e) = Inl e"
| "map_ok f (Inr x) = Inr (f x)"

lemma map_ok_Inr_iff [return_iff]: "map_ok f r = Inr y \<longleftrightarrow> (\<exists>x. r = Inr x \<and> y = f x)"
  by (cases r) auto

section \<open>Arithmetic of the two build profiles\<close>

text \<open>
  The crate sets no profile of its own, so overflow panics in a debug build and
  wraps in a release build.
\<close>

datatype profile = Debug | Release

definition usize_mul :: "profile \<Rightarrow> usize \<Rightarrow> usize \<Rightarrow> usize outcome" where
  "usize_mul prof a b =
     (if prof = Debug \<and> 2 ^ 64 \<le> unat a * unat b then Panic ArithOverflow else Ret (a * b))"

definition u64_add :: "profile \<Rightarrow> u64 \<Rightarrow> u64 \<Rightarrow> u64 outcome" where
  "u64_add prof a b =
     (if prof = Debug \<and> 2 ^ 64 \<le> unat a + unat b then Panic ArithOverflow else Ret (a + b))"

lemma unat_mult_exact:
  "unat (a :: u64) * unat b < 2 ^ 64 \<Longrightarrow> unat (a * b) = unat a * unat b"
  by (simp add: unat_word_ariths)

lemma unat_add_exact:
  "unat (a :: u64) + unat b < 2 ^ 64 \<Longrightarrow> unat (a + b) = unat a + unat b"
  by (simp add: unat_word_ariths)

lemma usize_mul_exact:
  "unat a * unat b < 2 ^ 64 \<Longrightarrow> usize_mul prof a b = Ret (a * b)"
  by (simp add: usize_mul_def)

lemma usize_mul_Debug_Ret:
  "usize_mul Debug a b = Ret p \<Longrightarrow> unat p = unat a * unat b"
  by (auto simp: usize_mul_def unat_mult_exact split: if_splits)

lemma unat_of_nat_u64: "n < 2 ^ 64 \<Longrightarrow> unat (of_nat n :: u64) = n"
  by (simp add: unat_of_nat take_bit_nat_eq_self)

section \<open>Slices\<close>

text \<open>
  \<open>slice::chunks_exact(n)\<close> drops a last chunk shorter than \<open>n\<close>;
  \<open>slice::chunks(n)\<close> keeps it.  Both panic for \<open>n = 0\<close>, which the callers' models
  test first; the list functions below give \<open>[]\<close> there.
\<close>

function chunks_exact :: "nat \<Rightarrow> 'a list \<Rightarrow> 'a list list" where
  "chunks_exact n xs =
     (if n = 0 \<or> length xs < n then [] else take n xs # chunks_exact n (drop n xs))"
  by pat_completeness auto
termination
  by (relation "measure (\<lambda>(n, xs). length xs)") auto

function chunks :: "nat \<Rightarrow> 'a list \<Rightarrow> 'a list list" where
  "chunks n xs =
     (if n = 0 \<or> xs = [] then [] else take n xs # chunks n (drop n xs))"
  by pat_completeness auto
termination
  by (relation "measure (\<lambda>(n, xs). length xs)") auto

declare chunks_exact.simps [simp del]
declare chunks.simps [simp del]

lemma chunks_exact_length:
  "c \<in> set (chunks_exact n xs) \<Longrightarrow> length c = n"
proof (induction n xs rule: chunks_exact.induct)
  case (1 n xs)
  then show ?case
    by (cases "n = 0 \<or> length xs < n") (auto simp: chunks_exact.simps [of n xs])
qed

lemma length_chunks_exact: "n \<noteq> 0 \<Longrightarrow> length (chunks_exact n xs) = length xs div n"
proof (induction n xs rule: chunks_exact.induct)
  case (1 n xs)
  show ?case
  proof (cases "length xs < n")
    case True
    then show ?thesis by (simp add: chunks_exact.simps [of n xs])
  next
    case False
    with 1 have "length (chunks_exact n (drop n xs)) = (length xs - n) div n" by simp
    with False 1(2) show ?thesis
      by (simp add: chunks_exact.simps [of n xs] le_div_geq)
  qed
qed

lemma concat_chunks_exact:
  "n \<noteq> 0 \<Longrightarrow> concat (chunks_exact n xs) = take (n * (length xs div n)) xs"
proof (induction n xs rule: chunks_exact.induct)
  case (1 n xs)
  show ?case
  proof (cases "length xs < n")
    case True
    then show ?thesis by (simp add: chunks_exact.simps [of n xs])
  next
    case False
    with 1 have IH: "concat (chunks_exact n (drop n xs))
        = take (n * ((length xs - n) div n)) (drop n xs)" by simp
    from False 1(2) have "length xs div n = Suc ((length xs - n) div n)"
      by (simp add: le_div_geq)
    with False 1(2) IH show ?thesis
      by (simp add: chunks_exact.simps [of n xs] take_add)
  qed
qed

lemma chunks_Nil [simp]: "chunks n [] = []"
  by (simp add: chunks.simps)

lemma concat_chunks: "n \<noteq> 0 \<Longrightarrow> concat (chunks n xs) = xs"
proof (induction n xs rule: chunks.induct)
  case (1 n xs)
  then show ?case
    by (cases "xs = []") (simp_all add: chunks.simps [of n xs])
qed

lemma chunks_bound:
  "c \<in> set (chunks n xs) \<Longrightarrow> 0 < length c \<and> length c \<le> n"
proof (induction n xs rule: chunks.induct)
  case (1 n xs)
  then show ?case
    by (cases "n = 0 \<or> xs = []") (auto simp: chunks.simps [of n xs])
qed

lemma chunks_exact_append:
  "n \<noteq> 0 \<Longrightarrow> length c = n \<Longrightarrow> chunks_exact n (c @ xs) = c # chunks_exact n xs"
  by (simp add: chunks_exact.simps [of n "c @ xs"])

lemma chunks_exact_concat:
  "n \<noteq> 0 \<Longrightarrow> \<forall>c \<in> set cs. length c = n \<Longrightarrow> chunks_exact n (concat cs) = cs"
proof (induction cs)
  case Nil
  then show ?case by (simp add: chunks_exact.simps)
next
  case (Cons c cs)
  then show ?case by (simp add: chunks_exact_append)
qed

lemma length_concat_same:
  "\<forall>c \<in> set cs. length c = n \<Longrightarrow> length (concat cs) = n * length cs"
  by (induction cs) auto

section \<open>Vectors\<close>

text \<open>
  \<open>Vec::<u8>::with_capacity(n)\<close> and a growing \<open>Vec\<close> panic beyond \<open>isize::MAX\<close>
  bytes.  Running out of memory below that limit aborts the process and is not
  modelled.
\<close>

definition vec_reserve :: "usize \<Rightarrow> bytes outcome" where
  "vec_reserve n = (if isize_max < unat n then Panic CapacityOverflow else Ret [])"

definition vec_extend :: "bytes \<Rightarrow> bytes \<Rightarrow> bytes outcome" where
  "vec_extend out xs =
     (if isize_max < length out + length xs then Panic CapacityOverflow else Ret (out @ xs))"

section \<open>Number formatting\<close>

text \<open>
  \<open>format!("{n}")\<close> prints a number in decimal, \<open>format!("{n:04x}")\<close> in lower-case
  hexadecimal, padded with zeros to four digits.
\<close>

definition digit_char :: "nat \<Rightarrow> char" where
  "digit_char d = (if d < 10 then char_of (48 + d) else char_of (87 + d))"

fun show_radix :: "nat \<Rightarrow> nat \<Rightarrow> string" where
  "show_radix r n =
     (if r < 2 \<or> n < r then [digit_char n] else show_radix r (n div r) @ [digit_char (n mod r)])"

declare show_radix.simps [simp del]

definition show_dec :: "nat \<Rightarrow> string" where
  "show_dec n = show_radix 10 n"

definition show_04x :: "nat \<Rightarrow> string" where
  "show_04x n = (let s = show_radix 16 n in replicate (4 - length s) (CHR ''0'') @ s)"

lemma length_show_radix:
  "2 \<le> r \<Longrightarrow> 0 < k \<Longrightarrow> n < r ^ k \<Longrightarrow> length (show_radix r n) \<le> k"
proof (induction k arbitrary: n)
  case (Suc k)
  show ?case
  proof (cases "n < r")
    case True
    then show ?thesis by (simp add: show_radix.simps [of r n])
  next
    case False
    with Suc.prems have "0 < k" by (cases k) auto
    moreover have "n div r < r ^ k"
      using Suc.prems(3) by (simp add: less_mult_imp_div_less mult.commute)
    ultimately have "length (show_radix r (n div r)) \<le> k" using Suc by blast
    with False Suc.prems show ?thesis by (simp add: show_radix.simps [of r n])
  qed
qed simp

lemma length_show_04x: "n < 0x10000 \<Longrightarrow> length (show_04x n) = 4"
  using length_show_radix [of 16 4 n] by (simp add: show_04x_def Let_def)

lemma digit_char_not_slash: "d < 16 \<Longrightarrow> digit_char d \<noteq> CHR ''/''"
proof
  assume d: "d < 16" and slash: "digit_char d = CHR ''/''"
  have "(of_char (digit_char d) :: nat) = (if d < 10 then 48 + d else 87 + d)"
    using d by (simp add: digit_char_def)
  moreover have "(of_char (CHR ''/'') :: nat) = 47" by simp
  ultimately show False using slash by (simp split: if_splits)
qed

lemma show_radix_nonempty: "show_radix r n \<noteq> []"
  by (subst show_radix.simps) simp

lemma slash_not_in_show_radix:
  "2 \<le> r \<Longrightarrow> r \<le> 16 \<Longrightarrow> CHR ''/'' \<notin> set (show_radix r n)"
proof (induction r n rule: show_radix.induct)
  case (1 r n)
  have "n mod r < 16" using "1.prems" by (intro less_le_trans [OF mod_less_divisor]) auto
  then show ?case
    using 1 digit_char_not_slash [of n] digit_char_not_slash [of "n mod r"]
    by (subst show_radix.simps) auto
qed

lemma show_04x_facts:
  "show_04x n \<noteq> []" "CHR ''/'' \<notin> set (show_04x n)"
  using show_radix_nonempty [of 16 n] slash_not_in_show_radix [of 16 n]
  by (auto simp: show_04x_def Let_def)

text \<open>Reading a number back, so that different numbers print differently.\<close>

definition digit_val :: "char \<Rightarrow> nat" where
  "digit_val c = (let n = of_char c in if n < 58 then n - 48 else n - 87)"

definition read_radix :: "nat \<Rightarrow> string \<Rightarrow> nat" where
  "read_radix r s = foldl (\<lambda>n c. r * n + digit_val c) 0 s"

lemma digit_val_char: "d < 16 \<Longrightarrow> digit_val (digit_char d) = d"
  by (simp add: digit_val_def digit_char_def Let_def)

lemma read_show_radix: "2 \<le> r \<Longrightarrow> r \<le> 16 \<Longrightarrow> read_radix r (show_radix r n) = n"
proof (induction r n rule: show_radix.induct)
  case (1 r n)
  show ?case
  proof (cases "n < r")
    case True
    with "1.prems" show ?thesis
      by (simp add: show_radix.simps [of r n] read_radix_def digit_val_char)
  next
    case False
    have "n mod r < 16" using "1.prems" by (intro less_le_trans [OF mod_less_divisor]) auto
    with 1 False show ?thesis
      by (simp add: show_radix.simps [of r n] read_radix_def digit_val_char)
  qed
qed

lemma read_show_04x: "read_radix 16 (show_04x n) = n"
proof -
  have "digit_val (CHR ''0'') = 0" by (simp add: digit_val_def)
  then have "foldl (\<lambda>n c. 16 * n + digit_val c) 0 (replicate k (CHR ''0'') @ s)
      = foldl (\<lambda>n c. 16 * n + digit_val c) 0 s" for k s
    by (induction k) simp_all
  then show ?thesis
    using read_show_radix [of 16 n] by (simp add: show_04x_def Let_def read_radix_def)
qed

lemma show_04x_inj [simp]: "show_04x m = show_04x n \<longleftrightarrow> m = n"
  using read_show_04x by metis

section \<open>String operations\<close>

text \<open>
  \<open>str::starts_with\<close>, \<open>str::ends_with\<close> and \<open>str::split_once\<close> with an ASCII
  pattern, for which bytes and characters agree.
\<close>

definition starts_with :: "string \<Rightarrow> string \<Rightarrow> bool" where
  "starts_with s p = (take (length p) s = p)"

definition ends_with :: "string \<Rightarrow> string \<Rightarrow> bool" where
  "ends_with s p = (length p \<le> length s \<and> drop (length s - length p) s = p)"

fun split_once :: "char \<Rightarrow> string \<Rightarrow> (string \<times> string) option" where
  "split_once c [] = None"
| "split_once c (x # xs) =
     (if x = c then Some ([], xs)
      else (case split_once c xs of None \<Rightarrow> None | Some (f, v) \<Rightarrow> Some (x # f, v)))"

lemma split_once_append: "c \<notin> set f \<Longrightarrow> split_once c (f @ c # v) = Some (f, v)"
  by (induction f) auto

lemma split_once_None_iff: "split_once c s = None \<longleftrightarrow> c \<notin> set s"
  by (induction s) (auto split: option.splits)

lemma split_once_Some: "split_once c s = Some (f, v) \<Longrightarrow> s = f @ c # v \<and> c \<notin> set f"
  by (induction s arbitrary: f) (auto split: option.splits if_splits)

text \<open>
  Unix paths: \<open>Path::is_absolute\<close> and \<open>Path::join\<close>.  Pushing an absolute path
  replaces the base; otherwise a separator is added unless the base is empty or
  ends with one.
\<close>

definition is_absolute :: "string \<Rightarrow> bool" where
  "is_absolute p = starts_with p ''/''"

definition path_join :: "string \<Rightarrow> string \<Rightarrow> string" where
  "path_join base p =
     (if is_absolute p \<or> base = [] then p
      else if last base = CHR ''/'' then base @ p
      else base @ ''/'' @ p)"

lemma is_absolute_simps [simp]:
  "\<not> is_absolute []"
  "is_absolute (c # cs) \<longleftrightarrow> c = CHR ''/''"
  by (auto simp: is_absolute_def starts_with_def)

lemma is_absolute_append: "is_absolute p \<Longrightarrow> is_absolute (p @ q)"
  by (cases p) auto

lemma is_absolute_join: "is_absolute base \<Longrightarrow> is_absolute (path_join base p)"
  by (cases base) (auto simp: path_join_def)

end
