(* ===== verification/OCP_Proto.thy ===== *)
theory OCP_Proto
  imports OCP_Prelude
begin

text \<open>
  The messages of the OpenMSO Capture Protocol, from \<open>proto/omso/capture/v1\<close>, in
  the shape the crate's generated \<open>proto\<close> module gives them: a message is a
  record, a message-typed field an option, a repeated field a list, a oneof an
  option of a datatype with one constructor per arm, and an enum-typed field the
  \<open>i32\<close> that came off the wire.  The enums the code converts have their
  discriminants (\<open>as i32\<close>), the partial inverse (\<open>try_from\<close>) and, where it is
  printed, the name (\<open>as_str_name\<close>).
\<close>

section \<open>Enums\<close>

datatype error_code =
    ErrorCodeUnspecified
  | ErrorInvalidRequest
  | ErrorUnsupported
  | ErrorDevice
  | ErrorDeviceDisconnected
  | ErrorBusy
  | ErrorTimeout
  | ErrorInternal

fun error_code_i32 :: "error_code \<Rightarrow> i32" where
  "error_code_i32 ErrorCodeUnspecified = 0"
| "error_code_i32 ErrorInvalidRequest = 1"
| "error_code_i32 ErrorUnsupported = 2"
| "error_code_i32 ErrorDevice = 3"
| "error_code_i32 ErrorDeviceDisconnected = 4"
| "error_code_i32 ErrorBusy = 5"
| "error_code_i32 ErrorTimeout = 7"
| "error_code_i32 ErrorInternal = 8"

definition error_code_try_from :: "i32 \<Rightarrow> error_code option" where
  "error_code_try_from n =
     (if n = 0 then Some ErrorCodeUnspecified
      else if n = 1 then Some ErrorInvalidRequest
      else if n = 2 then Some ErrorUnsupported
      else if n = 3 then Some ErrorDevice
      else if n = 4 then Some ErrorDeviceDisconnected
      else if n = 5 then Some ErrorBusy
      else if n = 7 then Some ErrorTimeout
      else if n = 8 then Some ErrorInternal
      else None)"

fun error_code_name :: "error_code \<Rightarrow> string" where
  "error_code_name ErrorCodeUnspecified = ''ERROR_CODE_UNSPECIFIED''"
| "error_code_name ErrorInvalidRequest = ''ERROR_INVALID_REQUEST''"
| "error_code_name ErrorUnsupported = ''ERROR_UNSUPPORTED''"
| "error_code_name ErrorDevice = ''ERROR_DEVICE''"
| "error_code_name ErrorDeviceDisconnected = ''ERROR_DEVICE_DISCONNECTED''"
| "error_code_name ErrorBusy = ''ERROR_BUSY''"
| "error_code_name ErrorTimeout = ''ERROR_TIMEOUT''"
| "error_code_name ErrorInternal = ''ERROR_INTERNAL''"

lemma error_code_try_from_i32 [simp]:
  "error_code_try_from (error_code_i32 c) = Some c"
  by (cases c) (simp_all add: error_code_try_from_def)

datatype sample_encoding = EncodingUnspecified | Packed | Transition

fun sample_encoding_i32 :: "sample_encoding \<Rightarrow> i32" where
  "sample_encoding_i32 EncodingUnspecified = 0"
| "sample_encoding_i32 Packed = 1"
| "sample_encoding_i32 Transition = 2"

definition sample_encoding_try_from :: "i32 \<Rightarrow> sample_encoding option" where
  "sample_encoding_try_from n =
     (if n = 0 then Some EncodingUnspecified
      else if n = 1 then Some Packed
      else if n = 2 then Some Transition
      else None)"

lemma sample_encoding_try_from_i32 [simp]:
  "sample_encoding_try_from (sample_encoding_i32 e) = Some e"
  by (cases e) (simp_all add: sample_encoding_try_from_def)

lemma inj_sample_encoding_i32 [simp]:
  "sample_encoding_i32 a = sample_encoding_i32 b \<longleftrightarrow> a = b"
  by (cases a; cases b) simp_all

datatype codec = CodecUnspecified | CodecNone | Zstd | Heatshrink

fun codec_i32 :: "codec \<Rightarrow> i32" where
  "codec_i32 CodecUnspecified = 0"
| "codec_i32 CodecNone = 1"
| "codec_i32 Zstd = 2"
| "codec_i32 Heatshrink = 3"

definition codec_try_from :: "i32 \<Rightarrow> codec option" where
  "codec_try_from n =
     (if n = 0 then Some CodecUnspecified
      else if n = 1 then Some CodecNone
      else if n = 2 then Some Zstd
      else if n = 3 then Some Heatshrink
      else None)"

fun codec_name :: "codec \<Rightarrow> string" where
  "codec_name CodecUnspecified = ''CODEC_UNSPECIFIED''"
| "codec_name CodecNone = ''CODEC_NONE''"
| "codec_name Zstd = ''CODEC_ZSTD''"
| "codec_name Heatshrink = ''CODEC_HEATSHRINK''"

lemma codec_try_from_i32 [simp]: "codec_try_from (codec_i32 c) = Some c"
  by (cases c) (simp_all add: codec_try_from_def)

lemma inj_codec_i32 [simp]: "codec_i32 a = codec_i32 b \<longleftrightarrow> a = b"
  by (cases a; cases b) simp_all

datatype acquire_mode = AcquireModeUnspecified | AcquireSingle | AcquireContinuous | AcquireSnapshot

fun acquire_mode_i32 :: "acquire_mode \<Rightarrow> i32" where
  "acquire_mode_i32 AcquireModeUnspecified = 0"
| "acquire_mode_i32 AcquireSingle = 1"
| "acquire_mode_i32 AcquireContinuous = 2"
| "acquire_mode_i32 AcquireSnapshot = 3"

datatype log_level = LogLevelUnspecified | LogDebug | LogInfo | LogWarning | LogError

fun log_level_i32 :: "log_level \<Rightarrow> i32" where
  "log_level_i32 LogLevelUnspecified = 0"
| "log_level_i32 LogDebug = 1"
| "log_level_i32 LogInfo = 2"
| "log_level_i32 LogWarning = 3"
| "log_level_i32 LogError = 4"

datatype device_state =
  StateUnspecified | StateIdle | StateArmed | StateTriggered | StateTransferring | StateStopping

fun device_state_i32 :: "device_state \<Rightarrow> i32" where
  "device_state_i32 StateUnspecified = 0"
| "device_state_i32 StateIdle = 1"
| "device_state_i32 StateArmed = 2"
| "device_state_i32 StateTriggered = 3"
| "device_state_i32 StateTransferring = 4"
| "device_state_i32 StateStopping = 5"

section \<open>Shared vocabulary: \<open>common.proto\<close>\<close>

record proto_error =
  err_code :: i32
  err_message :: string

section \<open>The device model: \<open>device.proto\<close>\<close>

record double_range =
  dr_min :: f64
  dr_max :: f64
  dr_step :: f64

record double_set =
  ds_values :: "f64 list"
  ds_range :: "double_range option"

record uint_range =
  ur_min :: u64
  ur_max :: u64
  ur_step :: u64

record uint_set =
  us_values :: "u64 list"
  us_range :: "uint_range option"

record channel =
  ch_id :: string
  ch_name :: string
  ch_kind :: i32
  ch_index :: u32
  ch_color :: i32

record device_limits =
  dl_samplerate :: "double_set option"
  dl_sample_depth :: "uint_set option"
  dl_samplerate_settable :: bool
  dl_sample_depth_settable :: bool
  dl_averaging :: "uint_set option"
  dl_trigger_position :: bool
  dl_max_enabled_channels :: u32

record analog_limits =
  al_full_scale :: "double_set option"
  al_offset :: "double_range option"
  al_couplings :: "i32 list"
  al_probe_factors :: "double_set option"
  al_impedances :: "double_set option"
  al_bandwidth_limit :: bool
  al_invert :: bool
  al_vertical_divisions :: u32

record logic_limits =
  ll_thresholds :: "double_set option"

record vendor_option =
  vo_key :: string
  vo_description :: string
  vo_values :: "string list"

record description =
  desc_channels :: "channel list"
  desc_limits :: "device_limits option"
  desc_analog :: "analog_limits option"
  desc_logic :: "logic_limits option"
  desc_vendor_options :: "vendor_option list"

record edge_trigger =
  et_channel :: string
  et_slope :: i32
  et_level :: f64

record pulse_trigger =
  pt_channel :: string
  pt_slope :: i32
  pt_level :: f64
  pt_comparison :: i32
  pt_width :: f64
  pt_width_max :: f64

record pattern_bit =
  pb_channel :: string
  pb_match :: i32

record pattern_trigger =
  pat_bits :: "pattern_bit list"

datatype trigger_arm =
    TriggerNone
  | TriggerEdge edge_trigger
  | TriggerPulse pulse_trigger
  | TriggerPattern pattern_trigger

record trigger =
  trg_arm :: "trigger_arm option"
  trg_position :: f64

record device_config =
  dc_samplerate :: "f64 option"
  dc_sample_depth :: "u64 option"
  dc_trigger :: "trigger option"
  dc_averaging :: "u32 option"
  dc_capture_span :: "f64 option"

record channel_config =
  cc_id :: string
  cc_enabled :: "bool option"
  cc_probe_factor :: "f64 option"
  cc_full_scale :: "f64 option"
  cc_offset :: "f64 option"
  cc_coupling :: "i32 option"
  cc_impedance :: "f64 option"
  cc_bandwidth_limit :: "bool option"
  cc_invert :: "bool option"
  cc_threshold :: "f64 option"

record config =
  cfg_device :: "device_config option"
  cfg_channels :: "channel_config list"
  cfg_vendor :: "string \<rightharpoonup> string"

definition default_config :: config where
  "default_config = \<lparr>cfg_device = None, cfg_channels = [], cfg_vendor = Map.empty\<rparr>"

section \<open>The data plane: \<open>stream.proto\<close>\<close>

record analog_format =
  af_type :: i32
  af_scale :: f64
  af_offset :: f64
  af_unit :: string
  af_digits :: u32

record logic_format =
  lf_unitsize :: u32

datatype stream_format = AnalogFormat analog_format | LogicFormat logic_format

record stream =
  st_id :: u32
  st_channels :: "string list"
  st_format :: "stream_format option"

record capture_begin =
  cb_capture_id :: u64
  cb_samplerate :: f64
  cb_streams :: "stream list"

record acquisition_begin =
  ab_capture_id :: u64
  ab_acquisition :: u64
  ab_t0 :: f64
  ab_sample_count :: u64

record capture_data =
  cd_capture_id :: u64
  cd_acquisition :: u64
  cd_stream :: u32
  cd_seq :: u64
  cd_first_sample :: u64
  cd_sample_count :: u64
  cd_encoding :: i32
  cd_codec :: i32
  cd_decoded_len :: u64
  cd_payload :: bytes

record capture_trigger =
  ct_capture_id :: u64
  ct_acquisition :: u64
  ct_sample :: u64

record acquisition_end =
  ae_capture_id :: u64
  ae_acquisition :: u64
  ae_dropped_samples :: u64

record capture_end =
  ce_capture_id :: u64
  ce_error :: "proto_error option"

record status =
  sta_state :: i32
  sta_detail :: string

record log_msg =
  log_level :: i32
  log_message :: string

record device_lost =
  dlo_reason :: string

datatype event =
    CaptureBegin capture_begin
  | AcquisitionBegin acquisition_begin
  | Data capture_data
  | CaptureTrigger capture_trigger
  | AcquisitionEnd acquisition_end
  | CaptureEnd capture_end
  | Status status
  | Log log_msg
  | DeviceLost device_lost

record event_msg =
  ev_event :: "event option"

section \<open>The control plane: \<open>capture.proto\<close>\<close>

record hello =
  he_protocol :: u32
  he_client_name :: string
  he_client_version :: string
  he_accept_encodings :: "i32 list"
  he_accept_codecs :: "i32 list"

record plugin_info =
  pi_name :: string
  pi_version :: string
  pi_vendor :: string
  pi_description :: string

record capabilities =
  cap_modes :: "i32 list"
  cap_trigger_kinds :: "i32 list"

record device_info =
  di_vendor :: string
  di_model :: string
  di_serial :: string
  di_firmware_version :: string

record hello_result =
  hr_protocol :: u32
  hr_plugin :: "plugin_info option"
  hr_capabilities :: "capabilities option"
  hr_device :: "device_info option"
  hr_encodings :: "i32 list"
  hr_codecs :: "i32 list"

record set_config =
  sc_config :: "config option"

record acquire_start =
  as_capture_id :: u64
  as_mode :: i32

record acquire_stop =
  ap_capture_id :: u64

datatype request =
    ReqHello hello
  | ReqDescribe
  | ReqGetConfig
  | ReqSetConfig set_config
  | ReqAcquireStart acquire_start
  | ReqAcquireStop acquire_stop
  | ReqReset
  | ReqShutdown

datatype response =
    RespHello hello_result
  | RespDescribe description
  | RespGetConfig config
  | RespSetConfig config
  | RespAcquireStart
  | RespAcquireStop
  | RespReset
  | RespShutdown

record request_msg =
  rq_seq :: u32
  rq_request :: "request option"

record response_msg =
  rs_seq :: u32
  rs_error :: "proto_error option"
  rs_response :: "response option"

section \<open>The plugin manifest: \<open>manifest.proto\<close>\<close>

record usb_id =
  usb_id :: string
  usb_note :: string
  usb_needs_firmware :: bool

text \<open>The two enumerators of \<open>ChannelColor\<close> that the code names.\<close>

definition COLOR_YELLOW :: i32 where
  "COLOR_YELLOW = 1"

definition COLOR_MAGENTA :: i32 where
  "COLOR_MAGENTA = 2"

record channel_palette =
  cp_analog :: "i32 list"
  cp_logic :: "i32 list"

record plugin_manifest =
  pm_name :: string
  pm_description :: string
  pm_vendor :: string
  pm_version :: string
  pm_license :: string
  pm_run :: "string list"
  pm_build :: string
  pm_usb_ids :: "usb_id list"
  pm_url_schemes :: "string list"
  pm_palette :: "channel_palette option"

end
