(* ===== verification/OCP_Error.thy ===== *)
theory OCP_Error
  imports OCP_Prelude OCP_Proto
begin

text \<open>
  The crate root \<open>rust/openmso/src/lib.rs\<close>: the local error type \<open>Error\<close> and its
  \<open>Display\<close>, the constructors of the wire error \<open>proto::Error\<close>, and the
  protocol version.
\<close>

definition PROTOCOL_VERSION :: u32 where
  "PROTOCOL_VERSION = 1"

section \<open>Wire errors\<close>

type_synonym 'a reply = "proto_error + 'a"

definition proto_error_new :: "error_code \<Rightarrow> string \<Rightarrow> proto_error" where
  "proto_error_new code message = \<lparr>err_code = error_code_i32 code, err_message = message\<rparr>"

definition proto_error_invalid :: "string \<Rightarrow> proto_error" where
  "proto_error_invalid message = proto_error_new ErrorInvalidRequest message"

definition proto_error_unsupported :: "string \<Rightarrow> proto_error" where
  "proto_error_unsupported message = proto_error_new ErrorUnsupported message"

definition proto_error_busy :: "string \<Rightarrow> proto_error" where
  "proto_error_busy message = proto_error_new ErrorBusy message"

definition proto_error_device :: "string \<Rightarrow> proto_error" where
  "proto_error_device message = proto_error_new ErrorDevice message"

lemma err_code_simps [simp]:
  "err_code (proto_error_invalid m) = 1"
  "err_code (proto_error_unsupported m) = 2"
  "err_code (proto_error_device m) = 3"
  "err_code (proto_error_busy m) = 5"
  by (simp_all add: proto_error_invalid_def proto_error_unsupported_def proto_error_device_def
      proto_error_busy_def proto_error_new_def)

section \<open>Local errors\<close>

text \<open>
  The errors of the crates underneath.  Of nng's error the code tells three
  members apart, of \<open>std::io::Error\<close> one kind; the rest of each is one
  constructor with a number or text.  \<open>prost::DecodeError\<close> and
  \<open>serde_json::Error\<close> are only carried and printed.
\<close>

datatype nng_error = Closed | ConnectionReset | ConnectionAborted | OtherNng nat

datatype io_kind = AlreadyExists | OtherKind nat

record io_error =
  io_kind :: io_kind
  io_text :: string

datatype decode_error = DecodeError string

datatype json_error = JsonError string

text \<open>
  \<open>Error::Protocol\<close> carries a text.  The model has one constructor per place of
  the crate that builds one, with the values the text shows; \<open>protocol_text\<close>
  below is the text.
\<close>

datatype protocol_error =
    UnitsizeZero
  | RunMissingValue
  | WrongSampleCount usize usize
  | NotDecodable codec
  | ZeroRun
  | BadVarint
  | NoFreeDirectory
  | SocketPathTooLong nat string
  | UnknownArgument string
  | NeedsValue string
  | MissingArguments
  | EmptyArgv
  | ReplyOutOfStep u32 u32
  | EmptyReply
  | UnexpectedResult string string

datatype error =
    Nng nng_error
  | Decode decode_error
  | Io io_error
  | Json json_error
  | Protocol protocol_error
  | Remote proto_error

type_synonym 'a result = "error + 'a"

text \<open>
  The \<open>From\<close> impls, which \<open>?\<close> and \<open>map_err(Error::from)\<close> apply to a foreign error.
\<close>

definition error_from_nng :: "nng_error \<Rightarrow> error" where
  "error_from_nng e = Nng e"

definition error_from_decode :: "decode_error \<Rightarrow> error" where
  "error_from_decode e = Decode e"

definition error_from_io :: "io_error \<Rightarrow> error" where
  "error_from_io e = Io e"

definition error_from_json :: "json_error \<Rightarrow> error" where
  "error_from_json e = Json e"

lemmas error_from_simps [simp] =
  error_from_nng_def error_from_decode_def error_from_io_def error_from_json_def

definition USAGE :: string where
  "USAGE = ''--device URL --control URL --events URL''"

definition SUN_PATH_LIMIT :: nat where
  "SUN_PATH_LIMIT = 103"

text \<open>
  \<open>dbg\<close> is the \<open>Debug\<close> rendering of a string (\<open>{other:?}\<close>), whose escapes depend
  on the Unicode tables of the standard library.
\<close>

fun protocol_text :: "(string \<Rightarrow> string) \<Rightarrow> protocol_error \<Rightarrow> string" where
  "protocol_text dbg UnitsizeZero = ''logic stream declared unitsize 0''"
| "protocol_text dbg RunMissingValue = ''transition run is missing its value''"
| "protocol_text dbg (WrongSampleCount got declared) =
     ''transition payload expands to '' @ show_dec (unat got) @ '' samples, not the ''
       @ show_dec (unat declared) @ '' declared''"
| "protocol_text dbg (NotDecodable c) = codec_name c @ '' is not decodable here''"
| "protocol_text dbg ZeroRun = ''transition run length of 0''"
| "protocol_text dbg BadVarint = ''truncated or oversized varint''"
| "protocol_text dbg NoFreeDirectory = ''no free runtime directory''"
| "protocol_text dbg (SocketPathTooLong len path) =
     ''socket path is '' @ show_dec len @ '' bytes, over the '' @ show_dec SUN_PATH_LIMIT
       @ ''-byte limit: '' @ path"
| "protocol_text dbg (UnknownArgument other) =
     ''unknown argument '' @ dbg other @ ''; usage: '' @ USAGE"
| "protocol_text dbg (NeedsValue flag) = flag @ '' needs a value''"
| "protocol_text dbg MissingArguments = ''missing arguments; usage: '' @ USAGE"
| "protocol_text dbg EmptyArgv = ''plugin has an empty argv''"
| "protocol_text dbg (ReplyOutOfStep seq got) =
     ''plugin answered request '' @ show_dec (unat seq) @ '' with a reply to ''
       @ show_dec (unat got)"
| "protocol_text dbg EmptyReply = ''reply carries neither result nor error''"
| "protocol_text dbg (UnexpectedResult req name) =
     req @ '' answered with a '' @ name @ '' result''"

text \<open>
  \<open>impl Display for Error\<close>; the renderings of the foreign errors are parameters.
\<close>

definition display_error ::
  "(string \<Rightarrow> string) \<Rightarrow> (nng_error \<Rightarrow> string) \<Rightarrow> (decode_error \<Rightarrow> string) \<Rightarrow>
   (io_error \<Rightarrow> string) \<Rightarrow> (json_error \<Rightarrow> string) \<Rightarrow> error \<Rightarrow> string" where
  "display_error dbg show_nng show_decode show_io show_json e =
     (case e of
        Nng e \<Rightarrow> ''nng: '' @ show_nng e
      | Decode e \<Rightarrow> ''malformed message: '' @ show_decode e
      | Io e \<Rightarrow> show_io e
      | Json e \<Rightarrow> ''bad manifest JSON: '' @ show_json e
      | Protocol m \<Rightarrow> ''protocol error: '' @ protocol_text dbg m
      | Remote e \<Rightarrow>
          (let code = (case error_code_try_from (err_code e) of
                         Some c \<Rightarrow> c | None \<Rightarrow> ErrorCodeUnspecified)
           in error_code_name code @ '': '' @ err_message e))"

end
