(* ===== verification/OCP_Varint.thy ===== *)
theory OCP_Varint
  imports OCP_Prelude OCP_Error
begin

text \<open>
  The run-length varints of the transition encoding: \<open>put_varint\<close> and \<open>get_varint\<close>
  of \<open>rust/openmso/src/encoding.rs\<close>, their reference meaning as little-endian
  base-128 numerals, and the contract \<open>run_codec\<close> the transition codec relies on.
\<close>

section \<open>The code\<close>

text \<open>
  The loop of \<open>put_varint\<close> appends to \<open>out\<close>, seven bits per byte, low bits first.
\<close>

function put_varint :: "bytes \<Rightarrow> u64 \<Rightarrow> bytes" where
  "put_varint out value =
     (if 0x80 \<le> value
      then put_varint (out @ [(ucast value :: u8) OR 0x80]) (drop_bit 7 value)
      else out @ [ucast value :: u8])"
  by pat_completeness auto
termination
proof (relation "measure (\<lambda>(out, value). unat value)")
  show "wf (measure (\<lambda>(out :: bytes, value :: u64). unat value))" by simp
  fix out :: bytes and v :: u64
  assume "0x80 \<le> v"
  then have "128 \<le> unat v" by (simp add: word_le_nat_alt)
  then show "((out @ [(ucast v :: u8) OR 0x80], drop_bit 7 v), out, v)
      \<in> measure (\<lambda>(out, value). unat value)"
    by (simp add: unat_drop_bit_eq drop_bit_eq_div unat_div_distrib)
qed

declare put_varint.simps [simp del]

text \<open>
  One turn of the loop of \<open>get_varint\<close>: \<open>i\<close> is the enumeration index, the third
  argument what is left of \<open>input.iter().take(10)\<close>.
\<close>

fun get_varint_loop :: "bytes \<Rightarrow> nat \<Rightarrow> bytes \<Rightarrow> u64 \<Rightarrow> (u64 \<times> bytes) result" where
  "get_varint_loop input i [] value = Inl (Protocol BadVarint)"
| "get_varint_loop input i (byte # rest) value =
     (let value = value OR push_bit (i * 7) (ucast (byte AND 0x7f)) in
      if byte AND 0x80 = 0
      then (if value = 0 then Inl (Protocol ZeroRun) else Inr (value, drop (i + 1) input))
      else get_varint_loop input (Suc i) rest value)"

definition get_varint :: "bytes \<Rightarrow> (u64 \<times> bytes) result" where
  "get_varint input = get_varint_loop input 0 (take 10 input) 0"

section \<open>Bits of a varint byte\<close>

lemma put_varint_append: "put_varint (xs @ ys) v = xs @ put_varint ys v"
proof (induction ys v arbitrary: xs rule: put_varint.induct)
  case (1 ys v)
  then show ?case
    by (simp add: put_varint.simps [of "xs @ ys" v] put_varint.simps [of ys v])
qed

lemma put_varint_unfold:
  "put_varint [] v =
     (if 0x80 \<le> v then ((ucast v :: u8) OR 0x80) # put_varint [] (drop_bit 7 v)
      else [ucast v :: u8])"
  using put_varint_append [of "[(ucast v :: u8) OR 0x80]" "[]" "drop_bit 7 v"]
  by (simp add: put_varint.simps [of "[]" v])


lemma bit_0x7f: "bit (0x7f :: u8) n \<longleftrightarrow> n < 7"
proof -
  have "(0x7f :: u8) = mask 7" by (simp add: mask_eq_exp_minus_1)
  then have "bit (0x7f :: u8) n \<longleftrightarrow> bit (mask 7 :: u8) n" by (rule arg_cong)
  then show ?thesis by (simp only: bit_mask_iff possible_bit_word) auto
qed
lemma bit_0x80: "bit (0x80 :: u8) n \<longleftrightarrow> n = 7"
proof -
  have "(0x80 :: u8) = 2 ^ 7" by simp
  then have "bit (0x80 :: u8) n \<longleftrightarrow> bit (2 ^ 7 :: u8) n" by (rule arg_cong)
  then show ?thesis by (simp only: bit_exp_iff possible_bit_word) auto
qed

lemma bit_high: "(b :: u8) AND 0x80 = 0 \<longleftrightarrow> \<not> bit b 7"
proof
  assume "b AND 0x80 = 0"
  then have "\<not> bit (b AND 0x80) 7" by simp
  then show "\<not> bit b 7" by (simp only: bit_and_iff bit_0x80) simp
next
  assume "\<not> bit b 7"
  then show "b AND 0x80 = 0"
    by (intro bit_eqI) (simp only: bit_and_iff bit_0x80, auto)
qed

lemma ucast_low: "(ucast (b AND 0x7f :: u8) :: u64) = take_bit 7 (ucast b)"
  by (rule bit_eqI) (simp only: bit_simps bit_0x7f, auto)

lemma ucast_cont: "take_bit 7 (ucast ((ucast (w::u64) :: u8) OR 0x80) :: u64) = take_bit 7 w"
  by (rule bit_eqI) (simp only: bit_simps bit_0x80, auto)

lemma ucast_last: "take_bit 7 (ucast (ucast (w::u64) :: u8) :: u64) = take_bit 7 w"
  by (rule bit_eqI) (simp only: bit_simps, auto)

lemma small_bits: "(w::u64) < 0x80 \<Longrightarrow> take_bit 7 w = w"
  by (simp add: word_unat_eq_iff take_bit_eq_mod unat_mod_distrib word_less_nat_alt)

lemma last_byte: "(w::u64) < 0x80 \<Longrightarrow> (ucast w :: u8) AND 0x80 = 0"
proof -
  assume "w < 0x80"
  then have "\<not> bit w 7" by (metis small_bits bit_take_bit_iff less_irrefl)
  then show ?thesis by (simp add: bit_high bit_simps)
qed

lemma acc_step: "take_bit n (v::u64) OR push_bit n (take_bit 7 (drop_bit n v)) = take_bit (n + 7) v"
  by (rule bit_eqI) (auto simp: bit_simps)
lemma acc_last: "take_bit n (v::u64) OR push_bit n (drop_bit n v) = v"
proof (rule bit_eqI)
  fix m
  show "bit (take_bit n v OR push_bit n (drop_bit n v)) m \<longleftrightarrow> bit v m"
    using bit_imp_le_length [of v m] by (cases "m < n") (auto simp: bit_simps)
qed

section \<open>Writing, then reading\<close>

lemma unat_drop7: "unat (drop_bit 7 (v :: u64)) = unat v div 128"
  by (simp add: unat_drop_bit_eq drop_bit_eq_div unat_div_distrib)

lemma length_put_varint:
  "unat v < 128 ^ k \<Longrightarrow> 0 < k \<Longrightarrow> length (put_varint [] v) \<le> k"
proof (induction k arbitrary: v)
  case 0
  then show ?case by simp
next
  case (Suc k)
  show ?case
  proof (cases "0x80 \<le> v")
    case True
    then have big: "128 \<le> unat v" by (simp add: word_le_nat_alt)
    with Suc.prems have k: "0 < k" by (cases k) auto
    have "unat (drop_bit 7 v) = unat v div 128"
      by (rule unat_drop7)
    also have "\<dots> < 128 ^ k" using Suc.prems(1) by (simp add: less_mult_imp_div_less mult.commute)
    finally have "length (put_varint [] (drop_bit 7 v)) \<le> k" by (rule Suc.IH) (rule k)
    with True show ?thesis by (simp add: put_varint_unfold [of v])
  next
    case False
    then show ?thesis by (simp add: put_varint_unfold [of v])
  qed
qed

lemma length_put_varint_10: "length (put_varint [] v) \<le> 10"
proof (rule length_put_varint)
  have "unat v < 2 ^ 64" by (rule order_less_le_trans [OF unsigned_less]) simp
  then show "unat v < 128 ^ 10" by simp
qed simp

lemma put_varint_nonempty: "put_varint [] v \<noteq> []"
  by (simp add: put_varint_unfold)

lemma get_varint_loop_put:
  "w = drop_bit (7 * i) v \<Longrightarrow>
   get_varint_loop input i (put_varint [] w @ rest) (take_bit (7 * i) v) =
     (if v = 0 then Inl (Protocol ZeroRun)
      else Inr (v, drop (i + length (put_varint [] w)) input))"
proof (induction "unat w" arbitrary: w i rule: less_induct)
  case less
  note w = less.prems
  show ?case
  proof (cases "0x80 \<le> w")
    case True
    have nxt: "drop_bit 7 w = drop_bit (7 * Suc i) v"
      using w by (simp add: add.commute)
    have acc: "take_bit (7 * i) v OR push_bit (i * 7) (take_bit 7 w) = take_bit (7 * Suc i) v"
      using acc_step [of "7 * i" v] w by (simp add: mult.commute add.commute)
    have cont: "((ucast w :: u8) OR 0x80) AND 0x80 \<noteq> 0"
      by (simp only: bit_high bit_or_iff bit_0x80) simp
    from True have "unat (drop_bit 7 w) < unat w"
      by (simp add: unat_drop7 word_le_nat_alt)
    from less.hyps [OF this nxt] show ?thesis
      using True cont acc
      by (simp add: put_varint_unfold [of w] ucast_low ucast_cont Let_def)
  next
    case False
    have "take_bit 7 w = w" "(ucast w :: u8) AND 0x80 = 0"
      using False by (simp_all add: small_bits last_byte)
    moreover have "take_bit (7 * i) v OR push_bit (i * 7) w = v"
      using acc_last [of "7 * i" v] w by (simp add: mult.commute)
    ultimately show ?thesis using False
      by (simp add: put_varint_unfold [of w] ucast_low ucast_last)
  qed
qed

lemma get_put_varint:
  "v \<noteq> 0 \<Longrightarrow> get_varint (put_varint [] v @ rest) = Inr (v, rest)"
proof -
  assume v: "v \<noteq> 0"
  have "take 10 (put_varint [] v @ rest)
      = put_varint [] v @ take (10 - length (put_varint [] v)) rest"
    using length_put_varint_10 [of v] by simp
  then show ?thesis
    using get_varint_loop_put [of v 0 v "put_varint [] v @ rest"] v
    by (simp add: get_varint_def)
qed

lemma get_varint_loop_Inr:
  "get_varint_loop input i bs acc = Inr (v, tail) \<Longrightarrow>
   v \<noteq> 0 \<and> (\<exists>j. i < j \<and> j \<le> i + length bs \<and> tail = drop j input)"
proof (induction input i bs acc rule: get_varint_loop.induct)
  case (2 input i byte rest acc)
  show ?case
  proof (cases "byte AND 0x80 = 0")
    case True
    with "2.prems" show ?thesis by (auto simp: Let_def split: if_splits)
  next
    case False
    let ?acc = "acc OR push_bit (i * 7) (ucast (byte AND 0x7f))"
    from False "2.prems" have "get_varint_loop input (Suc i) rest ?acc = Inr (v, tail)"
      by (simp add: Let_def)
    from "2.IH" [OF refl False this] obtain j where
      "v \<noteq> 0" "Suc i < j" "j \<le> Suc i + length rest" "tail = drop j input" by blast
    then have "v \<noteq> 0 \<and> i < j \<and> j \<le> i + length (byte # rest) \<and> tail = drop j input" by simp
    then show ?thesis by blast
  qed
qed simp

lemma get_varint_Inr:
  assumes "get_varint input = Inr (v, tail)"
  shows "v \<noteq> 0" and "length tail < length input"
    and "\<exists>h. input = h @ tail \<and> 0 < length h \<and> length h \<le> 10"
proof -
  from get_varint_loop_Inr [OF assms [unfolded get_varint_def]]
  obtain j where v: "v \<noteq> 0" and j: "0 < j" "j \<le> length (take 10 input)" "tail = drop j input"
    by auto
  show "v \<noteq> 0" by (rule v)
  show "length tail < length input" using j by auto
  have "input = take j input @ tail" using j by simp
  moreover have "0 < length (take j input)" "length (take j input) \<le> 10" using j by auto
  ultimately show "\<exists>h. input = h @ tail \<and> 0 < length h \<and> length h \<le> 10" by blast
qed


section \<open>The reference meaning: base-128 numerals\<close>

text \<open>
  A block is a run of at most ten bytes of which only the last has its top bit
  clear; its value takes the low seven bits of each, the first byte weighing
  least.
\<close>

fun leb128_value :: "bytes \<Rightarrow> nat" where
  "leb128_value [] = 0"
| "leb128_value (b # bs) = unat (b AND 0x7f) + 128 * leb128_value bs"

definition leb128_block :: "bytes \<Rightarrow> bool" where
  "leb128_block h \<longleftrightarrow> h \<noteq> [] \<and> length h \<le> 10 \<and> (\<forall>b \<in> set (butlast h). b AND 0x80 \<noteq> 0)
     \<and> last h AND 0x80 = 0"

lemma or_push_add:
  assumes "\<forall>n \<ge> k. \<not> bit acc n"
  shows "acc OR push_bit k (x :: u64) = acc + push_bit k x"
proof -
  have "acc + push_bit k x = acc OR push_bit k x"
    by (rule disjunctive_add) (use assms in \<open>auto simp: bit_simps\<close>)
  then show ?thesis by simp
qed

lemma push_ucast:
  "push_bit (i * 7) (ucast (b AND 0x7f :: u8) :: u64) = of_nat (128 ^ i * unat (b AND 0x7f))"
proof -
  have "(2 :: u64) ^ (i * 7) = 128 ^ i"
    by (simp add: mult.commute [of i] power_mult)
  moreover have "(ucast (b AND 0x7f) :: u64) = of_nat (unat (b AND 0x7f))" by simp
  ultimately show ?thesis by (simp add: push_bit_eq_mult mult.commute)
qed

lemma acc_clear:
  assumes "\<forall>n \<ge> i * 7. \<not> bit acc n"
  shows "\<forall>n \<ge> Suc i * 7. \<not> bit (acc OR push_bit (i * 7) (ucast (b AND 0x7f :: u8) :: u64)) n"
  using assms by (auto simp: bit_or_iff bit_push_bit_iff ucast_low bit_take_bit_iff)

lemma get_varint_loop_block:
  "\<lbrakk>h \<noteq> []; \<forall>b \<in> set (butlast h). b AND 0x80 \<noteq> 0; last h AND 0x80 = 0;
    \<forall>n \<ge> i * 7. \<not> bit acc n\<rbrakk> \<Longrightarrow>
   get_varint_loop input i (h @ rest) acc =
     (let v = acc + of_nat (128 ^ i * leb128_value h)
      in if v = 0 then Inl (Protocol ZeroRun) else Inr (v, drop (i + length h) input))"
proof (induction h arbitrary: i acc)
  case Nil
  then show ?case by simp
next
  case (Cons b h)
  let ?acc = "acc OR push_bit (i * 7) (ucast (b AND 0x7f))"
  have acc: "?acc = acc + of_nat (128 ^ i * unat (b AND 0x7f))"
    unfolding push_ucast [symmetric] by (rule or_push_add [OF Cons.prems(4)])
  show ?case
  proof (cases "h = []")
    case True
    with Cons.prems acc show ?thesis by (simp add: Let_def)
  next
    case False
    with Cons.prems have "b AND 0x80 \<noteq> 0" "last h AND 0x80 = 0"
      "\<forall>b \<in> set (butlast h). b AND 0x80 \<noteq> 0" by auto
    then have step: "get_varint_loop input i ((b # h) @ rest) acc
        = get_varint_loop input (Suc i) (h @ rest) ?acc"
      and ok: "\<forall>b \<in> set (butlast h). b AND 0x80 \<noteq> 0" "last h AND 0x80 = 0"
      by (simp_all add: Let_def)
    have sum: "?acc + of_nat (128 ^ Suc i * leb128_value h)
        = acc + of_nat (128 ^ i * leb128_value (b # h))"
      unfolding acc by (simp add: algebra_simps)
    show ?thesis
      unfolding step Cons.IH [OF False ok acc_clear [OF Cons.prems(4)]] sum by (simp add: Let_def)
  qed
qed

lemma get_varint_loop_all_cont:
  "\<forall>b \<in> set bs. b AND 0x80 \<noteq> 0 \<Longrightarrow> get_varint_loop input i bs acc = Inl (Protocol BadVarint)"
  by (induction bs arbitrary: i acc) (simp_all add: Let_def)

lemma get_varint_block:
  assumes "leb128_block h"
  shows "get_varint (h @ rest) =
     (let v = of_nat (leb128_value h)
      in if v = 0 then Inl (Protocol ZeroRun) else Inr (v, rest))"
  using assms get_varint_loop_block [of h 0 0 "h @ rest" "take (10 - length h) rest"]
  by (simp add: leb128_block_def get_varint_def Let_def)

lemma block_or_cont:
  "(\<exists>h rest. bs = h @ rest \<and> h \<noteq> [] \<and> (\<forall>b \<in> set (butlast h). (b :: u8) AND 0x80 \<noteq> 0)
      \<and> last h AND 0x80 = 0) \<or> (\<forall>b \<in> set bs. b AND 0x80 \<noteq> 0)"
proof (induction bs)
  case (Cons b bs)
  show ?case
  proof (cases "b AND 0x80 = 0")
    case True
    then have "b # bs = [b] @ bs \<and> [b] \<noteq> [] \<and> (\<forall>b \<in> set (butlast [b]). b AND 0x80 \<noteq> 0)
      \<and> last [b] AND 0x80 = 0" by simp
    then show ?thesis by blast
  next
    case False
    from Cons show ?thesis
    proof
      assume "\<exists>h rest. bs = h @ rest \<and> h \<noteq> [] \<and> (\<forall>b \<in> set (butlast h). b AND 0x80 \<noteq> 0)
        \<and> last h AND 0x80 = 0"
      then obtain h rest where "bs = h @ rest" "h \<noteq> []"
        "\<forall>b \<in> set (butlast h). b AND 0x80 \<noteq> 0" "last h AND 0x80 = 0" by blast
      with False have "b # bs = (b # h) @ rest \<and> b # h \<noteq> []
        \<and> (\<forall>b \<in> set (butlast (b # h)). b AND 0x80 \<noteq> 0) \<and> last (b # h) AND 0x80 = 0" by simp
      then show ?thesis by blast
    qed (use False in simp)
  qed
qed simp

lemma get_varint_no_block:
  assumes "\<nexists>h rest. input = h @ rest \<and> leb128_block h"
  shows "get_varint input = Inl (Protocol BadVarint)"
proof -
  have "\<forall>b \<in> set (take 10 input). b AND 0x80 \<noteq> 0"
  proof (rule ccontr)
    assume "\<not> ?thesis"
    with block_or_cont [of "take 10 input"] obtain h rest where
      h: "take 10 input = h @ rest" "h \<noteq> []" "\<forall>b \<in> set (butlast h). b AND 0x80 \<noteq> 0"
         "last h AND 0x80 = 0" by blast
    have "length h \<le> 10" using arg_cong [OF h(1), of length] by simp
    with h have "leb128_block h" by (simp add: leb128_block_def)
    moreover have "input = h @ rest @ drop 10 input"
      using h(1) append_take_drop_id [of 10 input] by (metis append.assoc)
    ultimately show False using assms by blast
  qed
  then show ?thesis by (simp add: get_varint_def get_varint_loop_all_cont)
qed


lemma unat_low7: "unat (b AND 0x7f :: u8) = unat (take_bit 7 (ucast b :: u64))"
  unfolding ucast_low [symmetric] 
  using unsigned_less [of "b AND 0x7f", where 'a = nat] by (simp add: unsigned_ucast_eq take_bit_nat_eq_self)

lemma unat_take7: "unat (take_bit 7 (v :: u64)) = unat v mod 128"
  by (simp add: take_bit_eq_mod unat_mod_distrib)

lemma leb128_put: "leb128_value (put_varint [] v) = unat v"
proof (induction "unat v" arbitrary: v rule: less_induct)
  case less
  show ?case
  proof (cases "0x80 \<le> v")
    case True
    then have "unat (drop_bit 7 v) < unat v" by (simp add: unat_drop7 word_le_nat_alt)
    from less [OF this] have IH: "leb128_value (put_varint [] (drop_bit 7 v)) = unat v div 128"
      by (simp add: unat_drop7)
    have "unat (((ucast v :: u8) OR 0x80) AND 0x7f) = unat v mod 128"
      by (simp only: unat_low7 ucast_cont unat_take7)
    with IH True show ?thesis by (simp add: put_varint_unfold [of v])
  next
    case False
    have "unat ((ucast v :: u8) AND 0x7f) = unat v mod 128"
      by (simp only: unat_low7 ucast_last unat_take7)
    with False show ?thesis
      by (simp only: put_varint_unfold [of v] if_False leb128_value.simps)
        (simp add: word_le_nat_alt)
  qed
qed

lemma leb128_value_bound: "leb128_value h < 128 ^ length h"
proof (induction h)
  case (Cons b h)
  have "unat (b AND 0x7f) < 128"
    by (simp only: unat_low7 unat_take7)
  with Cons show ?case by simp
qed simp

lemma put_varint_shape:
  "\<forall>b \<in> set (butlast (put_varint [] v)). b AND 0x80 \<noteq> 0"
  "last (put_varint [] v) AND 0x80 = 0"
proof (induction "unat v" arbitrary: v rule: less_induct)
  case less
  have cont: "((ucast v :: u8) OR 0x80) AND 0x80 \<noteq> 0"
    by (simp only: bit_high bit_or_iff bit_0x80) simp
  {
    case 1
    show ?case
    proof (cases "0x80 \<le> v")
      case True
      then have "unat (drop_bit 7 v) < unat v" by (simp add: unat_drop7 word_le_nat_alt)
      from less(1) [OF this] True cont show ?thesis by (simp add: put_varint_unfold [of v])
    qed (simp add: put_varint_unfold [of v])
  next
    case 2
    show ?case
    proof (cases "0x80 \<le> v")
      case True
      then have "unat (drop_bit 7 v) < unat v" by (simp add: unat_drop7 word_le_nat_alt)
      from less(2) [OF this] True show ?thesis
        by (simp add: put_varint_unfold [of v] put_varint_nonempty)
    qed (simp add: put_varint_unfold [of v] last_byte)
  }
qed

lemma leb128_block_put: "leb128_block (put_varint [] v)"
  by (simp add: leb128_block_def put_varint_nonempty length_put_varint_10 put_varint_shape)

lemma put_varint_shortest:
  assumes "leb128_block h" and "leb128_value h = unat v"
  shows "length (put_varint [] v) \<le> length h"
  using assms leb128_value_bound [of h]
  by (intro length_put_varint) (simp_all add: leb128_block_def)

text \<open>A run length needs no more bytes than it stands for samples.\<close>

lemma length_put_varint_le:
  assumes "v \<noteq> 0"
  shows "length (put_varint [] v) \<le> unat v"
proof (rule length_put_varint)
  show "0 < unat v" using assms by (simp add: unat_gt_0)
  have "n < 128 ^ n" for n :: nat by (induction n) auto
  then show "unat v < 128 ^ unat v" .
qed

section \<open>The contract of a run-length codec\<close>

text \<open>
  What the transition codec needs of its run lengths: a reader that inverts the
  writer, never yields zero and always consumes input.  In exchange a payload
  splits into runs in at most one way.
\<close>

inductive parses ::
  "(bytes \<Rightarrow> (u64 \<times> bytes) result) \<Rightarrow> nat \<Rightarrow> bytes \<Rightarrow> (u64 \<times> bytes) list \<Rightarrow> bool"
  for get :: "bytes \<Rightarrow> (u64 \<times> bytes) result" and u :: nat where
  parses_Nil: "parses get u [] []"
| parses_Cons: "\<lbrakk>payload \<noteq> []; get payload = Inr (run, val @ tail); length val = u;
     parses get u tail rs\<rbrakk> \<Longrightarrow> parses get u payload ((run, val) # rs)"

inductive_cases parses_NilE [elim]: "parses get u [] rs"
inductive_cases parses_ConsE: "parses get u payload (r # rs)"
inductive_cases parses_emptyE [elim]: "parses get u payload []"

definition put_runs :: "(u64 \<Rightarrow> bytes) \<Rightarrow> (u64 \<times> bytes) list \<Rightarrow> bytes" where
  "put_runs put rs = concat (map (\<lambda>(run, val). put run @ val) rs)"

lemma put_runs_simps [simp]:
  "put_runs put [] = []"
  "put_runs put ((run, val) # rs) = put run @ val @ put_runs put rs"
  "put_runs put (rs @ rs') = put_runs put rs @ put_runs put rs'"
  by (simp_all add: put_runs_def)

definition runs_ok :: "nat \<Rightarrow> (u64 \<times> bytes) list \<Rightarrow> bool" where
  "runs_ok u rs \<longleftrightarrow> list_all (\<lambda>(run, val). run \<noteq> 0 \<and> length val = u) rs"

lemma runs_ok_simps [simp]:
  "runs_ok u []"
  "runs_ok u ((run, val) # rs) \<longleftrightarrow> run \<noteq> 0 \<and> length val = u \<and> runs_ok u rs"
  "runs_ok u (rs @ rs') \<longleftrightarrow> runs_ok u rs \<and> runs_ok u rs'"
  by (auto simp: runs_ok_def)

locale run_codec =
  fixes put :: "u64 \<Rightarrow> bytes"
    and get :: "bytes \<Rightarrow> (u64 \<times> bytes) result"
  assumes get_put: "v \<noteq> 0 \<Longrightarrow> get (put v @ rest) = Inr (v, rest)"
    and get_nonzero: "get input = Inr (v, tail) \<Longrightarrow> v \<noteq> 0"
    and get_consumes: "get input = Inr (v, tail) \<Longrightarrow> length tail < length input"
begin

lemma get_Nil: "get [] \<noteq> Inr (v, tail)"
proof
  assume "get [] = Inr (v, tail)"
  from get_consumes [OF this] show False by simp
qed

lemma put_nonempty:
  assumes "v \<noteq> 0"
  shows "put v \<noteq> []"
proof
  assume "put v = []"
  with get_put [OF assms, of "[]"] have "get [] = Inr (v, [])" by simp
  then show False using get_Nil by blast
qed

lemma put_inj:
  assumes "v \<noteq> 0" "w \<noteq> 0" and eq: "put v @ xs = put w @ ys"
  shows "v = w \<and> xs = ys"
proof -
  have "Inr (v, xs) = get (put v @ xs)" by (rule get_put [OF assms(1), symmetric])
  also have "\<dots> = Inr (w, ys)" unfolding eq by (rule get_put [OF assms(2)])
  finally show ?thesis by simp
qed

lemma parses_put_runs: "runs_ok u rs \<Longrightarrow> parses get u (put_runs put rs) rs"
proof (induction rs)
  case Nil
  show ?case by (simp add: parses_Nil)
next
  case (Cons r rs)
  obtain run val where r: "r = (run, val)" by (cases r)
  with Cons have "run \<noteq> 0" "length val = u" "parses get u (put_runs put rs) rs" by auto
  with r show ?case
    by (auto intro!: parses_Cons simp: get_put put_nonempty)
qed

lemma parses_functional: "\<lbrakk>parses get u payload rs; parses get u payload rs'\<rbrakk> \<Longrightarrow> rs = rs'"
proof (induction arbitrary: rs' rule: parses.induct)
  case parses_Nil
  then show ?case by auto
next
  case (parses_Cons payload run val tail rs)
  from parses_Cons.prems parses_Cons.hyps obtain rs'' where
    "rs' = (run, val) # rs''" "parses get u tail rs''"
    by (cases rule: parses.cases) auto
  with parses_Cons.IH show ?case by simp
qed

lemma parses_runs_ok: "parses get u payload rs \<Longrightarrow> runs_ok u rs"
  by (induction rule: parses.induct) (auto dest: get_nonzero)

lemma put_runs_inj:
  assumes "runs_ok u rs" and "runs_ok u rs'" and "put_runs put rs = put_runs put rs'"
  shows "rs = rs'"
  using parses_put_runs [OF assms(1)] parses_put_runs [OF assms(2)] assms(3)
  by (auto intro: parses_functional)

end

interpretation varint: run_codec "put_varint []" get_varint
  by unfold_locales (auto simp: get_put_varint dest: get_varint_Inr)

section \<open>Properties\<close>

text \<open>
  A positive run length written by \<open>put_varint\<close> is read back by \<open>get_varint\<close>,
  which hands over exactly the bytes that follow; the bytes written are a
  base-128 numeral of the value, and no numeral of it is shorter.
\<close>

lemma varint_roundtrip:
  assumes "v \<noteq> 0"
  shows "get_varint (put_varint [] v @ rest) = Inr (v, rest)
    \<and> leb128_block (put_varint [] v) \<and> leb128_value (put_varint [] v) = unat v
    \<and> (\<forall>h. leb128_block h \<and> leb128_value h = unat v \<longrightarrow> length (put_varint [] v) \<le> length h)"
  using assms by (simp add: varint.get_put leb128_block_put leb128_put put_varint_shortest)

lemma varint_roundtrip_witness:
  "get_varint (put_varint [] 300 @ [5]) = Inr (300, [5]) \<and> put_varint [] 300 = [0xac, 0x02]"
proof
  have "(300 :: u64) \<noteq> 0" by simp
  from varint_roundtrip [OF this, of "[5]"]
  show "get_varint (put_varint [] 300 @ [5]) = Inr (300, [5])" by blast
  show "put_varint [] 300 = [0xac, 0x02]" by code_simp
qed

text \<open>
  C32. What \<open>get_varint\<close> does on any input: it succeeds exactly on an input that
  starts with a base-128 numeral of at most ten bytes whose value, cut to 64 bits,
  is not zero; a numeral that is zero in 64 bits is the error of a zero run, and
  an input with no such numeral at its head is a truncated or oversized varint.
\<close>

theorem get_varint_spec:
  "(get_varint input = Inr (v, tail) \<longleftrightarrow>
      (\<exists>h. leb128_block h \<and> input = h @ tail \<and> v = of_nat (leb128_value h) \<and> v \<noteq> 0))
   \<and> (get_varint input = Inl (Protocol ZeroRun) \<longleftrightarrow>
      (\<exists>h rest. leb128_block h \<and> input = h @ rest \<and> (of_nat (leb128_value h) :: u64) = 0))
   \<and> (get_varint input = Inl (Protocol BadVarint) \<longleftrightarrow>
      (\<nexists>h rest. leb128_block h \<and> input = h @ rest))"
proof (cases "\<exists>h rest. input = h @ rest \<and> leb128_block h")
  case True
  then show ?thesis
    by (auto simp: get_varint_block Let_def split: if_splits)
next
  case False
  then have "get_varint input = Inl (Protocol BadVarint)" by (rule get_varint_no_block)
  with False show ?thesis by auto
qed

text \<open>
  A ten-byte numeral above the range of \<open>u64\<close> is not refused as oversized:
  the six bits its last byte shifts out are dropped, and \<open>2^64 + 1\<close> reads as 1.
\<close>

lemma oversized_varint_accepted:
  "leb128_value (0x81 # replicate 8 0x80 @ [0x02]) = 2 ^ 64 + 1
   \<and> get_varint (0x81 # replicate 8 0x80 @ [0x02]) = Inr (1, [])"
proof
  have oversized: "replicate 8 (0x80 :: u8) = [0x80, 0x80, 0x80, 0x80, 0x80, 0x80, 0x80, 0x80]"
    by (simp add: numeral_eq_Suc)
  show "leb128_value (0x81 # replicate 8 0x80 @ [0x02]) = 2 ^ 64 + 1"
    unfolding oversized by simp
  show "get_varint (0x81 # replicate 8 0x80 @ [0x02]) = Inr (1, [])"
    by code_simp
qed

end
