(* ===== verification/OCP_Encoding.thy ===== *)
theory OCP_Encoding
  imports OCP_Prelude OCP_Proto OCP_Error OCP_Varint
begin

text \<open>
  \<open>rust/openmso/src/encoding.rs\<close>: the negotiation of sample encodings and byte
  codecs in \<open>Hello\<close>, the run-length codec of packed samples, and the decoding of
  one chunk by what it declares.
\<close>

section \<open>Negotiation\<close>

definition ENCODINGS :: "sample_encoding list" where
  "ENCODINGS = [Transition, Packed]"

definition CODECS :: "codec list" where
  "CODECS = [CodecNone]"

definition intersect :: "i32 list \<Rightarrow> i32 list \<Rightarrow> i32 \<Rightarrow> i32 list" where
  "intersect accept supported mandatory =
     (if accept = [] then [mandatory]
      else (let out = filter (\<lambda>s. s \<in> set accept) supported
            in if mandatory \<notin> set out then out @ [mandatory] else out))"

definition negotiate_encodings :: "i32 list \<Rightarrow> sample_encoding list \<Rightarrow> i32 list" where
  "negotiate_encodings accept supported =
     intersect accept (map sample_encoding_i32 supported) (sample_encoding_i32 Packed)"

definition negotiate_codecs :: "i32 list \<Rightarrow> codec list \<Rightarrow> i32 list" where
  "negotiate_codecs accept supported =
     intersect accept (map codec_i32 supported) (codec_i32 CodecNone)"

definition accepts :: "i32 list \<Rightarrow> sample_encoding \<Rightarrow> bool" where
  "accepts negotiated encoding = (sample_encoding_i32 encoding \<in> set negotiated)"

lemma set_intersect:
  "set (intersect accept supported mandatory) = insert mandatory (set accept \<inter> set supported)"
  by (auto simp: intersect_def Let_def)

lemma distinct_intersect:
  "distinct supported \<Longrightarrow> distinct (intersect accept supported mandatory)"
  by (auto simp: intersect_def Let_def)

lemma intersect_order:
  "mandatory \<in> set supported \<Longrightarrow> accept = [] \<or> mandatory \<in> set accept \<Longrightarrow>
   subseq (intersect accept supported mandatory) supported"
  by (auto simp: intersect_def Let_def subseq_filter_left subseq_singleton_left)

section \<open>The transition codec\<close>

text \<open>
  The loop of \<open>encode_transition\<close> over the samples after the first.  The run
  counter is the code's \<open>u64\<close>; it cannot overflow, since a slice holds fewer than
  \<open>2^63\<close> bytes.
\<close>

fun encode_runs :: "bytes \<Rightarrow> bytes \<Rightarrow> u64 \<Rightarrow> bytes list \<Rightarrow> bytes" where
  "encode_runs out current run [] = put_varint out run @ current"
| "encode_runs out current run (sample # samples) =
     (if sample = current then encode_runs out current (run + 1) samples
      else encode_runs (put_varint out run @ current) sample 1 samples)"

definition encode_transition :: "bytes \<Rightarrow> usize \<Rightarrow> bytes outcome" where
  "encode_transition packed unitsize =
     (if unitsize = 0 then Panic AssertFailed
      else (case chunks_exact (unat unitsize) packed of
              [] \<Rightarrow> Ret []
            | current # samples \<Rightarrow> Ret (encode_runs [] current 1 samples)))"

text \<open>\<open>for _ in 0..run { out.extend_from_slice(value) }\<close>\<close>

primrec extend_run :: "nat \<Rightarrow> bytes \<Rightarrow> bytes \<Rightarrow> bytes outcome" where
  "extend_run 0 val out = Ret out"
| "extend_run (Suc n) val out = obind (vec_extend out val) (extend_run n val)"

text \<open>The \<open>while\<close> loop of \<open>decode_transition\<close>, over what is left of the payload.\<close>

function decode_runs :: "usize \<Rightarrow> bytes \<Rightarrow> bytes \<Rightarrow> bytes result outcome" where
  "decode_runs unitsize out rest =
     (if rest = [] then Ret (Inr out)
      else (case get_varint rest of
              Inl e \<Rightarrow> Ret (Inl e)
            | Inr (run, tail) \<Rightarrow>
                if length tail < unat unitsize then Ret (Inl (Protocol RunMissingValue))
                else obind (extend_run (unat run) (take (unat unitsize) tail) out)
                       (\<lambda>out. decode_runs unitsize out (drop (unat unitsize) tail))))"
  by pat_completeness auto
termination
  by (relation "measure (\<lambda>(u, out, rest). length rest)")
    (auto dest!: get_varint_Inr(2) intro: le_less_trans)

declare decode_runs.simps [simp del]

definition decode_transition ::
  "profile \<Rightarrow> bytes \<Rightarrow> usize \<Rightarrow> usize \<Rightarrow> bytes result outcome" where
  "decode_transition prof payload unitsize samples =
     (if unitsize = 0 then Ret (Inl (Protocol UnitsizeZero))
      else obind (usize_mul prof samples unitsize) (\<lambda>declared.
           obind (vec_reserve declared) (\<lambda>out.
           obind (decode_runs unitsize out payload) (\<lambda>expanded.
           Ret (rbind expanded (\<lambda>out.
             if of_nat (length out) \<noteq> declared
             then Inl (Protocol (WrongSampleCount
                    (of_nat (length out div unat unitsize)) samples))
             else Inr out))))))"

text \<open>\<open>Cow<[u8]>\<close>: the payload itself, or a decoded copy.\<close>

datatype cow = Borrowed (cow_bytes: bytes) | Owned (cow_bytes: bytes)

definition decode_payload :: "profile \<Rightarrow> capture_data \<Rightarrow> usize \<Rightarrow> cow result outcome" where
  "decode_payload prof data unitsize =
     (let codec = unwrap_or (codec_try_from (cd_codec data)) CodecUnspecified in
      if codec \<notin> {CodecNone, CodecUnspecified} then Ret (Inl (Protocol (NotDecodable codec)))
      else (case unwrap_or (sample_encoding_try_from (cd_encoding data)) EncodingUnspecified of
              Transition \<Rightarrow>
                obind (decode_transition prof (cd_payload data) unitsize (cd_sample_count data))
                  (\<lambda>r. Ret (map_ok Owned r))
            | _ \<Rightarrow> Ret (Inr (Borrowed (cd_payload data)))))"

section \<open>What a list of runs stands for\<close>

definition expand_runs :: "(u64 \<times> bytes) list \<Rightarrow> bytes" where
  "expand_runs rs = concat (map (\<lambda>(run, val). concat (replicate (unat run) val)) rs)"

lemma expand_runs_simps [simp]:
  "expand_runs [] = []"
  "expand_runs ((run, val) # rs) = concat (replicate (unat run) val) @ expand_runs rs"
  by (simp_all add: expand_runs_def)

lemma length_concat_replicate [simp]:
  "length (concat (replicate n xs)) = n * length xs"
  by (induction n) simp_all

lemma encode_runs_spec:
  "\<lbrakk>run \<noteq> 0; unat run + length samples < 2 ^ 64; length current = u;
    \<forall>s \<in> set samples. length s = u\<rbrakk> \<Longrightarrow>
   \<exists>rs. encode_runs out current run samples = out @ put_runs (put_varint []) rs
      \<and> runs_ok u rs \<and> rs \<noteq> [] \<and> snd (hd rs) = current \<and> distinct_adj (map snd rs)
      \<and> expand_runs rs = concat (replicate (unat run) current) @ concat samples"
proof (induction samples arbitrary: out current run)
  case Nil
  then show ?case
    using put_varint_append [of out "[]" run]
    by (intro exI [of _ "[(run, current)]"]) simp
next
  case (Cons sample samples)
  show ?case
  proof (cases "sample = current")
    case True
    have run1: "unat (run + 1) = unat run + 1"
      using Cons.prems by (intro trans [OF unat_add_exact]) simp_all
    then have "run + 1 \<noteq> 0" by auto
    from Cons.IH [of "run + 1" current out, OF this] Cons.prems run1 True
    show ?thesis by (simp add: replicate_append_same [symmetric])
  next
    case False
    from Cons.IH [of 1 sample "put_varint out run @ current"] Cons.prems
    obtain rs where rs: "encode_runs (put_varint out run @ current) sample 1 samples
        = (put_varint out run @ current) @ put_runs (put_varint []) rs"
      "runs_ok u rs" "rs \<noteq> []" "snd (hd rs) = sample" "distinct_adj (map snd rs)"
      "expand_runs rs = sample @ concat samples" by auto
    from rs False Cons.prems put_varint_append [of out "[]" run] show ?thesis
      by (intro exI [of _ "(run, current) # rs"]) (auto simp: distinct_adj_Cons hd_map)
  qed
qed

lemma encode_transition_runs:
  assumes "unitsize \<noteq> 0" and "length packed \<le> isize_max"
  obtains rs where "encode_transition packed unitsize = Ret (put_runs (put_varint []) rs)"
    and "runs_ok (unat unitsize) rs" and "distinct_adj (map snd rs)"
    and "expand_runs rs = take (unat unitsize * (length packed div unat unitsize)) packed"
proof -
  let ?u = "unat unitsize"
  from assms(1) have u: "?u \<noteq> 0" by (simp add: unat_eq_0)
  note conc = concat_chunks_exact [OF u, of packed]
  show thesis
  proof (cases "chunks_exact ?u packed")
    case Nil
    with conc assms(1) that [of "[]"] show thesis
      by (simp add: encode_transition_def)
  next
    case (Cons current samples)
    have lens: "length current = ?u" "\<forall>s \<in> set samples. length s = ?u"
      using chunks_exact_length [of _ ?u packed] Cons by auto
    have "length (current # samples) \<le> length packed"
      using length_chunks_exact [OF u, of packed] Cons by simp
    then have "unat (1 :: u64) + length samples < 2 ^ 64"
      using assms(2) by (simp add: isize_max_def)
    from encode_runs_spec [OF _ this lens, of "[]"] Cons conc assms(1) that show thesis
      by (auto simp: encode_transition_def)
  qed
qed

lemma extend_run_eq:
  "length out \<le> isize_max \<Longrightarrow>
   extend_run n val out =
     (if length out + n * length val \<le> isize_max then Ret (out @ concat (replicate n val))
      else Panic CapacityOverflow)"
proof (induction n arbitrary: out)
  case (Suc n)
  show ?case
  proof (cases "length out + length val \<le> isize_max")
    case True
    with Suc.IH [of "out @ val"] show ?thesis
      by (simp add: vec_extend_def add.assoc)
  next
    case False
    then show ?thesis by (simp add: vec_extend_def)
  qed
qed simp

lemma decode_runs_sound:
  "\<lbrakk>decode_runs unitsize out payload = Ret (Inr res); length out \<le> isize_max\<rbrakk> \<Longrightarrow>
   \<exists>rs. parses get_varint (unat unitsize) payload rs \<and> res = out @ expand_runs rs
     \<and> length res \<le> isize_max"
proof (induction unitsize out payload rule: decode_runs.induct)
  case (1 unitsize out payload)
  show ?case
  proof (cases "payload = []")
    case True
    with "1.prems" show ?thesis
      by (intro exI [of _ "[]"]) (simp add: decode_runs.simps [of unitsize out "[]"] parses_Nil)
  next
    case False
    with "1.prems"(1) obtain run tail where get: "get_varint payload = Inr (run, tail)"
      and long: "unat unitsize \<le> length tail"
      and more: "obind (extend_run (unat run) (take (unat unitsize) tail) out)
          (\<lambda>out. decode_runs unitsize out (drop (unat unitsize) tail)) = Ret (Inr res)"
      by (auto simp: decode_runs.simps [of unitsize out payload] not_less
          split: sum.splits if_splits)
    let ?val = "take (unat unitsize) tail"
    from more "1.prems"(2) have fits: "length out + unat run * length ?val \<le> isize_max"
      and more': "decode_runs unitsize (out @ concat (replicate (unat run) ?val))
          (drop (unat unitsize) tail) = Ret (Inr res)"
      by (auto simp: extend_run_eq split: if_splits)
    from "1.IH" [OF False get refl _ _ more'] long fits "1.prems"(2)
    obtain rs where rs: "parses get_varint (unat unitsize) (drop (unat unitsize) tail) rs"
      "res = (out @ concat (replicate (unat run) ?val)) @ expand_runs rs" "length res \<le> isize_max"
      by (auto simp: extend_run_eq)
    from parses_Cons [OF False _ _ rs(1), of run ?val] get long
    have "parses get_varint (unat unitsize) payload ((run, ?val) # rs)" by simp
    with rs show ?thesis by (intro exI [of _ "(run, ?val) # rs"]) simp
  qed
qed

lemma decode_runs_complete:
  "\<lbrakk>parses get_varint u payload rs; u = unat unitsize; length out + length (expand_runs rs) \<le> isize_max\<rbrakk> \<Longrightarrow>
   decode_runs unitsize out payload = Ret (Inr (out @ expand_runs rs))"
proof (induction arbitrary: out rule: parses.induct)
  case parses_Nil
  then show ?case by (simp add: decode_runs.simps)
next
  case (parses_Cons payload run val tail rs)
  then show ?case
    by (simp add: decode_runs.simps [of unitsize out payload] extend_run_eq)
qed

lemma decode_runs_overflow:
  "\<lbrakk>parses get_varint u payload rs; u = unat unitsize; length out \<le> isize_max;
    isize_max < length out + length (expand_runs rs)\<rbrakk> \<Longrightarrow>
   decode_runs unitsize out payload = Panic CapacityOverflow"
proof (induction arbitrary: out rule: parses.induct)
  case parses_Nil
  then show ?case by simp
next
  case (parses_Cons payload run val tail rs)
  then show ?case
    by (auto simp: decode_runs.simps [of unitsize out payload] extend_run_eq)
qed


definition run_total :: "(u64 \<times> bytes) list \<Rightarrow> nat" where
  "run_total rs = sum_list (map (\<lambda>(run, val). unat run) rs)"

lemma run_total_simps [simp]:
  "run_total [] = 0"
  "run_total ((run, val) # rs) = unat run + run_total rs"
  by (simp_all add: run_total_def)

lemma length_expand_runs: "runs_ok u rs \<Longrightarrow> length (expand_runs rs) = run_total rs * u"
  by (induction rs) (auto simp: algebra_simps)

lemma length_put_runs:
  "runs_ok u rs \<Longrightarrow> length (put_runs (put_varint []) rs) \<le> run_total rs + run_total rs * u"
proof (induction rs)
  case (Cons r rs)
  obtain run val where r: "r = (run, val)" by (cases r)
  with Cons.prems have "run \<noteq> 0" and val: "length val = u" by auto
  then have put: "length (put_varint [] run) \<le> unat run" and "1 \<le> unat run"
    by (simp_all add: length_put_varint_le unat_gt_0 Suc_leI)
  from mult_le_mono1 [OF this(2), of u] have "u \<le> unat run * u" by simp
  moreover from Cons r have
    "length (put_runs (put_varint []) rs) \<le> run_total rs + run_total rs * u" by simp
  ultimately have "length (put_varint [] run) + u + length (put_runs (put_varint []) rs)
      \<le> unat run + unat run * u + (run_total rs + run_total rs * u)"
    using put by linarith
  with r val show ?case by (simp add: add_mult_distrib)
qed simp

lemma encode_length:
  assumes "unitsize \<noteq> 0" and "length packed \<le> isize_max"
    and "encode_transition packed unitsize = Ret e"
  shows "length e \<le> length packed + length packed div unat unitsize"
proof -
  let ?u = "unat unitsize" and ?n = "length packed div unat unitsize"
  have u: "0 < ?u" using assms(1) by (simp add: unat_gt_0)
  obtain rs where e: "e = put_runs (put_varint []) rs" and ok: "runs_ok ?u rs"
    and ex: "expand_runs rs = take (?u * ?n) packed"
    using encode_transition_runs [OF assms(1,2)] assms(3) by auto
  have "?n * ?u \<le> length packed" by simp
  with ex have "length (expand_runs rs) = ?n * ?u" by (simp add: mult.commute)
  with length_expand_runs [OF ok] u have "run_total rs = ?n" by simp
  with length_put_runs [OF ok] have "length e \<le> ?n + ?n * ?u" by (simp add: e)
  with \<open>?n * ?u \<le> length packed\<close> show ?thesis by linarith
qed

text \<open>An encoded slice, decoded with the number of samples that went in.\<close>

lemma decode_encoded:
  assumes u: "unitsize \<noteq> 0" and len: "length packed \<le> isize_max"
  shows "obind (encode_transition packed unitsize)
      (\<lambda>e. decode_transition prof e unitsize (of_nat (length packed div unat unitsize)))
    = Ret (Inr (take (unat unitsize * (length packed div unat unitsize)) packed))"
proof -
  let ?u = "unat unitsize" and ?n = "length packed div unat unitsize"
  obtain rs where rs: "encode_transition packed unitsize = Ret (put_runs (put_varint []) rs)"
    "runs_ok ?u rs" "expand_runs rs = take (?u * ?n) packed"
    using encode_transition_runs [OF u len] by blast
  have total: "?n * ?u \<le> length packed" by simp
  have "?n \<le> length packed" by simp
  with len have "?n < 2 ^ 64" by (intro isize_max_less) (rule order_trans)
  then have n: "unat (of_nat ?n :: usize) = ?n" by (rule unat_of_nat_u64)
  have prod: "unat (of_nat ?n :: usize) * ?u < 2 ^ 64"
    unfolding n by (intro isize_max_less) (rule order_trans [OF total len])
  have mult: "usize_mul prof (of_nat ?n) unitsize = Ret (of_nat ?n * unitsize)"
    by (rule usize_mul_exact [OF prod])
  have declared: "unat (of_nat ?n * unitsize :: usize) = ?n * ?u"
    using unat_mult_exact [OF prod] n by simp
  have fits: "?n * ?u \<le> isize_max" by (rule order_trans [OF total len])
  have out: "length (take (?u * ?n) packed) = ?n * ?u"
    using total by (simp add: mult.commute [of ?u] min_absorb2)
  have "decode_runs unitsize [] (put_runs (put_varint []) rs) = Ret (Inr (expand_runs rs))"
    using decode_runs_complete [OF varint.parses_put_runs [OF rs(2)] refl, of "[]"]
      rs(3) out fits by (simp add: mult.commute [of ?u])
  moreover have "(of_nat (length (expand_runs rs)) :: usize) = of_nat ?n * unitsize"
    unfolding rs(3) out by simp
  ultimately show ?thesis
    using u rs mult declared fits
    by (simp add: decode_transition_def vec_reserve_def)
qed

section \<open>Properties\<close>

text \<open>
  Negotiation. What a server answers is the mandatory member together with
  the intersection of the two lists, in the server's order of preference and
  never empty: with the crate's own lists \<open>TRANSITION\<close> comes first when the
  client takes it, \<open>PACKED\<close> is always there, and the codec is always \<open>NONE\<close>.
\<close>

lemma negotiation:
  "set (negotiate_encodings accept es) =
     insert (sample_encoding_i32 Packed) (set accept \<inter> sample_encoding_i32 ` set es)
   \<and> set (negotiate_codecs accept cs) =
     insert (codec_i32 CodecNone) (set accept \<inter> codec_i32 ` set cs)
   \<and> negotiate_encodings accept ENCODINGS =
     (if accepts accept Transition
      then [sample_encoding_i32 Transition, sample_encoding_i32 Packed]
      else [sample_encoding_i32 Packed])
   \<and> negotiate_codecs accept CODECS = [codec_i32 CodecNone]"
proof (intro conjI)
  show "negotiate_encodings accept ENCODINGS =
     (if accepts accept Transition
      then [sample_encoding_i32 Transition, sample_encoding_i32 Packed]
      else [sample_encoding_i32 Packed])"
    by (auto simp: negotiate_encodings_def ENCODINGS_def accepts_def intersect_def Let_def)
  show "negotiate_codecs accept CODECS = [codec_i32 CodecNone]"
    by (auto simp: negotiate_codecs_def CODECS_def intersect_def Let_def)
qed (simp_all add: negotiate_encodings_def negotiate_codecs_def set_intersect)

text \<open>
  \<open>encode_transition\<close> writes the runs of the samples: positive run lengths,
  one value of \<open>unitsize\<close> bytes each, no two neighbouring runs with the same
  value, and together exactly the whole samples of the input, in order.
\<close>

lemma encode_transition_canonical:
  assumes "unitsize \<noteq> 0" and "length packed \<le> isize_max"
  shows "\<exists>rs. encode_transition packed unitsize = Ret (put_runs (put_varint []) rs)
    \<and> runs_ok (unat unitsize) rs \<and> distinct_adj (map snd rs)
    \<and> expand_runs rs = take (unat unitsize * (length packed div unat unitsize)) packed"
  by (rule encode_transition_runs [OF assms]) blast

lemma encode_transition_canonical_witness:
  "(\<exists>rs. encode_transition [1, 2, 1, 2, 3, 4, 3, 4] 2 = Ret (put_runs (put_varint []) rs)
     \<and> runs_ok 2 rs \<and> distinct_adj (map snd rs) \<and> expand_runs rs = [1, 2, 1, 2, 3, 4, 3, 4])
   \<and> encode_transition [1, 2, 1, 2, 3, 4, 3, 4] 2 = Ret [2, 1, 2, 2, 3, 4]"
proof
  have "(2 :: usize) \<noteq> 0" "length [1, 2, 1, 2, 3, 4, 3, 4 :: u8] \<le> isize_max"
    by (simp_all add: isize_max_def)
  from encode_transition_canonical [OF this]
  show "\<exists>rs. encode_transition [1, 2, 1, 2, 3, 4, 3, 4] 2 = Ret (put_runs (put_varint []) rs)
     \<and> runs_ok 2 rs \<and> distinct_adj (map snd rs) \<and> expand_runs rs = [1, 2, 1, 2, 3, 4, 3, 4]"
    by simp
  show "encode_transition [1, 2, 1, 2, 3, 4, 3, 4] 2 = Ret [2, 1, 2, 2, 3, 4]"
    by code_simp
qed

text \<open>
  C1. The transition codec round trip, in either build profile: encoding never
  panics, and decoding the result with the number of whole samples that went in
  gives back those samples.
\<close>

theorem transition_roundtrip:
  assumes "unitsize \<noteq> 0" and "length packed \<le> isize_max"
    and "unat unitsize dvd length packed"
  shows "obind (encode_transition packed unitsize)
      (\<lambda>e. decode_transition prof e unitsize (of_nat (length packed div unat unitsize)))
    = Ret (Inr packed)"
  using decode_encoded [OF assms(1,2), of prof] assms(3) by simp

theorem transition_roundtrip_witness:
  "obind (encode_transition [7, 7, 7, 9] 1) (\<lambda>e. decode_transition Debug e 1 4)
     = Ret (Inr [7, 7, 7, 9])"
proof -
  have "(1 :: usize) \<noteq> 0" "length [7, 7, 7, 9 :: u8] \<le> isize_max"
    "unat (1 :: usize) dvd length [7, 7, 7, 9 :: u8]"
    by (simp_all add: isize_max_def)
  from transition_roundtrip [OF this, of Debug] show ?thesis by simp
qed

text \<open>
  C31. What \<open>decode_transition\<close> accepts: a payload that splits, to its last byte,
  into positive runs of \<open>unitsize\<close>-byte values whose expansion has exactly the
  declared size \<open>samples * unitsize\<close> in the arithmetic of the build; the result is
  that expansion.
\<close>

theorem decode_transition_spec:
  "decode_transition prof payload unitsize samples = Ret (Inr out) \<longleftrightarrow>
     unitsize \<noteq> 0
     \<and> (prof = Release \<or> unat samples * unat unitsize < 2 ^ 64)
     \<and> length out \<le> isize_max \<and> of_nat (length out) = samples * unitsize
     \<and> (\<exists>rs. parses get_varint (unat unitsize) payload rs \<and> out = expand_runs rs)"
  (is "?lhs \<longleftrightarrow> ?rhs")
proof
  assume ?lhs
  then have u: "unitsize \<noteq> 0" and mul: "usize_mul prof samples unitsize = Ret (samples * unitsize)"
    and dec: "decode_runs unitsize [] payload = Ret (Inr out)"
    and cnt: "of_nat (length out) = samples * unitsize"
    by (auto simp: decode_transition_def return_iff usize_mul_def vec_reserve_def split: if_splits)
  from decode_runs_sound [OF dec] u mul cnt show ?rhs
    by (cases prof) (auto simp: usize_mul_def split: if_splits)
next
  assume ?rhs
  then obtain rs where rs: "parses get_varint (unat unitsize) payload rs" "out = expand_runs rs"
    and r: "unitsize \<noteq> 0" "prof = Release \<or> unat samples * unat unitsize < 2 ^ 64"
      "length out \<le> isize_max" "of_nat (length out) = samples * unitsize" by blast
  have "length out < 2 ^ 64" using r(3) by (simp add: isize_max_def)
  then have "unat (samples * unitsize) = length out"
    using r(4) unat_of_nat_u64 [of "length out"] by simp
  moreover have "decode_runs unitsize [] payload = Ret (Inr out)"
    using decode_runs_complete [OF rs(1) refl, of "[]"] rs(2) r(3) by simp
  moreover have "usize_mul prof samples unitsize = Ret (samples * unitsize)"
    using r(2) by (auto simp: usize_mul_def)
  ultimately show ?lhs
    using r by (simp add: decode_transition_def vec_reserve_def)
qed

text \<open>
  The cost of the encoding: at most one byte per sample more than the input,
  the worst case being samples that all differ.
\<close>

lemma encode_transition_length:
  assumes "unitsize \<noteq> 0" and "length packed \<le> isize_max"
    and "encode_transition packed unitsize = Ret e"
  shows "length e \<le> length packed + length packed div unat unitsize"
  by (rule encode_length [OF assms])

lemma encode_transition_length_witness:
  "length [1, 5, 1, 6, 1, 7 :: u8] \<le> length [5, 6, 7 :: u8] + length [5, 6, 7 :: u8] div unat (1 :: usize)"
proof (rule encode_transition_length)
  show "(1 :: usize) \<noteq> 0" by simp
  show "length [5, 6, 7 :: u8] \<le> isize_max" by (simp add: isize_max_def)
  show "encode_transition [5, 6, 7] 1 = Ret [1, 5, 1, 6, 1, 7]" by code_simp
qed

text \<open>
  An idle bus collapses: any number of equal samples is one run, at most ten
  bytes and the value.
\<close>

lemma idle_bus_is_one_run:
  assumes "unitsize \<noteq> 0" and "length sample = unat unitsize" and "0 < n" and "n < 2 ^ 64"
  shows "encode_transition (concat (replicate n sample)) unitsize
      = Ret (put_varint [] (of_nat n) @ sample)
    \<and> length (put_varint [] (of_nat n) @ sample) \<le> 10 + unat unitsize"
proof
  have all_equal: "encode_runs out sample run (replicate k sample)
      = put_varint out (run + of_nat k) @ sample" for out run k
    by (induction k arbitrary: run) (simp_all add: add.assoc)
  from assms(3) obtain k where k: "n = Suc k" by (cases n) auto
  have "unat unitsize \<noteq> 0" using assms(1) by (simp add: unat_eq_0)
  then have "chunks_exact (unat unitsize) (concat (replicate n sample)) = replicate n sample"
    using assms(2) by (intro chunks_exact_concat) auto
  with k assms(1) show "encode_transition (concat (replicate n sample)) unitsize
      = Ret (put_varint [] (of_nat n) @ sample)"
    by (simp add: encode_transition_def all_equal)
  show "length (put_varint [] (of_nat n) @ sample) \<le> 10 + unat unitsize"
    using length_put_varint_10 [of "of_nat n"] assms(2) by simp
qed

lemma idle_bus_is_one_run_witness:
  "encode_transition (concat (replicate 300 [5])) 1 = Ret [0xac, 0x02, 5]"
proof -
  have "(1 :: usize) \<noteq> 0" "length [5 :: u8] = unat (1 :: usize)" "0 < (300 :: nat)"
    "(300 :: nat) < 2 ^ 64" by simp_all
  from idle_bus_is_one_run [OF this]
  have "encode_transition (concat (replicate 300 [5])) 1 = Ret (put_varint [] 300 @ [5])"
    by simp
  moreover have "put_varint [] 300 = [0xac, 0x02]" by code_simp
  ultimately show ?thesis by simp
qed

text \<open>
  A chunk whose count and unit size multiply to more than \<open>isize::MAX\<close> makes the
  receiver panic, whatever the payload holds, where every other malformed chunk is an
  error of the protocol.
\<close>

lemma hostile_sample_count_panics:
  assumes "cd_codec data = codec_i32 CodecNone"
    and "cd_encoding data = sample_encoding_i32 Transition"
    and "isize_max < unat (cd_sample_count data) * unat unitsize"
    and "unat (cd_sample_count data) * unat unitsize < 2 ^ 64"
  shows "decode_payload prof data unitsize = Panic CapacityOverflow"
proof -
  from assms(3) have "unitsize \<noteq> 0" by auto
  with assms show ?thesis
    by (simp add: decode_payload_def decode_transition_def vec_reserve_def usize_mul_exact
        unat_mult_exact del: codec_i32.simps sample_encoding_i32.simps)
qed

text \<open>
  C39. The declared sample count is trusted before a byte is decoded.  A chunk whose
  count and unit size multiply to more than \<open>isize::MAX\<close> makes the receiver panic,
  whatever the payload holds, where every other malformed chunk is an error of the
  protocol; and with overflow checks off the product wraps, so that an empty payload is
  accepted as 2^63 samples of two bytes, which the other profile answers with a panic.
\<close>

theorem declared_count_is_trusted:
  assumes "cd_codec data = codec_i32 CodecNone"
    and "cd_encoding data = sample_encoding_i32 Transition"
    and "isize_max < unat (cd_sample_count data) * unat unitsize"
    and "unat (cd_sample_count data) * unat unitsize < 2 ^ 64"
  shows "decode_payload prof data unitsize = Panic CapacityOverflow
    \<and> decode_transition Release [] 2 (2 ^ 63) = Ret (Inr [])
    \<and> decode_transition Debug [] 2 (2 ^ 63) = Panic ArithOverflow"
  using hostile_sample_count_panics [OF assms]
  by (simp add: decode_transition_def usize_mul_def vec_reserve_def decode_runs.simps)

text \<open>
  A codec the enum does not know is taken for no codec at all: where \<open>ZSTD\<close>
  and \<open>HEATSHRINK\<close> are refused, a chunk under any codec number outside the enum
  is handed on undecoded.
\<close>

lemma unknown_codec_is_passed_through:
  assumes "codec_try_from (cd_codec data) = None"
    and "cd_encoding data = sample_encoding_i32 Packed"
  shows "decode_payload prof data unitsize = Ret (Inr (Borrowed (cd_payload data)))
    \<and> decode_payload prof (data\<lparr>cd_codec := codec_i32 Zstd\<rparr>) unitsize
        = Ret (Inl (Protocol (NotDecodable Zstd)))"
  using assms
  by (simp add: decode_payload_def del: codec_i32.simps sample_encoding_i32.simps)

definition example_data :: capture_data where
  "example_data = \<lparr>cd_capture_id = 1, cd_acquisition = 0, cd_stream = 0, cd_seq = 0,
     cd_first_sample = 0, cd_sample_count = 2 ^ 63, cd_encoding = 2, cd_codec = 1,
     cd_decoded_len = 0, cd_payload = []\<rparr>"

theorem declared_count_is_trusted_witness:
  "decode_payload Release example_data 1 = Panic CapacityOverflow"
  by (rule conjunct1 [OF declared_count_is_trusted]) (simp_all add: example_data_def isize_max_def)

lemma unknown_codec_is_passed_through_witness:
  "decode_payload Debug (example_data\<lparr>cd_codec := 4, cd_encoding := 1, cd_payload := [1, 2]\<rparr>) 1
     = Ret (Inr (Borrowed [1, 2]))"
proof -
  let ?data = "example_data\<lparr>cd_codec := 4, cd_encoding := 1, cd_payload := [1, 2]\<rparr>"
  have "codec_try_from (cd_codec ?data) = None" "cd_encoding ?data = sample_encoding_i32 Packed"
    by (simp_all add: codec_try_from_def)
  from unknown_codec_is_passed_through [OF this] show ?thesis by simp
qed

end
