(* ===== verification/OCP_Manifest.thy ===== *)
theory OCP_Manifest
  imports OCP_Prelude OCP_Proto OCP_Error
begin

text \<open>
  \<open>rust/openmso/src/manifest.rs\<close>: loading \<open>plugin.json\<close> and expanding its \<open>run\<close>
  line into an argv.  The JSON parser is generated code and a parameter, as is
  the reading of a file.  Paths are taken to be valid UTF-8, for which
  \<open>to_string_lossy\<close> is the identity.
\<close>

section \<open>The code\<close>

definition FILENAME :: string where
  "FILENAME = ''plugin.json''"

definition parse_manifest ::
  "(string \<Rightarrow> json_error + plugin_manifest) \<Rightarrow> string \<Rightarrow> plugin_manifest result" where
  "parse_manifest from_str json =
     (case from_str json of Inl e \<Rightarrow> Inl (error_from_json e) | Inr m \<Rightarrow> Inr m)"

definition load_manifest ::
  "(string \<Rightarrow> io_error + string) \<Rightarrow> (string \<Rightarrow> json_error + plugin_manifest) \<Rightarrow>
   string \<Rightarrow> plugin_manifest result" where
  "load_manifest read_to_string from_str plugin_dir =
     (case read_to_string (path_join plugin_dir FILENAME) of
        Inl e \<Rightarrow> Inl (error_from_io e)
      | Inr json \<Rightarrow> parse_manifest from_str json)"

definition looks_like_path :: "string \<Rightarrow> bool" where
  "looks_like_path token = (CHR ''/'' \<in> set token \<or> ends_with token ''.py'')"

definition resolve_token :: "string \<Rightarrow> string \<Rightarrow> string \<Rightarrow> string" where
  "resolve_token plugin_dir python token =
     (if token = ''{python}'' then python
      else if \<not> looks_like_path token \<or> is_absolute token then token
      else path_join plugin_dir token)"

definition resolve_argv :: "plugin_manifest \<Rightarrow> string \<Rightarrow> string \<Rightarrow> string list" where
  "resolve_argv manifest plugin_dir python =
     map (resolve_token plugin_dir python) (pm_run manifest)"

section \<open>Lemmas\<close>

lemma resolve_token_anchored:
  "is_absolute dir \<Longrightarrow> token \<noteq> ''{python}'' \<Longrightarrow>
   is_absolute (resolve_token dir python token) \<or> \<not> looks_like_path (resolve_token dir python token)"
  by (auto simp: resolve_token_def is_absolute_join)

lemma resolve_token_stable:
  "t \<noteq> ''{python}'' \<Longrightarrow> is_absolute t \<or> \<not> looks_like_path t \<Longrightarrow> resolve_token dir python t = t"
  by (auto simp: resolve_token_def)

lemma resolve_token_not_placeholder:
  assumes "is_absolute dir" "python \<noteq> ''{python}''"
  shows "resolve_token dir python token \<noteq> ''{python}''"
proof -
  have "path_join dir token \<noteq> ''{python}''"
    using is_absolute_join [OF assms(1), of token] by auto
  with assms(2) show ?thesis by (auto simp: resolve_token_def)
qed

definition example_manifest :: plugin_manifest where
  "example_manifest = \<lparr>pm_name = ''demo'', pm_description = [], pm_vendor = [], pm_version = [],
     pm_license = [], pm_run = [''{python}'', ''plugin.py'', ''--verbose'', ''/usr/bin/thing'', ''demo''],
     pm_build = [], pm_usb_ids = [], pm_url_schemes = [], pm_palette = None\<rparr>"

section \<open>Properties\<close>

text \<open>
  The argv keeps the number of words of \<open>run\<close>, and with an absolute plugin
  directory it is anchored: every word is the interpreter that was asked for, an
  absolute path, or a word that does not look like a path, so nothing in it
  depends on the frontend's working directory.
\<close>

lemma resolve_argv_anchored:
  assumes "is_absolute plugin_dir"
  shows "length (resolve_argv m plugin_dir python) = length (pm_run m)
    \<and> (\<forall>t \<in> set (resolve_argv m plugin_dir python).
         t = python \<or> is_absolute t \<or> \<not> looks_like_path t)"
proof -
  have "t = python \<or> is_absolute t \<or> \<not> looks_like_path t"
    if "t \<in> set (resolve_argv m plugin_dir python)" for t
  proof -
    from that obtain token where t: "t = resolve_token plugin_dir python token"
      by (auto simp: resolve_argv_def)
    show ?thesis
      using resolve_token_anchored [OF assms, of token python] t
      by (cases "token = ''{python}''") (auto simp: resolve_token_def)
  qed
  then show ?thesis by (simp add: resolve_argv_def)
qed

lemma resolve_argv_anchored_witness:
  "resolve_argv example_manifest ''/plugins/demo'' ''/usr/bin/python3''
     = [''/usr/bin/python3'', ''/plugins/demo/plugin.py'', ''--verbose'', ''/usr/bin/thing'', ''demo'']
   \<and> length (resolve_argv example_manifest ''/plugins/demo'' ''/usr/bin/python3'')
       = length (pm_run example_manifest)
   \<and> is_absolute ''/plugins/demo/plugin.py''"
proof -
  have run: "resolve_argv example_manifest ''/plugins/demo'' ''/usr/bin/python3''
     = [''/usr/bin/python3'', ''/plugins/demo/plugin.py'', ''--verbose'', ''/usr/bin/thing'', ''demo'']"
    by code_simp
  have "is_absolute ''/plugins/demo''" by simp
  note anchored = resolve_argv_anchored [OF this, of example_manifest "''/usr/bin/python3''"]
  have "looks_like_path ''/plugins/demo/plugin.py''" by code_simp
  with anchored [unfolded run] have "is_absolute ''/plugins/demo/plugin.py''" by simp
  with run conjunct1 [OF anchored] show ?thesis by blast
qed

text \<open>
  Resolution is idempotent: resolving an argv that is already resolved changes
  nothing, for an absolute plugin directory and an interpreter that is a bare word
  or an absolute path.
\<close>

lemma resolve_argv_idempotent:
  assumes "is_absolute plugin_dir" and "python \<noteq> ''{python}''"
    and "is_absolute python \<or> \<not> looks_like_path python"
  shows "resolve_argv (m\<lparr>pm_run := resolve_argv m plugin_dir python\<rparr>) plugin_dir python
    = resolve_argv m plugin_dir python"
proof -
  have "resolve_token plugin_dir python (resolve_token plugin_dir python token)
      = resolve_token plugin_dir python token" for token
  proof (rule resolve_token_stable)
    show "resolve_token plugin_dir python token \<noteq> ''{python}''"
      by (rule resolve_token_not_placeholder [OF assms(1,2)])
    show "is_absolute (resolve_token plugin_dir python token)
        \<or> \<not> looks_like_path (resolve_token plugin_dir python token)"
      using resolve_token_anchored [OF assms(1), of token python] assms(3)
      by (cases "token = ''{python}''") (auto simp: resolve_token_def)
  qed
  then show ?thesis by (simp add: resolve_argv_def)
qed

lemma resolve_argv_idempotent_witness:
  "let argv = resolve_argv example_manifest ''/plugins/demo'' ''python3''
   in resolve_argv (example_manifest\<lparr>pm_run := argv\<rparr>) ''/plugins/demo'' ''python3'' = argv"
proof -
  have "is_absolute ''/plugins/demo''" "''python3'' \<noteq> ''{python}''"
    "is_absolute ''python3'' \<or> \<not> looks_like_path ''python3''"
    by (simp_all add: looks_like_path_def ends_with_def)
  from resolve_argv_idempotent [OF this, of example_manifest]
  show ?thesis by (simp add: Let_def)
qed

text \<open>
  A slash anywhere makes a word a path.  An option whose value holds one and a
  URL are rewritten too, and the plugin no longer gets the argument it was given.
\<close>

lemma options_with_slashes_are_rewritten:
  "resolve_argv (example_manifest\<lparr>pm_run := [''./demo'', ''--config=etc/demo.conf'', ''tcp://scope'']\<rparr>)
     ''/plugins/demo'' python
   = [''/plugins/demo/./demo'', ''/plugins/demo/--config=etc/demo.conf'', ''/plugins/demo/tcp://scope'']"
  by (simp add: resolve_argv_def resolve_token_def looks_like_path_def path_join_def)

end
