(* ===== verification/OCP_Args.thy ===== *)
theory OCP_Args
  imports OCP_Prelude OCP_Error
begin

text \<open>
  \<open>rust/openmso/src/server/args.rs\<close>: the argv a frontend launches a plugin with.
\<close>

section \<open>The code\<close>

record args =
  arg_device :: string
  arg_control :: string
  arg_events :: string

text \<open>The three mutable locals of \<open>Args::parse\<close>.\<close>

record arg_slots =
  slot_device :: "string option"
  slot_control :: "string option"
  slot_events :: "string option"

definition flags :: "string list" where
  "flags = [''--device'', ''--control'', ''--events'']"

definition set_slot :: "string \<Rightarrow> string \<Rightarrow> arg_slots \<Rightarrow> arg_slots" where
  "set_slot flag v slots =
     (if flag = ''--device'' then slots\<lparr>slot_device := Some v\<rparr>
      else if flag = ''--control'' then slots\<lparr>slot_control := Some v\<rparr>
      else slots\<lparr>slot_events := Some v\<rparr>)"

definition split_flag :: "string \<Rightarrow> string \<times> string option" where
  "split_flag arg =
     (case split_once (CHR ''='') arg of
        Some (f, v) \<Rightarrow> (f, Some v)
      | None \<Rightarrow> (arg, None))"

text \<open>
  The \<open>while let\<close> loop: a flag without an inline value takes the next argument.
\<close>

fun parse_loop :: "arg_slots \<Rightarrow> string list \<Rightarrow> arg_slots result" where
  "parse_loop slots [] = Inr slots"
| "parse_loop slots (arg # args) =
     (case split_flag arg of (flag, inline) \<Rightarrow>
        if flag \<notin> set flags then Inl (Protocol (UnknownArgument flag))
        else (case inline of
                Some v \<Rightarrow> parse_loop (set_slot flag v slots) args
              | None \<Rightarrow>
                  (case args of
                     [] \<Rightarrow> Inl (Protocol (NeedsValue flag))
                   | v # args' \<Rightarrow> parse_loop (set_slot flag v slots) args')))"

definition no_slots :: arg_slots where
  "no_slots = \<lparr>slot_device = None, slot_control = None, slot_events = None\<rparr>"

definition finish_args :: "arg_slots \<Rightarrow> args result" where
  "finish_args slots =
     (case (slot_device slots, slot_control slots, slot_events slots) of
        (Some device, Some control, Some events) \<Rightarrow>
          Inr \<lparr>arg_device = device, arg_control = control, arg_events = events\<rparr>
      | _ \<Rightarrow> Inl (Protocol MissingArguments))"

definition parse_args :: "string list \<Rightarrow> args result" where
  "parse_args args = rbind (parse_loop no_slots args) finish_args"

text \<open>\<open>Args::from_env\<close>, over the process's argv with the program name first.\<close>

definition args_from_env :: "string list \<Rightarrow> args result" where
  "args_from_env argv = parse_args (drop 1 argv)"

section \<open>The argument grammar\<close>

text \<open>
  An assignment of a value to a flag, in one of the two notations.
\<close>

datatype notation_kind = Separate | Inline

type_synonym item = "notation_kind \<times> string \<times> string"

fun render_item :: "item \<Rightarrow> string list" where
  "render_item (Separate, flag, v) = [flag, v]"
| "render_item (Inline, flag, v) = [flag @ ''='' @ v]"

definition render :: "item list \<Rightarrow> string list" where
  "render items = concat (map render_item items)"

definition items_ok :: "item list \<Rightarrow> bool" where
  "items_ok items = list_all (\<lambda>(flag, v). flag \<in> set flags) (map snd items)"

fun assign :: "arg_slots \<Rightarrow> item list \<Rightarrow> arg_slots" where
  "assign slots [] = slots"
| "assign slots ((_, flag, v) # items) = assign (set_slot flag v slots) items"

lemma render_simps [simp]:
  "render [] = []"
  "render (i # is) = render_item i @ render is"
  by (simp_all add: render_def)

lemma items_ok_simps [simp]:
  "items_ok []"
  "items_ok ((k, flag, v) # is) \<longleftrightarrow> flag \<in> set flags \<and> items_ok is"
  by (simp_all add: items_ok_def)

lemma flags_no_eq: "flag \<in> set flags \<Longrightarrow> CHR ''='' \<notin> set flag"
  by (auto simp: flags_def)

lemma split_flag_simps [simp]:
  "flag \<in> set flags \<Longrightarrow> split_flag flag = (flag, None)"
  "flag \<in> set flags \<Longrightarrow> split_flag (flag @ CHR ''='' # v) = (flag, Some v)"
  using flags_no_eq [of flag]
  by (simp_all add: split_flag_def split_once_append split_once_None_iff [THEN iffD2])

lemma parse_loop_render:
  "items_ok items \<Longrightarrow> parse_loop slots (render items @ rest) = parse_loop (assign slots items) rest"
proof (induction items arbitrary: slots)
  case (Cons item items)
  obtain k flag v where "item = (k, flag, v)" by (cases item)
  with Cons show ?case by (cases k) auto
qed simp

text \<open>
  Every argument list is a rendering, up to the argument that stops the loop.
\<close>

definition parsed :: "arg_slots \<Rightarrow> string list \<Rightarrow> item list \<Rightarrow> bool" where
  "parsed slots args items \<longleftrightarrow> items_ok items
     \<and> (args = render items \<and> parse_loop slots args = Inr (assign slots items)
        \<or> (\<exists>flag. flag \<in> set flags \<and> args = render items @ [flag]
             \<and> parse_loop slots args = Inl (Protocol (NeedsValue flag)))
        \<or> (\<exists>arg rest. fst (split_flag arg) \<notin> set flags \<and> args = render items @ arg # rest
             \<and> parse_loop slots args = Inl (Protocol (UnknownArgument (fst (split_flag arg))))))"

lemma parsed_Cons:
  "flag \<in> set flags \<Longrightarrow> parsed (set_slot flag v slots) args items \<Longrightarrow>
   parsed slots (render_item (k, flag, v) @ args) ((k, flag, v) # items)"
  using parse_loop_render [of "[(k, flag, v)]" slots args]
  by (auto simp: parsed_def)

lemma split_flag_form:
  assumes "split_flag arg = (flag, inline)"
  shows "arg = (case inline of None \<Rightarrow> flag | Some v \<Rightarrow> flag @ ''='' @ v)"
  using assms by (auto simp: split_flag_def split: option.splits dest!: split_once_Some)

lemma parse_loop_parsed: "\<exists>items. parsed slots args items"
proof (induction "length args" arbitrary: args slots rule: less_induct)
  case less
  show ?case
  proof (cases args)
    case Nil
    then have "parsed slots args []" by (simp add: parsed_def)
    then show ?thesis ..
  next
    case (Cons arg args')
    obtain flag inline where sf: "split_flag arg = (flag, inline)" by fastforce
    show ?thesis
    proof (cases "flag \<in> set flags")
      case False
      with Cons sf have "parsed slots args []" by (simp add: parsed_def)
      then show ?thesis ..
    next
      case True
      show ?thesis
      proof (cases inline)
        case (Some v)
        with sf have arg: "[arg] = render_item (Inline, flag, v)"
          using split_flag_form by fastforce
        from less [of args' "set_slot flag v slots"] Cons
        obtain items where "parsed (set_slot flag v slots) args' items" by auto
        from parsed_Cons [OF True this, of Inline] arg Cons show ?thesis by auto
      next
        case None
        with sf have arg: "arg = flag" using split_flag_form by fastforce
        show ?thesis
        proof (cases args')
          case Nil
          with Cons arg True have "parsed slots args []" by (simp add: parsed_def)
          then show ?thesis ..
        next
          case (Cons v args'')
          with less [of args'' "set_slot flag v slots"] \<open>args = arg # args'\<close>
          obtain items where "parsed (set_slot flag v slots) args'' items" by auto
          from parsed_Cons [OF True this, of Separate] arg Cons \<open>args = arg # args'\<close>
          show ?thesis by auto
        qed
      qed
    qed
  qed
qed

text \<open>The value a list of assignments leaves in a slot is the last one given.\<close>

definition last_value :: "string \<Rightarrow> item list \<Rightarrow> string option" where
  "last_value flag items = map_of (rev (map snd items)) flag"

lemma last_value_simps [simp]:
  "last_value flag [] = None"
  "last_value flag ((k, f, v) # items) =
     (case last_value flag items of None \<Rightarrow> (if f = flag then Some v else None) | Some w \<Rightarrow> Some w)"
  by (auto simp: last_value_def map_add_def split: option.splits)

lemma assign_slots:
  "items_ok items \<Longrightarrow>
   slot_device (assign slots items) = (case last_value ''--device'' items of None \<Rightarrow> slot_device slots | v \<Rightarrow> v)
   \<and> slot_control (assign slots items) = (case last_value ''--control'' items of None \<Rightarrow> slot_control slots | v \<Rightarrow> v)
   \<and> slot_events (assign slots items) = (case last_value ''--events'' items of None \<Rightarrow> slot_events slots | v \<Rightarrow> v)"
proof (induction items arbitrary: slots)
  case (Cons item items)
  obtain k flag v where i: "item = (k, flag, v)" by (cases item)
  with Cons.prems have "flag = ''--device'' \<or> flag = ''--control'' \<or> flag = ''--events''"
    by (auto simp: flags_def)
  with Cons i show ?case
    by (elim disjE) (simp_all add: set_slot_def split: option.splits)
qed simp

definition last_args :: "item list \<Rightarrow> args result" where
  "last_args items =
     (case (last_value ''--device'' items, last_value ''--control'' items,
            last_value ''--events'' items) of
        (Some d, Some c, Some e) \<Rightarrow> Inr \<lparr>arg_device = d, arg_control = c, arg_events = e\<rparr>
      | _ \<Rightarrow> Inl (Protocol MissingArguments))"

lemma parse_args_render: "items_ok items \<Longrightarrow> parse_args (render items) = last_args items"
  using parse_loop_render [of items no_slots "[]"] assign_slots [of items no_slots]
  by (simp add: parse_args_def finish_args_def last_args_def no_slots_def split: option.splits)

lemma parse_args_stop:
  assumes "items_ok items"
  shows "flag \<in> set flags \<Longrightarrow>
      parse_args (render items @ [flag]) = Inl (Protocol (NeedsValue flag))"
    and "fst (split_flag arg) \<notin> set flags \<Longrightarrow>
      parse_args (render items @ arg # rest) = Inl (Protocol (UnknownArgument (fst (split_flag arg))))"
  using parse_loop_render [OF assms, of no_slots]
  by (simp_all add: parse_args_def split_beta)

lemma parse_args_cases:
  obtains (complete) items where "items_ok items" "args = render items"
    "parse_args args = last_args items"
  | (no_value) items flag where "items_ok items" "flag \<in> set flags" "args = render items @ [flag]"
    "parse_args args = Inl (Protocol (NeedsValue flag))"
  | (unknown) items arg rest where "items_ok items" "fst (split_flag arg) \<notin> set flags"
    "args = render items @ arg # rest"
    "parse_args args = Inl (Protocol (UnknownArgument (fst (split_flag arg))))"
proof -
  from parse_loop_parsed obtain items where p: "parsed no_slots args items" by blast
  then have ok: "items_ok items" by (simp add: parsed_def)
  from p consider "args = render items"
    | flag where "flag \<in> set flags" "args = render items @ [flag]"
    | arg rest where "fst (split_flag arg) \<notin> set flags" "args = render items @ arg # rest"
    by (auto simp: parsed_def)
  then show thesis
  proof cases
    case 1
    with ok complete show thesis by (simp add: parse_args_render)
  next
    case 2
    with ok no_value show thesis by (simp add: parse_args_stop(1))
  next
    case 3
    with ok unknown show thesis by (simp add: parse_args_stop(2))
  qed
qed

lemma last_args_Inr_iff [return_iff]:
  "last_args items = Inr a \<longleftrightarrow>
     last_value ''--device'' items = Some (arg_device a)
     \<and> last_value ''--control'' items = Some (arg_control a)
     \<and> last_value ''--events'' items = Some (arg_events a)"
  by (cases a) (auto simp: last_args_def split: option.splits)

lemma last_args_Inl_iff [return_iff]:
  "last_args items = Inl e \<longleftrightarrow>
     e = Protocol MissingArguments \<and> (\<exists>flag \<in> set flags. last_value flag items = None)"
  by (auto simp: last_args_def flags_def split: option.splits)

section \<open>Properties\<close>

text \<open>
  C36. The arguments \<open>Args::parse\<close> accepts: exactly the sequences of \<open>--flag value\<close>
  and \<open>--flag=value\<close> over the three flags in which each flag occurs; each field
  is the last value given for its flag, whatever that value looks like.
\<close>

theorem parse_args_accepts:
  "parse_args args = Inr a \<longleftrightarrow>
     (\<exists>items. items_ok items \<and> args = render items
        \<and> last_value ''--device'' items = Some (arg_device a)
        \<and> last_value ''--control'' items = Some (arg_control a)
        \<and> last_value ''--events'' items = Some (arg_events a))"
proof
  assume a: "parse_args args = Inr a"
  show "\<exists>items. items_ok items \<and> args = render items
        \<and> last_value ''--device'' items = Some (arg_device a)
        \<and> last_value ''--control'' items = Some (arg_control a)
        \<and> last_value ''--events'' items = Some (arg_events a)"
    by (rule parse_args_cases [of args]) (use a in \<open>auto simp: return_iff\<close>)
qed (auto simp: parse_args_render return_iff)

text \<open>
  Its three refusals: an argument whose flag part is not one of the three, after
  a well-formed beginning; a flag that ends the list without a value; and a
  well-formed list that leaves a flag out.
\<close>

lemma parse_args_refuses:
  "(parse_args args = Inl (Protocol (UnknownArgument name)) \<longleftrightarrow>
      (\<exists>items arg rest. items_ok items \<and> args = render items @ arg # rest
         \<and> fst (split_flag arg) = name \<and> name \<notin> set flags))
   \<and> (parse_args args = Inl (Protocol (NeedsValue flag)) \<longleftrightarrow>
      (\<exists>items. items_ok items \<and> flag \<in> set flags \<and> args = render items @ [flag]))
   \<and> (parse_args args = Inl (Protocol MissingArguments) \<longleftrightarrow>
      (\<exists>items. items_ok items \<and> args = render items
         \<and> (\<exists>f \<in> set flags. last_value f items = None)))"
  (is "(?U1 \<longleftrightarrow> ?U2) \<and> (?N1 \<longleftrightarrow> ?N2) \<and> (?M1 \<longleftrightarrow> ?M2)")
proof (intro conjI iffI)
  show ?U2 if ?U1
    by (rule parse_args_cases [of args]) (use that in \<open>auto simp: return_iff\<close>)
  show ?N2 if ?N1
    by (rule parse_args_cases [of args]) (use that in \<open>auto simp: return_iff\<close>)
  show ?M2 if ?M1
    by (rule parse_args_cases [of args]) (use that in \<open>auto simp: return_iff\<close>)
qed (auto simp: parse_args_render parse_args_stop return_iff)

text \<open>
  The notation does not matter: two lists that assign the same values to the
  same flags in the same order parse to the same result, success or refusal.
\<close>

lemma notation_irrelevant:
  assumes "items_ok items" and "map snd items = map snd items'"
  shows "parse_args (render items) = parse_args (render items')"
proof -
  from assms have ok: "items_ok items'" by (simp only: items_ok_def)
  have "last_value f items = last_value f items'" for f
    using assms(2) by (simp add: last_value_def)
  then show ?thesis by (simp add: parse_args_render assms(1) ok last_args_def)
qed

lemma notation_irrelevant_witness:
  "parse_args [''--device'', ''demo://0'', ''--control=c'', ''--events=e'']
   = parse_args [''--device=demo://0'', ''--control'', ''c'', ''--events'', ''e'']"
proof -
  let ?a = "[(Separate, ''--device'', ''demo://0''), (Inline, ''--control'', ''c''), (Inline, ''--events'', ''e'')]"
  let ?b = "[(Inline, ''--device'', ''demo://0''), (Separate, ''--control'', ''c''), (Separate, ''--events'', ''e'')]"
  have "items_ok ?a" "map snd ?a = map snd ?b" by (simp_all add: flags_def)
  from notation_irrelevant [OF this] show ?thesis by simp
qed

end
