(* ===== verification/OCP_Transport.thy ===== *)
theory OCP_Transport
  imports OCP_Prelude OCP_Proto OCP_Error
begin

text \<open>
  \<open>rust/openmso/src/transport.rs\<close>: the nng sockets and their options, sending and
  receiving of messages, and the runtime directory that holds one plugin's two
  sockets (the Unix variant).
\<close>

section \<open>Sockets\<close>

definition MAX_PAYLOAD :: usize where
  "MAX_PAYLOAD = push_bit 20 1"

definition RECV_MAX_SIZE :: usize where
  "RECV_MAX_SIZE = push_bit 20 8"

datatype nng_protocol = Req0 | Rep0 | Push0 | Pull0

text \<open>Durations are counted in nanoseconds.\<close>

type_synonym duration = nat

definition from_secs :: "nat \<Rightarrow> duration" where
  "from_secs s = s * 1000000000"

datatype sockopt =
    RecvMaxSize usize
  | SendTimeout "duration option"
  | RecvTimeout "duration option"
  | ResendTime "duration option"
  | Permissions u32

text \<open>The octal modes \<open>0o600\<close> and \<open>0o700\<close>.\<close>

abbreviation mode_600 :: u32 where
  "mode_600 \<equiv> 0x180"

abbreviation mode_700 :: u32 where
  "mode_700 \<equiv> 0x1C0"

text \<open>
  nng is a foreign library.  What a call of it reports is a parameter: \<open>None\<close> for
  success, otherwise the error.
\<close>

record nng_env =
  nng_open :: "nng_protocol \<Rightarrow> nng_error option"
  nng_set_opt :: "nng_protocol \<Rightarrow> sockopt \<Rightarrow> nng_error option"
  nng_dial :: "nng_protocol \<Rightarrow> string \<Rightarrow> nng_error option"
  nng_listener :: "nng_protocol \<Rightarrow> string \<Rightarrow> nng_error option"
  nng_listener_opt :: "nng_protocol \<Rightarrow> sockopt \<Rightarrow> nng_error option"
  nng_start :: "nng_protocol \<Rightarrow> string \<Rightarrow> nng_error option"

definition try_nng :: "nng_error option \<Rightarrow> 'a \<Rightarrow> 'a result" where
  "try_nng r x = (case r of None \<Rightarrow> Inr x | Some e \<Rightarrow> Inl (error_from_nng e))"

lemma try_nng_Inr_iff [return_iff]: "try_nng r x = Inr y \<longleftrightarrow> r = None \<and> y = x"
  by (auto simp: try_nng_def split: option.splits)

fun set_opts :: "nng_env \<Rightarrow> nng_protocol \<Rightarrow> sockopt list \<Rightarrow> unit result" where
  "set_opts env p [] = Inr ()"
| "set_opts env p (opt # opts) =
     rbind (try_nng (nng_set_opt env p opt) ()) (\<lambda>_. set_opts env p opts)"

text \<open>
  \<open>transport::socket\<close>; the value of a built socket is the list of options it carries.
\<close>

definition build_socket :: "nng_env \<Rightarrow> nng_protocol \<Rightarrow> sockopt list result" where
  "build_socket env p =
     rbind (try_nng (nng_open env p) ()) (\<lambda>_.
     (let opts = [RecvMaxSize RECV_MAX_SIZE, SendTimeout (Some (from_secs 30))]
                 @ (if p = Req0 then [ResendTime (Some 0)] else [])
      in rbind (set_opts env p opts) (\<lambda>_. Inr opts)))"

text \<open>\<open>transport::listen\<close>: the options the listener had when it was started.\<close>

definition listen :: "nng_env \<Rightarrow> nng_protocol \<Rightarrow> string \<Rightarrow> sockopt list result" where
  "listen env p url =
     rbind (try_nng (nng_listener env p url) ()) (\<lambda>_.
     rbind (if starts_with url ''ipc://''
            then try_nng (nng_listener_opt env p (Permissions mode_600)) [Permissions mode_600]
            else Inr []) (\<lambda>opts.
     try_nng (nng_start env p url) opts))"

definition set_recv_timeout :: "nng_env \<Rightarrow> nng_protocol \<Rightarrow> duration option \<Rightarrow> unit result" where
  "set_recv_timeout env p timeout = try_nng (nng_set_opt env p (RecvTimeout timeout)) ()"

section \<open>Messages\<close>

text \<open>
  An open socket as its owner sees it: what the coming receives will report, what
  the coming sends will report (a list that has run out stands for success), and
  the messages handed over so far.  The protobuf encoding of a message type is
  generated code: \<open>enc\<close> and \<open>dec\<close> are parameters.
\<close>

record socket =
  sk_inbox :: "(nng_error + bytes) list"
  sk_faults :: "nng_error option list"
  sk_sent :: "bytes list"

definition sock_send :: "socket \<Rightarrow> bytes \<Rightarrow> socket \<times> unit result" where
  "sock_send s buf =
     (case sk_faults s of
        [] \<Rightarrow> (s\<lparr>sk_sent := sk_sent s @ [buf]\<rparr>, Inr ())
      | None # fs \<Rightarrow> (s\<lparr>sk_faults := fs, sk_sent := sk_sent s @ [buf]\<rparr>, Inr ())
      | Some e # fs \<Rightarrow> (s\<lparr>sk_faults := fs\<rparr>, Inl (Nng e)))"

definition send :: "('m \<Rightarrow> bytes) \<Rightarrow> socket \<Rightarrow> 'm \<Rightarrow> socket \<times> unit result" where
  "send enc s message = sock_send s (enc message)"

text \<open>\<open>None\<close> is a receive that blocks for want of a message.\<close>

definition recv :: "(bytes \<Rightarrow> decode_error + 'm) \<Rightarrow> socket \<Rightarrow> (socket \<times> 'm result) option" where
  "recv dec s =
     (case sk_inbox s of
        [] \<Rightarrow> None
      | Inl e # rest \<Rightarrow> Some (s\<lparr>sk_inbox := rest\<rparr>, Inl (error_from_nng e))
      | Inr msg # rest \<Rightarrow>
          Some (s\<lparr>sk_inbox := rest\<rparr>,
            (case dec msg of Inl e \<Rightarrow> Inl (error_from_decode e) | Inr m \<Rightarrow> Inr m)))"

lemma send_cases:
  obtains (sent) s' where "send enc s m = (s', Inr ())" "sk_sent s' = sk_sent s @ [enc m]"
    "sk_inbox s' = sk_inbox s"
  | (failed) s' e where "send enc s m = (s', Inl (Nng e))" "sk_sent s' = sk_sent s"
    "sk_inbox s' = sk_inbox s"
proof (cases "sk_faults s")
  case Nil
  with sent show thesis by (simp add: send_def sock_send_def)
next
  case (Cons f fs)
  with sent failed show thesis by (cases f) (simp_all add: send_def sock_send_def)
qed

section \<open>The runtime directory\<close>

text \<open>
  The file system as far as it is touched: the directories with their modes, the
  process's umask, and what the operating system refuses.  The root and the current
  directory, for which the empty path stands, always exist.
\<close>

datatype io_op = MkdirAll | Chmod | Mkdir | RemoveAll

record fs =
  fs_dirs :: "string \<rightharpoonup> u32"
  fs_umask :: u32
  fs_fault :: "io_op \<Rightarrow> string \<Rightarrow> io_error option"

definition already_exists :: io_error where
  "already_exists = \<lparr>io_kind = AlreadyExists, io_text = ''File exists (os error 17)''\<rparr>"

definition no_entry :: io_error where
  "no_entry = \<lparr>io_kind = OtherKind 2, io_text = ''No such file or directory''\<rparr>"

text \<open>The directory a path lies in.\<close>

definition parent_dir :: "string \<Rightarrow> string" where
  "parent_dir path =
     rev (dropWhile (\<lambda>c. c = CHR ''/'') (dropWhile (\<lambda>c. c \<noteq> CHR ''/'') (rev path)))"

definition dir_known :: "(string \<rightharpoonup> u32) \<Rightarrow> string \<Rightarrow> bool" where
  "dir_known dirs path \<longleftrightarrow> path = [] \<or> dirs path \<noteq> None"

lemma parent_dir_shorter: "path \<noteq> [] \<Longrightarrow> length (parent_dir path) < length path"
proof -
  assume "path \<noteq> []"
  then obtain c cs where r: "rev path = c # cs" by (cases "rev path") auto
  then have "length path = Suc (length cs)" by (metis length_Cons length_rev)
  moreover have "length (dropWhile P (dropWhile Q cs)) \<le> length cs"
    "length (dropWhile P cs) \<le> length cs" for P Q :: "char \<Rightarrow> bool"
    using length_dropWhile_le order_trans by blast+
  ultimately show ?thesis
    by (cases "c = CHR ''/''") (simp_all add: parent_dir_def r less_Suc_eq_le)
qed

text \<open>
  The recursive \<open>DirBuilder\<close>: nothing to do for a directory that exists; otherwise the
  ancestors first, down from the first that exists, all with the same mode.
\<close>

function make_dirs :: "(string \<rightharpoonup> u32) \<Rightarrow> u32 \<Rightarrow> string \<Rightarrow> (string \<rightharpoonup> u32)" where
  "make_dirs dirs m path =
     (if dir_known dirs path then dirs else (make_dirs dirs m (parent_dir path))(path \<mapsto> m))"
  by auto
termination
  by (relation "measure (\<lambda>(_, _, path). length path)") (auto simp: dir_known_def parent_dir_shorter)

declare make_dirs.simps [simp del]

definition mkdir_all :: "fs \<Rightarrow> u32 \<Rightarrow> string \<Rightarrow> fs \<times> unit result" where
  "mkdir_all fs mode path =
     (case fs_fault fs MkdirAll path of
        Some e \<Rightarrow> (fs, Inl (error_from_io e))
      | None \<Rightarrow> (fs\<lparr>fs_dirs := make_dirs (fs_dirs fs) (mode AND NOT (fs_umask fs)) path\<rparr>, Inr ()))"

definition chmod :: "fs \<Rightarrow> string \<Rightarrow> u32 \<Rightarrow> fs \<times> unit result" where
  "chmod fs path mode =
     (case fs_fault fs Chmod path of
        Some e \<Rightarrow> (fs, Inl (error_from_io e))
      | None \<Rightarrow> (fs\<lparr>fs_dirs := (fs_dirs fs)(path \<mapsto> mode)\<rparr>, Inr ()))"

definition mkdir :: "fs \<Rightarrow> u32 \<Rightarrow> string \<Rightarrow> fs \<times> unit result" where
  "mkdir fs mode path =
     (case fs_fault fs Mkdir path of
        Some e \<Rightarrow> (fs, Inl (error_from_io e))
      | None \<Rightarrow>
          (if fs_dirs fs path \<noteq> None then (fs, Inl (error_from_io already_exists))
           else if \<not> dir_known (fs_dirs fs) (parent_dir path) then (fs, Inl (error_from_io no_entry))
           else (fs\<lparr>fs_dirs := (fs_dirs fs)(path \<mapsto> mode AND NOT (fs_umask fs))\<rparr>, Inr ())))"

text \<open>A removal that is refused leaves the directory.\<close>

definition remove_dir_all :: "fs \<Rightarrow> string \<Rightarrow> fs \<times> unit result" where
  "remove_dir_all fs dir =
     (case fs_fault fs RemoveAll dir of
        Some e \<Rightarrow> (fs, Inl (error_from_io e))
      | None \<Rightarrow>
          (fs\<lparr>fs_dirs := (\<lambda>p. if p = dir \<or> starts_with p (dir @ ''/'') then None else fs_dirs fs p)\<rparr>,
           Inr ()))"

text \<open>A step of a sequence of system calls: \<open>?\<close> stops at the first failure.\<close>

definition fs_bind :: "fs \<times> 'a result \<Rightarrow> (fs \<Rightarrow> 'a \<Rightarrow> fs \<times> 'b result) \<Rightarrow> fs \<times> 'b result" where
  "fs_bind m f = (case m of (fs, Inl e) \<Rightarrow> (fs, Inl e) | (fs, Inr x) \<Rightarrow> f fs x)"

record endpoints =
  ep_control :: string
  ep_events :: string
  ep_dir :: string

definition check_sun_path :: "string \<Rightarrow> unit result" where
  "check_sun_path path =
     (if SUN_PATH_LIMIT < length path
      then Inl (Protocol (SocketPathTooLong (length path) path))
      else Inr ())"

text \<open>The environment: \<open>XDG_RUNTIME_DIR\<close> if it is set, and the temporary directory.\<close>

record env_vars =
  xdg_runtime_dir :: "string option"
  temp_dir :: string

definition runtime_base :: "env_vars \<Rightarrow> string" where
  "runtime_base env = path_join (unwrap_or (xdg_runtime_dir env) (temp_dir env)) ''openmso''"

definition tag_dir :: "env_vars \<Rightarrow> u32 \<Rightarrow> string" where
  "tag_dir env tag = path_join (runtime_base env) (show_04x (unat tag))"

definition create_endpoints :: "env_vars \<Rightarrow> fs \<Rightarrow> u32 \<Rightarrow> fs \<times> endpoints result" where
  "create_endpoints env fs tag =
     (let base = runtime_base env; dir = tag_dir env tag; control = path_join dir ''ctl'' in
      fs_bind (mkdir_all fs mode_700 base) (\<lambda>fs _.
      fs_bind (chmod fs base mode_700) (\<lambda>fs _.
      fs_bind (mkdir fs mode_700 dir) (\<lambda>fs _.
      (fs, rbind (check_sun_path control) (\<lambda>_.
             Inr \<lparr>ep_control = ''ipc://'' @ control,
                  ep_events = ''ipc://'' @ path_join dir ''evt'',
                  ep_dir = dir\<rparr>))))))"

primrec new_loop :: "nat \<Rightarrow> env_vars \<Rightarrow> fs \<Rightarrow> u32 \<Rightarrow> fs \<times> endpoints result" where
  "new_loop 0 env fs tag = (fs, Inl (Protocol NoFreeDirectory))"
| "new_loop (Suc n) env fs tag =
     (case create_endpoints env fs tag of
        (fs', Inl (Io e)) \<Rightarrow>
          (if io_kind e = AlreadyExists then new_loop n env fs' ((tag + 1) AND 0xffff)
           else (fs', Inl (Io e)))
      | other \<Rightarrow> other)"

text \<open>\<open>now\<close> is the subsecond part of the clock, \<open>pid\<close> the process id.\<close>

definition new_endpoints :: "env_vars \<Rightarrow> u32 \<Rightarrow> u32 \<Rightarrow> fs \<Rightarrow> fs \<times> endpoints result" where
  "new_endpoints env now pid fs = new_loop 64 env fs ((now XOR pid) AND 0xffff)"

text \<open>The destructor ignores what the removal returns.\<close>

definition drop_endpoints :: "fs \<Rightarrow> endpoints \<Rightarrow> fs" where
  "drop_endpoints fs e = fst (remove_dir_all fs (ep_dir e))"

text \<open>
  The Windows build: the URLs name pipes in a flat namespace and no directory is made,
  so that \<open>create\<close> cannot fail.
\<close>

record pipe_endpoints =
  pipe_control :: string
  pipe_events :: string

definition create_pipes :: "u32 \<Rightarrow> pipe_endpoints result" where
  "create_pipes tag =
     Inr \<lparr>pipe_control = ''ipc://openmso-'' @ show_04x (unat tag) @ ''-ctl'',
          pipe_events = ''ipc://openmso-'' @ show_04x (unat tag) @ ''-evt''\<rparr>"

primrec new_pipes_loop :: "nat \<Rightarrow> u32 \<Rightarrow> pipe_endpoints result" where
  "new_pipes_loop 0 tag = Inl (Protocol NoFreeDirectory)"
| "new_pipes_loop (Suc n) tag =
     (case create_pipes tag of
        Inl (Io e) \<Rightarrow>
          (if io_kind e = AlreadyExists then new_pipes_loop n ((tag + 1) AND 0xffff) else Inl (Io e))
      | other \<Rightarrow> other)"

definition new_pipes :: "u32 \<Rightarrow> u32 \<Rightarrow> pipe_endpoints result" where
  "new_pipes now pid = new_pipes_loop 64 ((now XOR pid) AND 0xffff)"

section \<open>Lemmas on the runtime directory\<close>

lemma unat_and_low16: "unat (w AND 0xffff :: u32) = unat w mod 0x10000"
proof -
  have "(0xffff :: u32) = mask 16" by (simp add: mask_eq_exp_minus_1)
  then have "w AND 0xffff = take_bit 16 w" by (simp only: take_bit_eq_mask)
  then have "unat (w AND 0xffff) = unat w mod 2 ^ 16"
    by (simp only: take_bit_eq_mod) (simp add: unat_mod_distrib)
  then show ?thesis by simp
qed

lemma unat_low16: "unat (w AND 0xffff :: u32) < 0x10000"
  by (simp add: unat_and_low16)

lemma fs_bind_Inr_iff [return_iff]:
  "fs_bind m f = (fs', Inr y) \<longleftrightarrow> (\<exists>fs x. m = (fs, Inr x) \<and> f fs x = (fs', Inr y))"
  by (auto simp: fs_bind_def split: prod.splits sum.splits)

lemma mkdir_all_Inr_iff [return_iff]:
  "mkdir_all fs mode path = (fs', Inr x) \<longleftrightarrow>
     fs_fault fs MkdirAll path = None
     \<and> fs' = fs\<lparr>fs_dirs := make_dirs (fs_dirs fs) (mode AND NOT (fs_umask fs)) path\<rparr>"
  by (auto simp: mkdir_all_def split: option.splits)

lemma chmod_Inr_iff [return_iff]:
  "chmod fs path mode = (fs', Inr x) \<longleftrightarrow>
     fs_fault fs Chmod path = None \<and> fs' = fs\<lparr>fs_dirs := (fs_dirs fs)(path \<mapsto> mode)\<rparr>"
  by (auto simp: chmod_def split: option.splits)

lemma mkdir_Inr_iff [return_iff]:
  "mkdir fs mode path = (fs', Inr x) \<longleftrightarrow>
     fs_fault fs Mkdir path = None \<and> fs_dirs fs path = None \<and> dir_known (fs_dirs fs) (parent_dir path)
     \<and> fs' = fs\<lparr>fs_dirs := (fs_dirs fs)(path \<mapsto> mode AND NOT (fs_umask fs))\<rparr>"
  by (auto simp: mkdir_def split: option.splits)

text \<open>What \<open>make_dirs\<close> adds is the directory and ancestors of it.\<close>

lemma make_dirs_known [simp]: "dir_known dirs path \<Longrightarrow> make_dirs dirs m path = dirs"
  by (subst make_dirs.simps) simp

lemma make_dirs_parent:
  "dir_known dirs (parent_dir path) \<Longrightarrow> \<not> dir_known dirs path \<Longrightarrow> make_dirs dirs m path = dirs(path \<mapsto> m)"
  by (subst make_dirs.simps) simp

lemma make_dirs_here: "path \<noteq> [] \<Longrightarrow> make_dirs dirs m path path \<noteq> None"
  by (subst make_dirs.simps) (auto simp: dir_known_def)

lemma starts_with_split: "starts_with s p \<longleftrightarrow> (\<exists>r. s = p @ r)"
  by (metis append_eq_conv_conj append_take_drop_id starts_with_def)

lemma parent_dir_prefix:
  assumes "parent_dir path \<noteq> []"
  shows "starts_with path (parent_dir path @ ''/'')"
proof -
  let ?P = "\<lambda>c. c \<noteq> CHR ''/''" and ?Q = "\<lambda>c. c = CHR ''/''"
  let ?d = "dropWhile ?P (rev path)"
  have "?d \<noteq> []"
  proof
    assume "?d = []"
    then have "parent_dir path = []" by (simp only: parent_dir_def dropWhile.simps rev.simps)
    with assms show False ..
  qed
  from hd_dropWhile [OF this] have "hd ?d = CHR ''/''" by simp
  with \<open>?d \<noteq> []\<close> obtain cs where d: "?d = CHR ''/'' # cs" by (metis list.collapse)
  have path: "path = rev ?d @ rev (takeWhile ?P (rev path))"
    by (metis rev_append rev_rev_ident takeWhile_dropWhile_id)
  have "rev ?d = parent_dir path @ rev (takeWhile ?Q ?d)"
    by (metis parent_dir_def rev_append takeWhile_dropWhile_id)
  moreover have "rev (takeWhile ?Q ?d) = CHR ''/'' # replicate (length (takeWhile ?Q cs)) (CHR ''/'')"
  proof -
    obtain n where n: "takeWhile ?Q cs = replicate n (CHR ''/'')"
      using replicate_length_same [of "takeWhile ?Q cs" "CHR ''/''"] set_takeWhileD [of _ ?Q cs] by metis
    have "rev (takeWhile ?Q ?d) = rev (takeWhile ?Q cs) @ [CHR ''/'']" by (simp only: d) simp
    then show ?thesis by (simp only: n rev_replicate replicate_append_same length_replicate)
  qed
  ultimately have rd: "rev ?d = (parent_dir path @ ''/'') @ replicate (length (takeWhile ?Q cs)) (CHR ''/'')"
    by simp
  have "path = (parent_dir path @ ''/'')
      @ replicate (length (takeWhile ?Q cs)) (CHR ''/'') @ rev (takeWhile ?P (rev path))"
    by (rule trans [OF path]) (simp only: rd append_assoc)
  then show ?thesis unfolding starts_with_split ..
qed

lemma make_dirs_new:
  "make_dirs dirs m path p = dirs p
   \<or> dirs p = None \<and> make_dirs dirs m path p = Some m \<and> (p = path \<or> starts_with path (p @ ''/''))"
proof (induction dirs m path rule: make_dirs.induct)
  case (1 dirs m path)
  show ?case
  proof (cases "dir_known dirs path \<or> p = path")
    case True
    then show ?thesis by (auto simp: make_dirs.simps [of dirs m path] dir_known_def)
  next
    case False
    then have here: "make_dirs dirs m path p = make_dirs dirs m (parent_dir path) p"
      by (subst make_dirs.simps) auto
    from False "1.IH" consider "make_dirs dirs m (parent_dir path) p = dirs p"
      | "dirs p = None" "make_dirs dirs m (parent_dir path) p = Some m"
        "p = parent_dir path \<or> starts_with (parent_dir path) (p @ ''/'')" by auto
    then show ?thesis
    proof cases
      case 2
      have "parent_dir path \<noteq> []" using 2(1,2) by (auto simp: make_dirs.simps [of dirs m "[]"] dir_known_def)
      then have "starts_with path (parent_dir path @ ''/'')" by (rule parent_dir_prefix)
      with 2(3) have "starts_with path (p @ ''/'')" by (auto simp: starts_with_split)
      with 2(1,2) here show ?thesis by simp
    qed (use here in simp)
  qed
qed

text \<open>The base directory after the first two system calls.\<close>

definition with_base :: "env_vars \<Rightarrow> fs \<Rightarrow> fs" where
  "with_base env fs =
     fs\<lparr>fs_dirs := (make_dirs (fs_dirs fs) (mode_700 AND NOT (fs_umask fs)) (runtime_base env))
       (runtime_base env \<mapsto> mode_700)\<rparr>"

text \<open>Nothing but the base directory is made where its parent exists.\<close>

definition base_ready :: "env_vars \<Rightarrow> fs \<Rightarrow> bool" where
  "base_ready env fs \<longleftrightarrow>
     fs_dirs fs (runtime_base env) \<noteq> None \<or> dir_known (fs_dirs fs) (parent_dir (runtime_base env))"

lemma with_base_ready:
  "base_ready env fs \<Longrightarrow> with_base env fs = fs\<lparr>fs_dirs := (fs_dirs fs)(runtime_base env \<mapsto> mode_700)\<rparr>"
  by (cases "dir_known (fs_dirs fs) (runtime_base env)")
    (auto simp: with_base_def base_ready_def make_dirs_parent dir_known_def)

text \<open>A path below the base directory.\<close>

lemma runtime_base_end: "runtime_base env \<noteq> []" "last (runtime_base env) = CHR ''o''"
  by (auto simp: runtime_base_def path_join_def)

definition with_dir :: "env_vars \<Rightarrow> fs \<Rightarrow> u32 \<Rightarrow> fs" where
  "with_dir env fs tag =
     (let fs = with_base env fs
      in fs\<lparr>fs_dirs := (fs_dirs fs)(tag_dir env tag \<mapsto> mode_700 AND NOT (fs_umask fs))\<rparr>)"

definition endpoints_at :: "env_vars \<Rightarrow> u32 \<Rightarrow> endpoints" where
  "endpoints_at env tag =
     \<lparr>ep_control = ''ipc://'' @ path_join (tag_dir env tag) ''ctl'',
      ep_events = ''ipc://'' @ path_join (tag_dir env tag) ''evt'',
      ep_dir = tag_dir env tag\<rparr>"

definition no_faults :: "fs \<Rightarrow> bool" where
  "no_faults fs \<longleftrightarrow> fs_fault fs = (\<lambda>_ _. None)"

lemma with_base_simps [simp]:
  "fs_fault (with_base env fs) = fs_fault fs"
  "fs_umask (with_base env fs) = fs_umask fs"
  "with_base env (with_base env fs) = with_base env fs"
  by (simp_all add: with_base_def dir_known_def)

lemma tag_dir_form:
  "tag_dir env tag = runtime_base env @ ''/'' @ show_04x (unat tag)"
proof -
  have "\<not> is_absolute (show_04x (unat tag))"
    using show_04x_facts [of "unat tag"] by (cases "show_04x (unat tag)") auto
  then show ?thesis using runtime_base_end [of env] by (simp add: tag_dir_def path_join_def)
qed

lemma tag_dir_not_base [simp]: "tag_dir env tag \<noteq> runtime_base env" "runtime_base env \<noteq> tag_dir env tag"
  by (simp_all add: tag_dir_form)

lemma parent_tag_dir [simp]: "parent_dir (tag_dir env tag) = runtime_base env"
proof -
  have hex: "\<forall>c \<in> set (rev (show_04x (unat tag))). c \<noteq> CHR ''/''"
    using show_04x_facts [of "unat tag"] by auto
  obtain cs where "rev (runtime_base env) = CHR ''o'' # cs"
    using runtime_base_end [of env] by (cases "runtime_base env" rule: rev_cases) auto
  then have "dropWhile (\<lambda>c. c = CHR ''/'') (rev (runtime_base env)) = rev (runtime_base env)" by simp
  moreover have "dropWhile (\<lambda>c. c \<noteq> CHR ''/'') (rev (show_04x (unat tag)) @ CHR ''/'' # rev (runtime_base env))
      = CHR ''/'' # rev (runtime_base env)"
    using hex by (subst dropWhile_append2) auto
  ultimately show ?thesis by (simp add: parent_dir_def tag_dir_form)
qed

lemma with_base_tag [simp]: "fs_dirs (with_base env fs) (tag_dir env t) = fs_dirs fs (tag_dir env t)"
proof -
  have "\<not> starts_with (runtime_base env) (tag_dir env t @ ''/'')" "tag_dir env t \<noteq> runtime_base env"
    by (auto simp: tag_dir_form starts_with_split)
  with make_dirs_new [of "fs_dirs fs" "mode_700 AND NOT (fs_umask fs)" "runtime_base env" "tag_dir env t"]
  show ?thesis by (auto simp: with_base_def)
qed

lemma create_endpoints_run:
  assumes "no_faults fs"
  shows "create_endpoints env fs tag =
     (if fs_dirs fs (tag_dir env tag) \<noteq> None
      then (with_base env fs, Inl (Io already_exists))
      else (with_dir env fs tag,
            rbind (check_sun_path (path_join (tag_dir env tag) ''ctl''))
              (\<lambda>_. Inr (endpoints_at env tag))))"
  using assms with_base_tag [of env fs tag]
  by (simp add: create_endpoints_def Let_def fs_bind_def mkdir_all_def chmod_def mkdir_def no_faults_def
      with_base_def with_dir_def endpoints_at_def dir_known_def)

lemma create_endpoints_Inr:
  assumes "create_endpoints env fs tag = (fs', Inr e)"
  shows "fs_dirs fs (tag_dir env tag) = None"
    and "fs' = with_dir env fs tag" and "e = endpoints_at env tag"
    and "length (path_join (tag_dir env tag) ''ctl'') \<le> SUN_PATH_LIMIT"
  using assms with_base_tag [of env fs tag]
  by (auto simp: create_endpoints_def Let_def return_iff with_base_def with_dir_def endpoints_at_def
      check_sun_path_def split: if_splits)

text \<open>
  Whatever a failed or a successful attempt leaves behind, it is the base directory, with
  missing ancestors, and, from the third system call on, the directory of the tag.
\<close>

definition only_base :: "env_vars \<Rightarrow> fs \<Rightarrow> fs \<Rightarrow> bool" where
  "only_base env fs fs' \<longleftrightarrow> fs' = fs
     \<or> fs_fault fs' = fs_fault fs \<and> fs_umask fs' = fs_umask fs \<and> fs_dirs fs' (runtime_base env) \<noteq> None
       \<and> (\<forall>p. p \<noteq> runtime_base env \<longrightarrow> fs_dirs fs' p = fs_dirs (with_base env fs) p)"

definition ancestor_made :: "env_vars \<Rightarrow> fs \<Rightarrow> fs \<Rightarrow> string \<Rightarrow> bool" where
  "ancestor_made env fs fs' p \<longleftrightarrow> starts_with (runtime_base env) (p @ ''/'') \<and> fs_dirs fs p = None
     \<and> fs_dirs fs' p = Some (mode_700 AND NOT (fs_umask fs)) \<and> \<not> base_ready env fs"

definition undisturbed :: "env_vars \<Rightarrow> fs \<Rightarrow> fs \<Rightarrow> string \<Rightarrow> bool" where
  "undisturbed env fs fs' p \<longleftrightarrow> fs_dirs fs' p = fs_dirs fs p \<or> ancestor_made env fs fs' p"

definition too_long :: "'a result \<Rightarrow> bool" where
  "too_long r = (case r of Inl (Protocol (SocketPathTooLong _ _)) \<Rightarrow> True | _ \<Rightarrow> False)"

lemma only_base_refl [simp]: "only_base env fs fs" "only_base env fs (with_base env fs)"
  by (simp_all add: only_base_def) (simp add: with_base_def)

lemma only_base_same: "only_base env fs fs' \<Longrightarrow> fs_fault fs' = fs_fault fs \<and> fs_umask fs' = fs_umask fs"
  by (auto simp: only_base_def)

lemma only_base_tag: "only_base env fs fs' \<Longrightarrow> fs_dirs fs' (tag_dir env t) = fs_dirs fs (tag_dir env t)"
  by (auto simp: only_base_def)

lemma with_base_present:
  "fs_dirs fs (runtime_base env) \<noteq> None \<Longrightarrow>
   with_base env fs = fs\<lparr>fs_dirs := (fs_dirs fs)(runtime_base env \<mapsto> mode_700)\<rparr>"
  by (simp add: with_base_ready base_ready_def)

lemma only_base_with: "only_base env fs fs' \<Longrightarrow> with_base env fs' = with_base env fs"
  unfolding only_base_def
  by (elim disjE, simp) (auto intro!: fs.equality simp: with_base_present fun_eq_iff, simp add: with_base_def)

lemma only_base_trans: "only_base env a b \<Longrightarrow> only_base env b c \<Longrightarrow> only_base env a c"
  using only_base_with [of env a b] by (auto simp: only_base_def)

lemma with_base_other:
  "p \<noteq> runtime_base env \<Longrightarrow>
   fs_dirs (with_base env fs) p = fs_dirs fs p \<or> ancestor_made env fs (with_base env fs) p"
  using make_dirs_new [of "fs_dirs fs" "mode_700 AND NOT (fs_umask fs)" "runtime_base env" p]
  by (cases "base_ready env fs") (simp add: with_base_ready, auto simp: ancestor_made_def with_base_def)

lemma only_base_other:
  "only_base env fs fs' \<Longrightarrow> p \<noteq> runtime_base env \<Longrightarrow> undisturbed env fs fs' p"
  using with_base_other [of p env fs] by (auto simp: only_base_def ancestor_made_def undisturbed_def)

lemma create_endpoints_Io:
  assumes "create_endpoints env fs tag = (fs', Inl (Io e))"
  shows "only_base env fs fs'"
  using assms runtime_base_end(1) [of env] make_dirs_here [of "runtime_base env"]
  by (auto simp: create_endpoints_def Let_def fs_bind_def mkdir_all_def chmod_def mkdir_def
      only_base_def check_sun_path_def with_base_def split: option.splits if_splits)

lemma with_dir_other:
  "p \<noteq> runtime_base env \<Longrightarrow> p \<noteq> tag_dir env t \<Longrightarrow> undisturbed env fs (with_dir env fs t) p"
  using with_base_other [of p env fs] by (auto simp: with_dir_def Let_def undisturbed_def ancestor_made_def)

text \<open>An attempt fails in a system call, or over the length of the path, the directory being made.\<close>

lemma create_endpoints_Inl:
  assumes "create_endpoints env fs tag = (fs', Inl e)"
  shows "(\<exists>x. e = Io x) \<and> only_base env fs fs'
    \<or> too_long (Inl e :: endpoints result) \<and> fs_dirs fs (tag_dir env tag) = None \<and> fs' = with_dir env fs tag"
proof (cases "\<exists>x. e = Io x")
  case True
  with assms create_endpoints_Io show ?thesis by blast
next
  case False
  with assms with_base_tag [of env fs tag] show ?thesis
    by (auto simp: create_endpoints_def Let_def fs_bind_def mkdir_all_def chmod_def mkdir_def too_long_def
        check_sun_path_def with_base_def with_dir_def split: option.splits if_splits)
qed

definition next_tag :: "u32 \<Rightarrow> u32" where
  "next_tag tag = (tag + 1) AND 0xffff"

lemma new_loop_Inr:
  "\<lbrakk>new_loop n env fs tag = (fs', Inr e); unat tag < 0x10000\<rbrakk> \<Longrightarrow>
   \<exists>fs1 t. only_base env fs fs1 \<and> unat t < 0x10000 \<and> create_endpoints env fs1 t = (fs', Inr e)"
proof (induction n arbitrary: fs tag)
  case (Suc n)
  obtain fs1 r where c: "create_endpoints env fs tag = (fs1, r)" by fastforce
  show ?case
  proof (cases "\<exists>e. r = Inl (Io e) \<and> io_kind e = AlreadyExists")
    case True
    then obtain e' where r: "r = Inl (Io e')" "io_kind e' = AlreadyExists" by blast
    from c r Suc.prems(1) have "new_loop n env fs1 ((tag + 1) AND 0xffff) = (fs', Inr e)" by simp
    from Suc.IH [OF this unat_low16] create_endpoints_Io [of env fs tag fs1 e'] c r
    show ?thesis by (auto intro: only_base_trans)
  next
    case False
    with c Suc.prems have "create_endpoints env fs tag = (fs', Inr e)"
      by (auto split: sum.splits error.splits if_splits)
    with Suc.prems(2) show ?thesis using only_base_refl by blast
  qed
qed simp

lemma new_loop_Inl:
  "new_loop n env fs tag = (fs', Inl e) \<Longrightarrow>
   if too_long (Inl e :: endpoints result)
   then \<exists>t. fs_dirs fs (tag_dir env t) = None \<and> fs' = with_dir env fs t
   else only_base env fs fs'"
proof (induction n arbitrary: fs tag)
  case 0
  then show ?case by (auto simp: too_long_def)
next
  case (Suc n)
  obtain fs1 r where c: "create_endpoints env fs tag = (fs1, r)" by fastforce
  with Suc.prems obtain e1 where r: "r = Inl e1" by (cases r) auto
  note failed = create_endpoints_Inl [OF c [unfolded r]]
  show ?case
  proof (cases "\<exists>x. e1 = Io x \<and> io_kind x = AlreadyExists")
    case True
    then have ob: "only_base env fs fs1" using failed by (auto simp: too_long_def)
    from True c r Suc.prems have "new_loop n env fs1 ((tag + 1) AND 0xffff) = (fs', Inl e)" by auto
    from Suc.IH [OF this] show ?thesis
      using only_base_tag [OF ob] only_base_with [OF ob] only_base_same [OF ob]
      by (auto simp: with_dir_def intro: only_base_trans [OF ob] split: if_splits)
  next
    case False
    with c r Suc.prems have "e = e1" "fs' = fs1" by (auto split: error.splits if_splits)
    with failed show ?thesis by (auto simp: too_long_def)
  qed
qed

lemma new_endpoints_Inl:
  "new_endpoints env now pid fs = (fs', Inl e) \<Longrightarrow>
   if too_long (Inl e :: endpoints result)
   then \<exists>t. fs_dirs fs (tag_dir env t) = None \<and> fs' = with_dir env fs t
   else only_base env fs fs'"
  unfolding new_endpoints_def by (rule new_loop_Inl)

lemma new_endpoints_Inr:
  assumes "new_endpoints env now pid fs = (fs', Inr e)"
  obtains t where "unat t < 0x10000" "fs_dirs fs (tag_dir env t) = None" "fs' = with_dir env fs t"
    "e = endpoints_at env t" "length (path_join (tag_dir env t) ''ctl'') \<le> SUN_PATH_LIMIT"
proof -
  from new_loop_Inr [OF assms [unfolded new_endpoints_def] unat_low16] obtain fs1 t where
    ob: "only_base env fs fs1" and t: "unat t < 0x10000"
    and c: "create_endpoints env fs1 t = (fs', Inr e)" by blast
  from create_endpoints_Inr(1) [OF c] have "fs_dirs fs (tag_dir env t) = None"
    by (simp add: only_base_tag [OF ob])
  moreover have "with_dir env fs1 t = with_dir env fs t"
    using only_base_same [OF ob] by (simp add: with_dir_def only_base_with [OF ob])
  ultimately show thesis using that t create_endpoints_Inr(2-4) [OF c] by simp
qed

lemma unat_inj [simp]: "unat (a :: u32) = unat b \<longleftrightarrow> a = b"
  by (auto intro: unsigned_word_eqI)

lemma tag_dir_inj [simp]: "tag_dir env a = tag_dir env b \<longleftrightarrow> a = b"
  by (simp add: tag_dir_form)

lemma length_tag_dir: "unat t < 0x10000 \<Longrightarrow> length (tag_dir env t) = length (runtime_base env) + 5"
  by (simp add: tag_dir_form length_show_04x)

lemma last_tag_dir: "tag_dir env t \<noteq> [] \<and> last (tag_dir env t) \<noteq> CHR ''/''"
proof -
  have "last (show_04x (unat t)) \<noteq> CHR ''/''"
    using show_04x_facts [of "unat t"] by (metis last_in_set)
  then show ?thesis using show_04x_facts(1) by (simp add: tag_dir_form)
qed

lemma path_in_tag_dir: "path_join (tag_dir env t) (c # cs) =
    (if c = CHR ''/'' then c # cs else tag_dir env t @ ''/'' @ c # cs)"
  using last_tag_dir [of env t] by (simp add: path_join_def)

lemma length_ctl_path:
  "unat t < 0x10000 \<Longrightarrow> length (path_join (tag_dir env t) ''ctl'') = length (runtime_base env) + 9"
  by (simp add: path_in_tag_dir length_tag_dir)

lemma starts_with_length: "starts_with s p \<Longrightarrow> length p \<le> length s"
  by (metis starts_with_def length_take min.cobounded1)

lemma tag_dir_not_inside:
  "unat t < 0x10000 \<Longrightarrow> unat t' < 0x10000 \<Longrightarrow> \<not> starts_with (tag_dir env t) (tag_dir env t' @ ''/'')"
  using length_tag_dir [of t env] length_tag_dir [of t' env]
  by (auto dest!: starts_with_length)

lemma new_loop_first_free:
  "\<lbrakk>no_faults fs; unat tag < 0x10000; length (runtime_base env) \<le> 94; i < n;
    fs_dirs fs (tag_dir env ((next_tag ^^ i) tag)) = None;
    \<forall>j<i. fs_dirs fs (tag_dir env ((next_tag ^^ j) tag)) \<noteq> None\<rbrakk> \<Longrightarrow>
   \<exists>fs'. new_loop n env fs tag = (fs', Inr (endpoints_at env ((next_tag ^^ i) tag)))"
proof (induction n arbitrary: fs tag i)
  case (Suc n)
  have free: "fs_dirs (with_base env fs) (tag_dir env t) = fs_dirs fs (tag_dir env t)" for t
    by simp
  show ?case
  proof (cases i)
    case 0
    with Suc.prems free show ?thesis
      by (simp add: create_endpoints_run check_sun_path_def length_ctl_path SUN_PATH_LIMIT_def)
  next
    case (Suc j)
    with Suc.prems(6) have "fs_dirs fs (tag_dir env tag) \<noteq> None" by force
    then have "new_loop (Suc n) env fs tag = new_loop n env (with_base env fs) (next_tag tag)"
      using Suc.prems(1) free
      by (simp add: create_endpoints_run already_exists_def next_tag_def)
    moreover have "\<exists>fs'. new_loop n env (with_base env fs) (next_tag tag)
        = (fs', Inr (endpoints_at env ((next_tag ^^ j) (next_tag tag))))"
    proof (rule Suc.IH)
      show "no_faults (with_base env fs)" using Suc.prems(1) by (simp add: no_faults_def)
      show "unat (next_tag tag) < 0x10000" by (simp add: next_tag_def unat_low16)
      show "j < n" using Suc.prems(4) Suc by simp
      show "fs_dirs (with_base env fs) (tag_dir env ((next_tag ^^ j) (next_tag tag))) = None"
        using Suc.prems(5) Suc free by (simp add: funpow_swap1)
      show "\<forall>k<j. fs_dirs (with_base env fs) (tag_dir env ((next_tag ^^ k) (next_tag tag))) \<noteq> None"
        using Suc.prems(6) Suc free
        by (metis Suc_less_eq comp_apply funpow.simps(2) funpow_swap1)
    qed (rule Suc.prems(3))
    ultimately show ?thesis using Suc by (simp add: funpow_swap1)
  qed
qed simp

lemma new_loop_all_taken:
  "\<lbrakk>no_faults fs; \<forall>j<n. fs_dirs fs (tag_dir env ((next_tag ^^ j) tag)) \<noteq> None\<rbrakk> \<Longrightarrow>
   snd (new_loop n env fs tag) = Inl (Protocol NoFreeDirectory)"
proof (induction n arbitrary: fs tag)
  case (Suc n)
  have free: "fs_dirs (with_base env fs) (tag_dir env t) = fs_dirs fs (tag_dir env t)" for t
    by simp
  from Suc.prems(2) have "fs_dirs fs (tag_dir env tag) \<noteq> None" by force
  then have "new_loop (Suc n) env fs tag = new_loop n env (with_base env fs) (next_tag tag)"
    using Suc.prems(1) free by (simp add: create_endpoints_run already_exists_def next_tag_def)
  moreover have "\<forall>j<n. fs_dirs (with_base env fs) (tag_dir env ((next_tag ^^ j) (next_tag tag))) \<noteq> None"
    using Suc.prems(2) free by (metis Suc_less_eq comp_apply funpow.simps(2) funpow_swap1)
  ultimately show ?case
    using Suc.IH [of "with_base env fs" "next_tag tag"] Suc.prems(1) by (simp add: no_faults_def)
qed simp

lemma next_tag_differs: "unat t < 0x10000 \<Longrightarrow> next_tag t \<noteq> t"
proof
  assume t: "unat t < 0x10000" "next_tag t = t"
  have "unat (t + 1) = unat t + 1"
    using t(1) by (simp add: unat_word_ariths)
  with t have "(unat t + 1) mod 0x10000 = unat t"
    unfolding next_tag_def by (metis unat_and_low16)
  with t(1) show False by (cases "unat t + 1 = 0x10000") auto
qed

text \<open>
  On Windows the first tag is always taken: nothing tells the loop that the name is in
  use, and two frontends share both pipes exactly if their tags are equal.
\<close>

lemma new_pipes_first: "new_pipes now pid = create_pipes ((now XOR pid) AND 0xffff)"
proof -
  have "(64 :: nat) = Suc 63" by simp
  then show ?thesis by (simp only: new_pipes_def new_pipes_loop.simps) (simp add: create_pipes_def)
qed

lemma pipes_collide:
  "new_pipes now pid = new_pipes now' pid' \<longleftrightarrow> (now XOR pid) AND 0xffff = (now' XOR pid') AND 0xffff"
  by (simp add: new_pipes_first create_pipes_def)

lemma pipes_distinct:
  "new_pipes now pid = Inr e \<Longrightarrow> pipe_control e \<noteq> pipe_events e"
  by (auto simp: new_pipes_first create_pipes_def)

section \<open>Properties\<close>

definition example_env :: env_vars where
  "example_env = \<lparr>xdg_runtime_dir = Some ''/run/user/1000'', temp_dir = ''/tmp''\<rparr>"

definition example_fs :: fs where
  "example_fs = \<lparr>fs_dirs = [''/run/user/1000/openmso'' \<mapsto> 0x1ED], fs_umask = 0x12,
     fs_fault = (\<lambda>_ _. None)\<rparr>"

text \<open>A base path of 96 bytes, two over what the two socket names leave room for.\<close>

definition deep_env :: env_vars where
  "deep_env = \<lparr>xdg_runtime_dir = Some (''/'' @ replicate 87 (CHR ''x'')), temp_dir = ''/tmp''\<rparr>"

lemma example_base: "runtime_base example_env = ''/run/user/1000/openmso''"
  by (simp add: runtime_base_def example_env_def path_join_def)

lemma deep_base: "length (runtime_base deep_env) = 96"
proof -
  have "last (''/'' @ replicate 87 (CHR ''x'')) = CHR ''x''" by simp
  then show ?thesis by (simp add: runtime_base_def deep_env_def path_join_def)
qed

lemma new_endpoints_first:
  assumes "no_faults fs" "length (runtime_base env) \<le> 94"
    "fs_dirs fs (tag_dir env ((now XOR pid) AND 0xffff)) = None"
  shows "new_endpoints env now pid fs
    = (with_dir env fs ((now XOR pid) AND 0xffff),
       Inr (endpoints_at env ((now XOR pid) AND 0xffff)))"
proof -
  have "(64 :: nat) = Suc 63" by simp
  then show ?thesis
    using assms
    by (simp only: new_endpoints_def new_loop.simps)
      (simp add: create_endpoints_run check_sun_path_def length_ctl_path unat_low16
        SUN_PATH_LIMIT_def with_base_def)
qed

lemma new_example:
  "new_endpoints example_env 7 5 example_fs
     = (with_dir example_env example_fs 2, Inr (endpoints_at example_env 2))"
  using new_endpoints_first [of example_fs example_env 7 5]
  by (simp add: no_faults_def example_base tag_dir_form) (simp add: example_fs_def)

text \<open>
  C35. A successful \<open>Endpoints::new\<close> returns a directory that did not exist before,
  closed to group and others whatever the umask, inside a base directory whose
  mode it has set to 0700; nothing else of the file system has changed, except that
  where the parent of the base did not exist the missing ancestors have been made, closed
  in the same way; and both socket paths fit the limit of \<open>sun_path\<close>.
\<close>

theorem new_endpoints_private:
  assumes "new_endpoints env now pid fs = (fs', Inr e)"
  shows "fs_dirs fs (ep_dir e) = None
    \<and> fs_dirs fs' (ep_dir e) = Some (mode_700 AND NOT (fs_umask fs))
    \<and> (mode_700 AND NOT (fs_umask fs)) AND 0x3F = 0
    \<and> fs_dirs fs' (runtime_base env) = Some mode_700
    \<and> (\<forall>p. p \<notin> {ep_dir e, runtime_base env} \<longrightarrow>
        undisturbed env fs fs' p)
    \<and> (base_ready env fs \<longrightarrow> (\<forall>p. p \<notin> {ep_dir e, runtime_base env} \<longrightarrow> fs_dirs fs' p = fs_dirs fs p))
    \<and> ep_control e = ''ipc://'' @ ep_dir e @ ''/ctl'' \<and> ep_events e = ''ipc://'' @ ep_dir e @ ''/evt''
    \<and> length (ep_dir e @ ''/ctl'') \<le> 103 \<and> length (ep_dir e @ ''/evt'') \<le> 103"
proof -
  obtain t where t: "unat t < 0x10000" and free: "fs_dirs fs (tag_dir env t) = None"
    and fs': "fs' = with_dir env fs t" and e: "e = endpoints_at env t"
    and len: "length (path_join (tag_dir env t) ''ctl'') \<le> SUN_PATH_LIMIT"
    by (rule new_endpoints_Inr [OF assms])
  have "(mode_700 AND NOT (fs_umask fs)) AND 0x3F = NOT (fs_umask fs) AND (mode_700 AND 0x3F)"
    by (simp only: ac_simps)
  then have closed: "(mode_700 AND NOT (fs_umask fs)) AND 0x3F = 0" by simp
  have base: "fs_dirs fs' (runtime_base env) = Some mode_700"
    by (simp add: fs' with_dir_def Let_def) (simp add: with_base_def)
  have "undisturbed env fs fs' p" if "p \<notin> {ep_dir e, runtime_base env}" for p
    using that with_dir_other [of p env t fs] by (simp add: fs' e endpoints_at_def)
  then show ?thesis
    using free len closed base
    by (auto simp: fs' e with_dir_def endpoints_at_def path_in_tag_dir SUN_PATH_LIMIT_def Let_def
        undisturbed_def ancestor_made_def)
qed

theorem new_endpoints_private_witness:
  "\<exists>fs' e. new_endpoints example_env 7 5 example_fs = (fs', Inr e)
     \<and> fs_dirs fs' (ep_dir e) = Some (mode_700 AND NOT 0x12)
     \<and> fs_dirs fs' ''/run/user/1000/openmso'' = Some mode_700"
  using new_endpoints_private [OF new_example]
  by (simp add: new_example example_base) (simp add: example_fs_def)

text \<open>
  Two live endpoints never share a directory or a URL, and dropping the second
  removes its directory and leaves that of the first.
\<close>

lemma endpoints_isolated:
  assumes "new_endpoints env now1 pid1 fs = (fs1, Inr e1)"
    and "new_endpoints env now2 pid2 fs1 = (fs2, Inr e2)"
    and "fs_fault fs2 RemoveAll (ep_dir e2) = None"
  shows "distinct [ep_control e1, ep_events e1, ep_control e2, ep_events e2]
    \<and> fs_dirs (drop_endpoints fs2 e2) (ep_dir e2) = None
    \<and> fs_dirs (drop_endpoints fs2 e2) (ep_dir e1) = fs_dirs fs1 (ep_dir e1)
    \<and> fs_dirs fs1 (ep_dir e1) \<noteq> None"
proof -
  obtain t1 where t1: "unat t1 < 0x10000" "fs1 = with_dir env fs t1" "e1 = endpoints_at env t1"
    by (rule new_endpoints_Inr [OF assms(1)])
  obtain t2 where t2: "unat t2 < 0x10000"
    "fs_dirs fs1 (tag_dir env t2) = None" "fs2 = with_dir env fs1 t2" "e2 = endpoints_at env t2"
    by (rule new_endpoints_Inr [OF assms(2)])
  have live: "fs_dirs fs1 (tag_dir env t1) \<noteq> None"
    by (simp add: t1 with_dir_def Let_def)
  with t2(2) have ne: "tag_dir env t1 \<noteq> tag_dir env t2" by auto
  then have "distinct [ep_control e1, ep_events e1, ep_control e2, ep_events e2]"
    by (simp add: t1(3) t2(4) endpoints_at_def path_in_tag_dir)
  moreover have "fs_dirs fs2 (tag_dir env t1) = fs_dirs fs1 (tag_dir env t1)"
    using ne by (simp add: t2(3) with_dir_def Let_def)
  ultimately show ?thesis
    using ne live tag_dir_not_inside [OF t1(1) t2(1), of env] assms(3)
    by (simp add: drop_endpoints_def remove_dir_all_def t1(3) t2(4) endpoints_at_def)
qed

definition example_fs1 :: fs where
  "example_fs1 = with_dir example_env example_fs 2"

lemma new_example_second:
  "new_endpoints example_env 8 1 example_fs1
     = (with_dir example_env example_fs1 9, Inr (endpoints_at example_env 9))"
proof -
  have "fs_dirs example_fs1 (tag_dir example_env 9) = fs_dirs example_fs (tag_dir example_env 9)"
    by (simp add: example_fs1_def with_dir_def Let_def)
  moreover have "fs_dirs example_fs (tag_dir example_env 9) = None"
    by (simp add: example_fs_def tag_dir_form example_base)
  moreover have "no_faults example_fs1"
    by (simp add: no_faults_def example_fs1_def with_dir_def Let_def) (simp add: example_fs_def)
  ultimately show ?thesis
    using new_endpoints_first [of example_fs1 example_env 8 1] by (simp add: example_base)
qed

lemma endpoints_isolated_witness:
  "ep_control (endpoints_at example_env 2) \<noteq> ep_control (endpoints_at example_env 9)
   \<and> fs_dirs (drop_endpoints (with_dir example_env example_fs1 9) (endpoints_at example_env 9))
       (ep_dir (endpoints_at example_env 2)) \<noteq> None"
proof -
  have "fs_fault (with_dir example_env example_fs1 9) RemoveAll (ep_dir (endpoints_at example_env 9)) = None"
    by (simp add: with_dir_def example_fs1_def Let_def) (simp add: example_fs_def)
  from endpoints_isolated [OF new_example [folded example_fs1_def] new_example_second this] show ?thesis
    by simp
qed

text \<open>
  C22. \<open>Endpoints::new\<close> finds a free directory if one of the 64 tags it walks
  through is free, and takes the first; only when all 64 are taken does it give
  up.
\<close>

theorem new_endpoints_finds_free:
  assumes "no_faults fs" and "length (runtime_base env) \<le> 94"
    and "\<And>i. tag i = (next_tag ^^ i) ((now XOR pid) AND 0xffff)"
  shows "(\<forall>i < 64. fs_dirs fs (tag_dir env (tag i)) = None
            \<and> (\<forall>j < i. fs_dirs fs (tag_dir env (tag j)) \<noteq> None)
            \<longrightarrow> snd (new_endpoints env now pid fs) = Inr (endpoints_at env (tag i)))
    \<and> ((\<forall>i < 64. fs_dirs fs (tag_dir env (tag i)) \<noteq> None)
            \<longrightarrow> snd (new_endpoints env now pid fs) = Inl (Protocol NoFreeDirectory))"
proof (intro conjI allI impI)
  fix i :: nat
  assume i: "i < 64" and h: "fs_dirs fs (tag_dir env (tag i)) = None
    \<and> (\<forall>j < i. fs_dirs fs (tag_dir env (tag j)) \<noteq> None)"
  from new_loop_first_free [OF assms(1) unat_low16 assms(2) i conjunct1 [OF h, unfolded assms(3)]
      conjunct2 [OF h, unfolded assms(3)]]
  show "snd (new_endpoints env now pid fs) = Inr (endpoints_at env (tag i))"
    by (auto simp: new_endpoints_def assms(3))
next
  assume "\<forall>i < 64. fs_dirs fs (tag_dir env (tag i)) \<noteq> None"
  from new_loop_all_taken [OF assms(1) this [unfolded assms(3)]]
  show "snd (new_endpoints env now pid fs) = Inl (Protocol NoFreeDirectory)"
    by (simp add: new_endpoints_def)
qed

lemma xor_7_5: "(7 XOR 5 :: u32) AND 0xffff = 2"
  by simp

theorem new_endpoints_finds_free_witness:
  "snd (new_endpoints example_env 7 5 example_fs) = Inr (endpoints_at example_env 2)"
proof -
  have "no_faults example_fs" by (simp add: no_faults_def example_fs_def)
  moreover have "length (runtime_base example_env) \<le> 94" by (simp add: example_base)
  moreover have "fs_dirs example_fs (tag_dir example_env 2) = None"
    by (simp add: example_fs_def tag_dir_form example_base)
  ultimately show ?thesis
    using conjunct1 [OF new_endpoints_finds_free [of example_fs example_env
        "\<lambda>i. (next_tag ^^ i) ((7 XOR 5) AND 0xffff)" 7 5], rule_format, of 0]
    by (simp add: xor_7_5)
qed

text \<open>
  An over-long socket path is found out only after the directory has been
  made.  The call fails, no \<open>Endpoints\<close> exists whose drop would remove the
  directory, and it stays behind.
\<close>

lemma overlong_path_leaks_directory:
  assumes "no_faults fs" and "94 < length (runtime_base env)"
    and "fs_dirs fs (tag_dir env ((now XOR pid) AND 0xffff)) = None"
  shows "\<exists>fs' e. new_endpoints env now pid fs = (fs', Inl (Protocol e))
    \<and> fs_dirs fs' (tag_dir env ((now XOR pid) AND 0xffff)) \<noteq> None"
proof -
  have "(64 :: nat) = Suc 63" by simp
  then show ?thesis
    using assms
    by (simp only: new_endpoints_def new_loop.simps)
      (simp add: create_endpoints_run check_sun_path_def length_ctl_path unat_low16
        SUN_PATH_LIMIT_def with_base_def with_dir_def Let_def)
qed

lemma overlong_path_leaks_directory_witness:
  "\<exists>fs' e. new_endpoints deep_env 7 5 (example_fs\<lparr>fs_dirs := Map.empty\<rparr>) = (fs', Inl (Protocol e))
     \<and> fs_dirs fs' (tag_dir deep_env 2) \<noteq> None"
proof -
  let ?fs = "example_fs\<lparr>fs_dirs := Map.empty\<rparr>"
  have "no_faults ?fs" "94 < length (runtime_base deep_env)"
    "fs_dirs ?fs (tag_dir deep_env ((7 XOR 5) AND 0xffff)) = None"
    by (simp_all add: no_faults_def example_fs_def deep_base)
  from overlong_path_leaks_directory [OF this] show ?thesis by simp
qed

text \<open>
  Sockets are built alike: a bounded inbound message and a send timeout on
  every one, request resending switched off on the request socket and left alone
  elsewhere; and a listener on either URL of an \<open>Endpoints\<close> never starts without
  the owner-only permissions.
\<close>

lemma socket_options:
  "(build_socket nng p = Inr opts \<longleftrightarrow>
      nng_open nng p = None \<and> (\<forall>opt \<in> set opts. nng_set_opt nng p opt = None)
      \<and> opts = [RecvMaxSize RECV_MAX_SIZE, SendTimeout (Some (from_secs 30))]
               @ (if p = Req0 then [ResendTime (Some 0)] else []))
   \<and> (listen nng p (ep_control (endpoints_at env tag)) = Inr lopts \<longrightarrow> lopts = [Permissions mode_600])
   \<and> (listen nng p (ep_events (endpoints_at env tag)) = Inr lopts \<longrightarrow> lopts = [Permissions mode_600])"
  by (auto simp: build_socket_def listen_def endpoints_at_def starts_with_def return_iff)

definition example_nng :: nng_env where
  "example_nng = \<lparr>nng_open = (\<lambda>_. None), nng_set_opt = (\<lambda>_ _. None), nng_dial = (\<lambda>_ _. None),
     nng_listener = (\<lambda>_ _. None), nng_listener_opt = (\<lambda>_ _. None), nng_start = (\<lambda>_ _. None)\<rparr>"

lemma socket_options_witness:
  "build_socket example_nng Req0
     = Inr [RecvMaxSize RECV_MAX_SIZE, SendTimeout (Some (from_secs 30)), ResendTime (Some 0)]
   \<and> listen example_nng Req0 (ep_control (endpoints_at example_env 2)) = Inr [Permissions mode_600]"
  using socket_options [of example_nng Req0 "[RecvMaxSize RECV_MAX_SIZE,
      SendTimeout (Some (from_secs 30)), ResendTime (Some 0)]"]
  by (simp add: example_nng_def listen_def endpoints_at_def starts_with_def return_iff try_nng_def)

end
