(* ===== verification/OCP_Events.thy ===== *)
theory OCP_Events
  imports OCP_Prelude OCP_Proto OCP_Error OCP_Encoding OCP_Transport
begin

text \<open>
  \<open>rust/openmso/src/server/events.rs\<close>: the event stream with the flag that says
  whether a capture is running, and \<open>StreamSender\<close>, which cuts one stream of an
  acquisition into chunks.
\<close>

section \<open>The event stream\<close>

text \<open>
  \<open>Events\<close>: the stream socket and the \<open>AtomicBool\<close>.  Every access to the flag is
  sequentially consistent, so that a run is some order of the operations below.
\<close>

record events =
  ev_running :: bool
  ev_socket :: socket

definition new_events :: "socket \<Rightarrow> events" where
  "new_events s = \<lparr>ev_running = False, ev_socket = s\<rparr>"

fun ends_capture :: "event \<Rightarrow> bool" where
  "ends_capture (CaptureEnd _) = True"
| "ends_capture (DeviceLost _) = True"
| "ends_capture _ = False"

definition set_running :: "events \<Rightarrow> bool \<Rightarrow> events" where
  "set_running es running = es\<lparr>ev_running := running\<rparr>"

definition is_running :: "events \<Rightarrow> bool" where
  "is_running es = ev_running es"

definition events_send :: "(event_msg \<Rightarrow> bytes) \<Rightarrow> events \<Rightarrow> event \<Rightarrow> events \<times> unit result" where
  "events_send enc es ev =
     (let es = (if ends_capture ev then set_running es False else es) in
      case send enc (ev_socket es) \<lparr>ev_event = Some ev\<rparr> of
        (s, r) \<Rightarrow> (es\<lparr>ev_socket := s\<rparr>, r))"

text \<open>
  \<open>send\<close> is two accesses, each atomic by itself: the store to the flag, for an event that
  ends a capture, and then the send on the socket.  Other threads may act between the two,
  so that wherever threads interleave a push is the list of its acts.
\<close>

datatype push_act = ClearFlag | PutEvent event

definition push_acts :: "event \<Rightarrow> push_act list" where
  "push_acts ev = (if ends_capture ev then [ClearFlag] else []) @ [PutEvent ev]"

fun do_act :: "(event_msg \<Rightarrow> bytes) \<Rightarrow> push_act \<Rightarrow> events \<Rightarrow> events \<times> unit result" where
  "do_act enc ClearFlag es = (set_running es False, Inr ())"
| "do_act enc (PutEvent ev) es =
     (case send enc (ev_socket es) \<lparr>ev_event = Some ev\<rparr> of (s, r) \<Rightarrow> (es\<lparr>ev_socket := s\<rparr>, r))"

definition do_acts :: "(event_msg \<Rightarrow> bytes) \<Rightarrow> push_act list \<Rightarrow> events \<Rightarrow> events" where
  "do_acts enc acts es = fold (\<lambda>a es. fst (do_act enc a es)) acts es"

lemma do_acts_simps [simp]:
  "do_acts enc [] es = es"
  "do_acts enc (a # acts) es = do_acts enc acts (fst (do_act enc a es))"
  "do_acts enc (acts @ acts') es = do_acts enc acts' (do_acts enc acts es)"
  by (simp_all add: do_acts_def)

text \<open>With nothing in between, the acts of a push are the call.\<close>

lemma events_send_acts: "fst (events_send enc es ev) = do_acts enc (push_acts ev) es"
  by (simp add: events_send_def push_acts_def Let_def split: prod.splits)

lemma events_send_result:
  "events_send enc es ev = do_act enc (PutEvent ev) (do_acts enc (butlast (push_acts ev)) es)"
  by (simp add: events_send_def push_acts_def Let_def)

lemma do_act_running [simp]:
  "ev_running (fst (do_act enc a es)) \<longleftrightarrow> ev_running es \<and> a \<noteq> ClearFlag"
  by (cases a) (auto simp: set_running_def split: prod.splits)

lemma do_acts_running [simp]:
  "ev_running (do_acts enc acts es) \<longleftrightarrow> ev_running es \<and> ClearFlag \<notin> set acts"
  by (induction acts arbitrary: es) auto

definition events_log ::
  "(event_msg \<Rightarrow> bytes) \<Rightarrow> events \<Rightarrow> log_level \<Rightarrow> string \<Rightarrow> events \<times> unit result" where
  "events_log enc es level message =
     events_send enc es (Log \<lparr>log_level = log_level_i32 level, log_message = message\<rparr>)"

definition events_status ::
  "(event_msg \<Rightarrow> bytes) \<Rightarrow> events \<Rightarrow> device_state \<Rightarrow> string \<Rightarrow> events \<times> unit result" where
  "events_status enc es state detail =
     events_send enc es (Status \<lparr>sta_state = device_state_i32 state, sta_detail = detail\<rparr>)"

section \<open>Cutting a stream into chunks\<close>

record stream_sender =
  ss_capture_id :: u64
  ss_acquisition :: u64
  ss_stream :: u32
  ss_unitsize :: usize
  ss_encoding :: sample_encoding
  ss_seq :: u64
  ss_first_sample :: u64

definition new_sender :: "u64 \<Rightarrow> u64 \<Rightarrow> u32 \<Rightarrow> usize \<Rightarrow> stream_sender outcome" where
  "new_sender capture_id acquisition stream unitsize =
     (if unitsize = 0 then Panic AssertFailed
      else Ret \<lparr>ss_capture_id = capture_id, ss_acquisition = acquisition, ss_stream = stream,
        ss_unitsize = unitsize, ss_encoding = Packed, ss_seq = 0, ss_first_sample = 0\<rparr>)"

definition transition :: "stream_sender \<Rightarrow> stream_sender" where
  "transition ss = ss\<lparr>ss_encoding := Transition\<rparr>"

definition chunk_size :: "usize \<Rightarrow> usize" where
  "chunk_size unitsize = MAX_PAYLOAD - MAX_PAYLOAD mod unitsize"

definition part_samples :: "stream_sender \<Rightarrow> bytes \<Rightarrow> u64" where
  "part_samples ss part = of_nat (length part div unat (ss_unitsize ss))"

definition part_payload :: "stream_sender \<Rightarrow> bytes \<Rightarrow> bytes outcome" where
  "part_payload ss part =
     (case ss_encoding ss of
        Transition \<Rightarrow> encode_transition part (ss_unitsize ss)
      | _ \<Rightarrow> Ret part)"

definition chunk_data :: "stream_sender \<Rightarrow> bytes \<Rightarrow> bytes \<Rightarrow> capture_data" where
  "chunk_data ss part payload =
     \<lparr>cd_capture_id = ss_capture_id ss, cd_acquisition = ss_acquisition ss,
      cd_stream = ss_stream ss, cd_seq = ss_seq ss, cd_first_sample = ss_first_sample ss,
      cd_sample_count = part_samples ss part,
      cd_encoding = sample_encoding_i32 (ss_encoding ss), cd_codec = codec_i32 CodecNone,
      cd_decoded_len = of_nat (length payload), cd_payload = payload\<rparr>"

text \<open>
  The loop of \<open>StreamSender::send\<close>.  A failed push returns at once, before the
  counters move.
\<close>

fun send_parts ::
  "profile \<Rightarrow> (event_msg \<Rightarrow> bytes) \<Rightarrow> stream_sender \<Rightarrow> events \<Rightarrow> bytes list \<Rightarrow>
   (stream_sender \<times> events \<times> unit result) outcome" where
  "send_parts prof enc ss es [] = Ret (ss, es, Inr ())"
| "send_parts prof enc ss es (part # parts) =
     obind (part_payload ss part) (\<lambda>payload.
     (case events_send enc es (Data (chunk_data ss part payload)) of
        (es, Inl e) \<Rightarrow> Ret (ss, es, Inl e)
      | (es, Inr _) \<Rightarrow>
          obind (u64_add prof (ss_seq ss) 1) (\<lambda>seq.
          obind (u64_add prof (ss_first_sample ss) (part_samples ss part)) (\<lambda>first.
          send_parts prof enc (ss\<lparr>ss_seq := seq, ss_first_sample := first\<rparr>) es parts))))"

definition stream_send ::
  "profile \<Rightarrow> (event_msg \<Rightarrow> bytes) \<Rightarrow> stream_sender \<Rightarrow> events \<Rightarrow> bytes \<Rightarrow>
   (stream_sender \<times> events \<times> unit result) outcome" where
  "stream_send prof enc ss es packed =
     (let chunk = chunk_size (ss_unitsize ss) in
      if chunk = 0 then Panic ChunkSizeZero
      else send_parts prof enc ss es (chunks (unat chunk) packed))"

section \<open>The contract of the running flag\<close>

locale run_flag =
  fixes running :: "'e \<Rightarrow> bool"
    and set_flag :: "'e \<Rightarrow> bool \<Rightarrow> 'e"
    and push :: "'e \<Rightarrow> event \<Rightarrow> 'e"
  assumes running_set: "running (set_flag es b) = b"
    and running_push: "running (push es ev) \<longleftrightarrow> running es \<and> \<not> ends_capture ev"
begin

lemma running_fold:
  "running (fold (\<lambda>ev es. push es ev) evs es) \<longleftrightarrow> running es \<and> \<not> list_ex ends_capture evs"
  by (induction evs arbitrary: es) (auto simp: running_push)

lemma stays_stopped: "\<not> running es \<Longrightarrow> \<not> running (fold (\<lambda>ev es. push es ev) evs es)"
  by (simp add: running_fold)

lemma start_then_push:
  "running (fold (\<lambda>ev es. push es ev) evs (set_flag es True)) \<longleftrightarrow> \<not> list_ex ends_capture evs"
  by (simp add: running_fold running_set)

end

lemma events_send_running [simp]:
  "ev_running (fst (events_send enc es ev)) \<longleftrightarrow> ev_running es \<and> \<not> ends_capture ev"
  by (auto simp: events_send_def Let_def set_running_def split: prod.splits)

interpretation flag: run_flag is_running set_running "\<lambda>es ev. fst (events_send enc es ev)" for enc
  by unfold_locales (simp_all add: is_running_def set_running_def)

section \<open>The contract of a sample codec\<close>

text \<open>
  A codec of packed samples: what it writes for whole samples it reads back, and it
  adds at most one byte per sample.
\<close>

definition whole_samples :: "usize \<Rightarrow> bytes \<Rightarrow> bool" where
  "whole_samples u part \<longleftrightarrow> length part \<le> isize_max \<and> unat u dvd length part"

locale sample_codec =
  fixes enc :: "bytes \<Rightarrow> usize \<Rightarrow> bytes outcome"
    and dec :: "bytes \<Rightarrow> usize \<Rightarrow> u64 \<Rightarrow> bytes result outcome"
  assumes part_roundtrip: "\<lbrakk>u \<noteq> 0; whole_samples u part\<rbrakk> \<Longrightarrow>
      \<exists>payload. enc part u = Ret payload
        \<and> dec payload u (of_nat (length part div unat u)) = Ret (Inr part)
        \<and> length payload \<le> length part + length part div unat u"
begin

lemma encoded:
  assumes "u \<noteq> 0" "whole_samples u part"
  obtains payload where "enc part u = Ret payload"
    "dec payload u (of_nat (length part div unat u)) = Ret (Inr part)"
  using part_roundtrip [OF assms] by blast

lemma encode_total:
  assumes "u \<noteq> 0" "whole_samples u part"
  shows "enc part u \<noteq> Panic p"
  using part_roundtrip [OF assms] by auto

lemma payload_bound:
  "\<lbrakk>u \<noteq> 0; whole_samples u part; enc part u = Ret payload; length part \<le> m\<rbrakk> \<Longrightarrow>
   length payload \<le> 2 * m"
proof -
  assume h: "u \<noteq> 0" "whole_samples u part" "enc part u = Ret payload" "length part \<le> m"
  from part_roundtrip [OF h(1,2)] h(3) have "length payload \<le> length part + length part div unat u"
    by auto
  also have "\<dots> \<le> m + m" using h(4) by (intro add_mono) (auto intro: order_trans [OF div_le_dividend])
  finally show ?thesis by simp
qed

end

interpretation packed_codec: sample_codec "\<lambda>part _. Ret part" "\<lambda>payload _ _. Ret (Inr payload)"
  by unfold_locales simp

interpretation transition_codec: sample_codec encode_transition "decode_transition prof" for prof
proof
  fix u :: usize and part :: bytes
  assume u: "u \<noteq> 0" and part: "whole_samples u part"
  then have len: "length part \<le> isize_max" and dvd: "unat u dvd length part"
    by (simp_all add: whole_samples_def)
  obtain payload where p: "encode_transition part u = Ret payload"
    by (rule encode_transition_runs [OF u len]) blast
  then show "\<exists>payload. encode_transition part u = Ret payload
        \<and> decode_transition prof payload u (of_nat (length part div unat u)) = Ret (Inr part)
        \<and> length payload \<le> length part + length part div unat u"
    using decode_encoded [OF u len, of prof] encode_length [OF u len p] dvd by simp
qed

section \<open>What a sender puts on the stream\<close>

definition advance :: "stream_sender \<Rightarrow> bytes \<Rightarrow> stream_sender" where
  "advance ss part =
     ss\<lparr>ss_seq := ss_seq ss + 1, ss_first_sample := ss_first_sample ss + part_samples ss part\<rparr>"

text \<open>The chunks of a list of parts, in the order of the parts.\<close>

primrec stream_chunks :: "stream_sender \<Rightarrow> bytes list \<Rightarrow> capture_data list outcome" where
  "stream_chunks ss [] = Ret []"
| "stream_chunks ss (part # parts) =
     obind (part_payload ss part) (\<lambda>payload.
     obind (stream_chunks (advance ss part) parts) (\<lambda>ds.
     Ret (chunk_data ss part payload # ds)))"

lemma advance_simps [simp]:
  "ss_capture_id (advance ss part) = ss_capture_id ss"
  "ss_acquisition (advance ss part) = ss_acquisition ss"
  "ss_stream (advance ss part) = ss_stream ss"
  "ss_unitsize (advance ss part) = ss_unitsize ss"
  "ss_encoding (advance ss part) = ss_encoding ss"
  "ss_seq (advance ss part) = ss_seq ss + 1"
  by (simp_all add: advance_def)

lemma fold_advance_seq: "ss_seq (fold (\<lambda>p ss. advance ss p) parts ss) = ss_seq ss + of_nat (length parts)"
  by (induction parts arbitrary: ss) (simp_all add: add.assoc)

lemma part_payload_simps [simp]:
  "part_payload (advance ss p) part = part_payload ss part"
  "part_samples (advance ss p) part = part_samples ss part"
  by (simp_all add: part_payload_def part_samples_def split: sample_encoding.splits)

text \<open>The stream messages of a list of chunks.\<close>

definition data_msgs :: "(event_msg \<Rightarrow> bytes) \<Rightarrow> capture_data list \<Rightarrow> bytes list" where
  "data_msgs enc ds = map (\<lambda>d. enc \<lparr>ev_event = Some (Data d)\<rparr>) ds"

lemma data_msgs_simps [simp]:
  "data_msgs enc [] = []"
  "data_msgs enc (d # ds) = enc \<lparr>ev_event = Some (Data d)\<rparr> # data_msgs enc ds"
  by (simp_all add: data_msgs_def)

lemma events_send_data:
  obtains (sent) es' where "events_send enc es (Data d) = (es', Inr ())"
    "sk_sent (ev_socket es') = sk_sent (ev_socket es) @ [enc \<lparr>ev_event = Some (Data d)\<rparr>]"
    "ev_running es' = ev_running es"
  | (failed) es' e where "events_send enc es (Data d) = (es', Inl (Nng e))"
    "sk_sent (ev_socket es') = sk_sent (ev_socket es)"
    "ev_running es' = ev_running es"
  by (rule send_cases [of enc "ev_socket es" "\<lparr>ev_event = Some (Data d)\<rparr>"])
    (auto simp: events_send_def)

text \<open>
  Whatever the socket does, the messages sent are a prefix of the chunks, and the
  sender's counters have moved past exactly that prefix.
\<close>

lemma send_parts_prefix:
  "\<lbrakk>send_parts prof enc ss es parts = Ret (ss', es', r); stream_chunks ss parts = Ret ds\<rbrakk> \<Longrightarrow>
   \<exists>k \<le> length parts.
     sk_sent (ev_socket es') = sk_sent (ev_socket es) @ data_msgs enc (take k ds)
     \<and> ss' = fold (\<lambda>p ss. advance ss p) (take k parts) ss
     \<and> ev_running es' = ev_running es
     \<and> (r = Inr () \<longleftrightarrow> k = length parts) \<and> (\<forall>e. r = Inl e \<longrightarrow> (\<exists>n. e = Nng n))"
proof (induction parts arbitrary: ss es ds)
  case Nil
  then show ?case by auto
next
  case (Cons part parts)
  from Cons.prems(2) obtain payload ds' where p: "part_payload ss part = Ret payload"
    and ds': "stream_chunks (advance ss part) parts = Ret ds'"
    and ds: "ds = chunk_data ss part payload # ds'"
    by (auto simp: return_iff)
  show ?case
  proof (rule events_send_data [of enc es "chunk_data ss part payload"])
    fix es1 e
    assume "events_send enc es (Data (chunk_data ss part payload)) = (es1, Inl (Nng e))"
      "sk_sent (ev_socket es1) = sk_sent (ev_socket es)" "ev_running es1 = ev_running es"
    with Cons.prems(1) p show ?thesis by (intro exI [of _ 0]) auto
  next
    fix es1
    assume sent: "events_send enc es (Data (chunk_data ss part payload)) = (es1, Inr ())"
      "sk_sent (ev_socket es1)
        = sk_sent (ev_socket es) @ [enc \<lparr>ev_event = Some (Data (chunk_data ss part payload))\<rparr>]"
      "ev_running es1 = ev_running es"
    with Cons.prems(1) p
    have "send_parts prof enc (advance ss part) es1 parts = Ret (ss', es', r)"
      by (auto simp: return_iff u64_add_def advance_def split: if_splits)
    from Cons.IH [OF this ds'] obtain k where k: "k \<le> length parts"
      "sk_sent (ev_socket es') = sk_sent (ev_socket es1) @ data_msgs enc (take k ds')"
      "ss' = fold (\<lambda>p ss. advance ss p) (take k parts) (advance ss part)"
      "ev_running es' = ev_running es1"
      "r = Inr () \<longleftrightarrow> k = length parts" "\<forall>e. r = Inl e \<longrightarrow> (\<exists>n. e = Nng n)"
      by blast
    with sent ds show ?thesis by (intro exI [of _ "Suc k"]) simp
  qed
qed


section \<open>Chunk boundaries\<close>

lemma unat_MAX_PAYLOAD: "unat MAX_PAYLOAD = 2 ^ 20"
  by (simp add: MAX_PAYLOAD_def)

lemma chunk_size_facts:
  assumes "u \<noteq> 0"
  shows "unat (chunk_size u) = 2 ^ 20 - 2 ^ 20 mod unat u"
    and "unat (chunk_size u) \<le> 2 ^ 20"
    and "unat u dvd unat (chunk_size u)"
    and "unat u \<le> 2 ^ 20 \<Longrightarrow> chunk_size u \<noteq> 0"
proof -
  have m: "unat (MAX_PAYLOAD mod u) = 2 ^ 20 mod unat u"
    by (simp only: unat_mod_distrib unat_MAX_PAYLOAD)
  then have "MAX_PAYLOAD mod u \<le> MAX_PAYLOAD"
    by (simp only: word_le_nat_alt unat_MAX_PAYLOAD) simp
  then show sz: "unat (chunk_size u) = 2 ^ 20 - 2 ^ 20 mod unat u"
    by (simp only: chunk_size_def unat_sub m unat_MAX_PAYLOAD)
  then show "unat (chunk_size u) \<le> 2 ^ 20" by (simp only: sz diff_le_self)
  show "unat u dvd unat (chunk_size u)" by (simp only: sz dvd_minus_mod)
  show "chunk_size u \<noteq> 0" if "unat u \<le> 2 ^ 20"
  proof -
    have "0 < unat u" using assms by (simp add: unat_gt_0)
    then have "2 ^ 20 mod unat u < 2 ^ 20"
      using that by (intro less_le_trans [OF mod_less_divisor])
    then have "0 < unat (chunk_size u)" by (simp only: sz zero_less_diff)
    then show ?thesis by auto
  qed
qed

lemma chunks_dvd:
  "\<lbrakk>n \<noteq> 0; u dvd n; u dvd length xs; c \<in> set (chunks n xs)\<rbrakk> \<Longrightarrow> u dvd length c"
proof (induction n xs rule: chunks.induct)
  case (1 n xs)
  show ?case
  proof (cases "xs = []")
    case False
    from "1.prems"(3) have "u dvd length (drop n xs)"
      using "1.prems"(2) by (cases "n \<le> length xs") (simp_all add: dvd_diff_nat)
    with 1 False show ?thesis
      by (auto simp: chunks.simps [of n xs] min_def)
  qed (use "1.prems" in simp)
qed

lemma chunks_whole:
  assumes "u \<noteq> 0" "unat u \<le> 2 ^ 20" "whole_samples u packed"
  shows "list_all (whole_samples u) (chunks (unat (chunk_size u)) packed)"
    and "concat (chunks (unat (chunk_size u)) packed) = packed"
    and "list_all (\<lambda>part. length part \<le> 2 ^ 20) (chunks (unat (chunk_size u)) packed)"
proof -
  let ?n = "unat (chunk_size u)"
  from chunk_size_facts(4) [OF assms(1,2)] have n: "?n \<noteq> 0" by (simp add: unat_eq_0)
  show cat: "concat (chunks ?n packed) = packed" by (rule concat_chunks [OF n])
  have small: "length c \<le> 2 ^ 20" if "c \<in> set (chunks ?n packed)" for c
    using chunks_bound [OF that] chunk_size_facts(2) [OF assms(1)] by linarith
  then show "list_all (\<lambda>part. length part \<le> 2 ^ 20) (chunks ?n packed)"
    by (simp add: list_all_iff)
  have big: "2 ^ 20 \<le> isize_max" by (simp add: isize_max_def)
  have "length c \<le> isize_max" if "c \<in> set (chunks ?n packed)" for c
    by (rule order_trans [OF small [OF that] big])
  then show "list_all (whole_samples u) (chunks ?n packed)"
    using chunks_dvd [OF n chunk_size_facts(3) [OF assms(1)]] assms(3)
    by (auto simp: list_all_iff whole_samples_def)
qed

section \<open>The receiving end\<close>

text \<open>
  A receiver of one stream: it insists on consecutive \<open>seq\<close>, on \<open>first_sample\<close>
  advancing by the samples received, and on a truthful \<open>decoded_len\<close>, and collects
  what \<open>decode_payload\<close> makes of each chunk.
\<close>

fun drain :: "profile \<Rightarrow> usize \<Rightarrow> u64 \<Rightarrow> u64 \<Rightarrow> capture_data list \<Rightarrow> bytes option" where
  "drain prof u seq first [] = Some []"
| "drain prof u seq first (d # ds) =
     (if cd_seq d = seq \<and> cd_first_sample d = first
         \<and> cd_decoded_len d = of_nat (length (cd_payload d))
      then (case decode_payload prof d u of
              Ret (Inr c) \<Rightarrow>
                map_option (append (cow_bytes c))
                  (drain prof u (seq + 1) (first + cd_sample_count d) ds)
            | _ \<Rightarrow> None)
      else None)"

definition sender_ok :: "stream_sender \<Rightarrow> bool" where
  "sender_ok ss \<longleftrightarrow> ss_unitsize ss \<noteq> 0 \<and> ss_encoding ss \<in> {Packed, Transition}"

lemma sender_ok_advance [simp]: "sender_ok (advance ss part) = sender_ok ss"
  by (simp add: sender_ok_def)

lemma part_payload_chunk:
  assumes "sender_ok ss" "whole_samples (ss_unitsize ss) part"
  obtains payload where "part_payload ss part = Ret payload"
    "\<exists>c. decode_payload prof (chunk_data ss part payload) (ss_unitsize ss) = Ret (Inr c)
       \<and> cow_bytes c = part"
    "\<forall>m. length part \<le> m \<longrightarrow> length payload \<le> 2 * m"
proof (cases "ss_encoding ss")
  case Packed
  with that [of part] show thesis
    by (simp add: part_payload_def decode_payload_def chunk_data_def codec_try_from_def
        sample_encoding_try_from_def)
next
  case Transition
  from assms have u: "ss_unitsize ss \<noteq> 0" by (simp add: sender_ok_def)
  obtain payload where p: "encode_transition part (ss_unitsize ss) = Ret payload"
    "decode_transition prof payload (ss_unitsize ss) (part_samples ss part) = Ret (Inr part)"
    by (rule transition_codec.encoded [OF u assms(2)]) (simp add: part_samples_def)
  with that [of payload] Transition transition_codec.payload_bound [OF u assms(2) p(1)] show thesis
    by (simp add: part_payload_def decode_payload_def chunk_data_def codec_try_from_def
        sample_encoding_try_from_def)
next
  case EncodingUnspecified
  with assms show thesis by (simp add: sender_ok_def)
qed

lemma stream_chunks_drain:
  "\<lbrakk>sender_ok ss; list_all (whole_samples (ss_unitsize ss)) parts;
    list_all (\<lambda>part. length part \<le> m) parts\<rbrakk> \<Longrightarrow>
   \<exists>ds. stream_chunks ss parts = Ret ds \<and> length ds = length parts
     \<and> drain prof (ss_unitsize ss) (ss_seq ss) (ss_first_sample ss) ds = Some (concat parts)
     \<and> list_all (\<lambda>d. length (cd_payload d) \<le> 2 * m) ds"
proof (induction parts arbitrary: ss)
  case (Cons part parts)
  from Cons.prems(2) have "whole_samples (ss_unitsize ss) part" by simp
  then obtain payload where "part_payload ss part = Ret payload"
    "\<exists>c. decode_payload prof (chunk_data ss part payload) (ss_unitsize ss) = Ret (Inr c)
       \<and> cow_bytes c = part"
    "\<forall>m. length part \<le> m \<longrightarrow> length payload \<le> 2 * m"
    by (rule part_payload_chunk [OF Cons.prems(1)])
  then obtain c where p: "part_payload ss part = Ret payload"
    "decode_payload prof (chunk_data ss part payload) (ss_unitsize ss) = Ret (Inr c)"
    "cow_bytes c = part" "\<forall>m. length part \<le> m \<longrightarrow> length payload \<le> 2 * m"
    by blast
  from Cons.IH [of "advance ss part"] Cons.prems obtain ds where
    "stream_chunks (advance ss part) parts = Ret ds" "length ds = length parts"
    "drain prof (ss_unitsize ss) (ss_seq ss + 1) (ss_first_sample (advance ss part)) ds
       = Some (concat parts)"
    "list_all (\<lambda>d. length (cd_payload d) \<le> 2 * m) ds"
    by auto
  with p Cons.prems(3) show ?case
    by (simp add: chunk_data_def advance_def)
qed simp


section \<open>A send that meets no obstacle\<close>

lemma fold_advance_first:
  assumes "list_all (whole_samples (ss_unitsize ss)) parts"
  shows "ss_first_sample (fold (\<lambda>p ss. advance ss p) parts ss)
    = ss_first_sample ss + of_nat (length (concat parts) div unat (ss_unitsize ss))"
  using assms
proof (induction parts arbitrary: ss)
  case (Cons part parts)
  then have "unat (ss_unitsize ss) dvd length part" by (simp add: whole_samples_def)
  then have "length (concat (part # parts)) div unat (ss_unitsize ss)
      = length part div unat (ss_unitsize ss) + length (concat parts) div unat (ss_unitsize ss)"
    by (simp add: div_plus_div_distrib_dvd_left)
  with Cons show ?case by (simp add: advance_def part_samples_def)
qed simp

text \<open>The counters stay in range, or the build does not check.\<close>

definition counters_fit :: "profile \<Rightarrow> stream_sender \<Rightarrow> bytes \<Rightarrow> bool" where
  "counters_fit prof ss packed \<longleftrightarrow> prof = Release
     \<or> unat (ss_seq ss) + length packed < 2 ^ 64 \<and> unat (ss_first_sample ss) + length packed < 2 ^ 64"

lemma counters_fit_step:
  assumes "counters_fit prof ss (part @ packed)" "part \<noteq> []"
  shows "u64_add prof (ss_seq ss) 1 = Ret (ss_seq ss + 1)"
    and "u64_add prof (ss_first_sample ss) (part_samples ss part)
      = Ret (ss_first_sample ss + part_samples ss part)"
    and "counters_fit prof (advance ss part) packed"
proof -
  have len: "1 \<le> length part" using assms(2) by (cases part) auto
  have le: "unat (part_samples ss part) \<le> length part"
    unfolding part_samples_def unat_of_nat
    by (rule order_trans [OF mod_less_eq_dividend div_le_dividend])
  show "u64_add prof (ss_seq ss) 1 = Ret (ss_seq ss + 1)"
    using assms(1) len by (auto simp: counters_fit_def u64_add_def)
  show "u64_add prof (ss_first_sample ss) (part_samples ss part)
      = Ret (ss_first_sample ss + part_samples ss part)"
    using assms(1) le by (auto simp: counters_fit_def u64_add_def)
  show "counters_fit prof (advance ss part) packed"
  proof (cases prof)
    case Debug
    with assms(1) have b: "unat (ss_seq ss) + (length part + length packed) < 2 ^ 64"
      "unat (ss_first_sample ss) + (length part + length packed) < 2 ^ 64"
      by (auto simp: counters_fit_def)
    have "unat (ss_seq ss + 1) = unat (ss_seq ss) + 1"
      using b len by (intro trans [OF unat_add_exact]) auto
    moreover have "unat (ss_first_sample ss + part_samples ss part)
        = unat (ss_first_sample ss) + unat (part_samples ss part)"
      using b le by (intro unat_add_exact) linarith
    ultimately show ?thesis
      using b len le by (simp add: counters_fit_def advance_def)
  qed (simp add: counters_fit_def)
qed

lemma send_parts_ok:
  "\<lbrakk>stream_chunks ss parts = Ret ds; sk_faults (ev_socket es) = [];
    counters_fit prof ss (concat parts); list_all (\<lambda>p. p \<noteq> []) parts\<rbrakk> \<Longrightarrow>
   \<exists>es'. send_parts prof enc ss es parts
     = Ret (fold (\<lambda>p ss. advance ss p) parts ss, es', Inr ())"
proof (induction parts arbitrary: ss es ds)
  case (Cons part parts)
  from Cons.prems(1) obtain payload ds' where p: "part_payload ss part = Ret payload"
    and ds': "stream_chunks (advance ss part) parts = Ret ds'"
    by (auto simp: return_iff)
  obtain es1 where e: "events_send enc es (Data (chunk_data ss part payload)) = (es1, Inr ())"
    "sk_faults (ev_socket es1) = []"
    using Cons.prems(2) by (simp add: events_send_def send_def sock_send_def)
  from Cons.prems(3,4) have "counters_fit prof ss (part @ concat parts)" "part \<noteq> []" by simp_all
  note step = counters_fit_step [OF this]
  from Cons.IH [OF ds' e(2) step(3)] Cons.prems(4) p e step show ?case
    by (auto simp: advance_def)
qed simp

section \<open>Properties\<close>

definition example_sender :: stream_sender where
  "example_sender = \<lparr>ss_capture_id = 7, ss_acquisition = 0, ss_stream = 0, ss_unitsize = 2,
     ss_encoding = Transition, ss_seq = 5, ss_first_sample = 100\<rparr>"

definition quiet_socket :: socket where
  "quiet_socket = \<lparr>sk_inbox = [], sk_faults = [], sk_sent = []\<rparr>"

text \<open>
  C5. The stream a sender produces reassembles.  With a unit size that fits a
  payload, whole samples, and a socket that takes every message, \<open>send\<close> returns;
  what it pushed is a list of chunks from which a receiver that checks \<open>seq\<close>,
  \<open>first_sample\<close> and \<open>decoded_len\<close> gets back exactly the samples, in either
  encoding and either build; no payload exceeds twice \<open>MAX_PAYLOAD\<close>; and the
  counters stand where the next call has to go on.
\<close>

theorem stream_reassembles:
  assumes "sender_ok ss" and "unat (ss_unitsize ss) \<le> 2 ^ 20"
    and "whole_samples (ss_unitsize ss) packed" and "counters_fit prof ss packed"
    and "sk_faults (ev_socket es) = []"
  shows "\<exists>ss' es' ds. stream_send prof enc ss es packed = Ret (ss', es', Inr ())
    \<and> sk_sent (ev_socket es') = sk_sent (ev_socket es) @ data_msgs enc ds
    \<and> drain prof (ss_unitsize ss) (ss_seq ss) (ss_first_sample ss) ds = Some packed
    \<and> list_all (\<lambda>d. length (cd_payload d) \<le> 2 * unat MAX_PAYLOAD) ds
    \<and> ss_seq ss' = ss_seq ss + of_nat (length ds)
    \<and> ss_first_sample ss' = ss_first_sample ss + of_nat (length packed div unat (ss_unitsize ss))
    \<and> is_running es' = is_running es"
proof -
  let ?u = "ss_unitsize ss"
  let ?parts = "chunks (unat (chunk_size ?u)) packed"
  from assms(1) have u: "?u \<noteq> 0" by (simp add: sender_ok_def)
  note whole = chunks_whole [OF u assms(2,3)]
  obtain ds where ds: "stream_chunks ss ?parts = Ret ds" "length ds = length ?parts"
    "drain prof ?u (ss_seq ss) (ss_first_sample ss) ds = Some packed"
    "list_all (\<lambda>d. length (cd_payload d) \<le> 2 * 2 ^ 20) ds"
    using stream_chunks_drain [OF assms(1) whole(1,3), of prof] whole(2) by auto
  have "list_all (\<lambda>p. p \<noteq> []) ?parts"
    using chunks_bound [of _ "unat (chunk_size ?u)" packed] by (fastforce simp: list_all_iff)
  then obtain es' where ok: "send_parts prof enc ss es ?parts
      = Ret (fold (\<lambda>p ss. advance ss p) ?parts ss, es', Inr ())"
    using send_parts_ok [OF ds(1) assms(5), of prof enc] assms(4) whole(2) by auto
  from send_parts_prefix [OF ok ds(1)] ds(2)
  have "sk_sent (ev_socket es') = sk_sent (ev_socket es) @ data_msgs enc ds"
    "ev_running es' = ev_running es" by auto
  with ok ds chunk_size_facts(4) [OF u assms(2)] fold_advance_first [OF whole(1)] whole(2)
  show ?thesis
    by (intro exI [of _ "fold (\<lambda>p ss. advance ss p) ?parts ss"] exI [of _ es'] exI [of _ ds])
      (simp add: stream_send_def Let_def fold_advance_seq is_running_def unat_MAX_PAYLOAD)
qed

theorem stream_reassembles_witness:
  "\<exists>ss' es' ds. stream_send Debug (\<lambda>_. []) example_sender (new_events quiet_socket) [1, 2, 1, 2, 3, 4]
       = Ret (ss', es', Inr ())
     \<and> drain Debug 2 5 100 ds = Some [1, 2, 1, 2, 3, 4] \<and> ss_first_sample ss' = 103"
proof -
  have "sender_ok example_sender" "unat (ss_unitsize example_sender) \<le> 2 ^ 20"
    "whole_samples (ss_unitsize example_sender) [1, 2, 1, 2, 3, 4]"
    "counters_fit Debug example_sender [1, 2, 1, 2, 3, 4]"
    "sk_faults (ev_socket (new_events quiet_socket)) = []"
    by (simp_all add: sender_ok_def example_sender_def whole_samples_def isize_max_def
        counters_fit_def new_events_def quiet_socket_def)
  from stream_reassembles [OF this, of "\<lambda>_. []"] show ?thesis
    by (auto simp: example_sender_def)
qed

text \<open>
  C3. The sequence survives a failing socket.  Wherever a push fails, what went out
  is a prefix of the chunks of the call, \<open>send\<close> reports the transport's error
  exactly if chunks are missing, and the sender has counted exactly the chunks that
  went out, so that its next chunk leaves no gap and repeats no number.
\<close>

theorem failed_send_keeps_sequence:
  assumes "stream_send prof enc ss es packed = Ret (ss', es', r)"
    and "stream_chunks ss (chunks (unat (chunk_size (ss_unitsize ss))) packed) = Ret ds"
  shows "\<exists>k \<le> length (chunks (unat (chunk_size (ss_unitsize ss))) packed).
     sk_sent (ev_socket es') = sk_sent (ev_socket es) @ data_msgs enc (take k ds)
     \<and> ss_seq ss' = ss_seq ss + of_nat k \<and> is_running es' = is_running es
     \<and> (r = Inr () \<longleftrightarrow> k = length (chunks (unat (chunk_size (ss_unitsize ss))) packed))
     \<and> (\<forall>e. r = Inl e \<longrightarrow> (\<exists>n. e = Nng n))"
proof -
  from assms(1) have "send_parts prof enc ss es (chunks (unat (chunk_size (ss_unitsize ss))) packed)
      = Ret (ss', es', r)"
    by (auto simp: stream_send_def Let_def split: if_splits)
  from send_parts_prefix [OF this assms(2)] show ?thesis
    by (auto simp: fold_advance_seq is_running_def)
qed

theorem failed_send_keeps_sequence_witness:
  "\<exists>k \<le> 1. sk_sent (ev_socket (new_events (quiet_socket\<lparr>sk_faults := []\<rparr>)))
       = data_msgs (\<lambda>_. []) (take k [chunk_data (example_sender\<lparr>ss_encoding := Packed\<rparr>) [1, 2] [1, 2]])
     \<and> (Inl (Nng Closed) = (Inr () :: unit result) \<longleftrightarrow> k = 1)"
proof -
  let ?ss = "example_sender\<lparr>ss_encoding := Packed\<rparr>"
  let ?es = "new_events (quiet_socket\<lparr>sk_faults := [Some Closed]\<rparr>)"
  let ?es' = "new_events (quiet_socket\<lparr>sk_faults := []\<rparr>)"
  have "unat (chunk_size 2) = 2 ^ 20" by (simp add: chunk_size_def MAX_PAYLOAD_def)
  then have parts: "chunks (unat (chunk_size (ss_unitsize ?ss))) [1, 2 :: u8] = [[1, 2]]"
    by (simp add: example_sender_def chunks.simps)
  have "stream_send Release (\<lambda>_. []) ?ss ?es [1, 2] = Ret (?ss, ?es', Inl (Nng Closed))"
    using parts
    by (simp add: stream_send_def Let_def part_payload_def events_send_def send_def sock_send_def
        new_events_def quiet_socket_def example_sender_def chunk_size_def MAX_PAYLOAD_def)
  moreover have "stream_chunks ?ss (chunks (unat (chunk_size (ss_unitsize ?ss))) [1, 2])
      = Ret [chunk_data ?ss [1, 2] [1, 2]]"
    unfolding parts by (simp add: part_payload_def example_sender_def)
  ultimately show ?thesis
    using failed_send_keeps_sequence [of Release "\<lambda>_. []" ?ss ?es "[1, 2]" ?ss ?es' "Inl (Nng Closed)"]
    unfolding parts by (auto simp: new_events_def quiet_socket_def)
qed

text \<open>
  A unit size above \<open>MAX_PAYLOAD\<close>, which the constructor accepts, makes the
  chunk size zero, and every \<open>send\<close> panics.
\<close>

lemma oversized_unit_panics:
  assumes "2 ^ 20 < unat unitsize"
  shows "\<exists>ss. new_sender c a s unitsize = Ret ss
    \<and> stream_send prof enc ss es packed = Panic ChunkSizeZero
    \<and> stream_send prof enc (transition ss) es packed = Panic ChunkSizeZero"
proof -
  from assms have u: "unitsize \<noteq> 0" by auto
  have "unat (chunk_size unitsize) = 0"
    using assms by (simp only: chunk_size_facts(1) [OF u] mod_less diff_self_eq_0)
  then have "chunk_size unitsize = 0" by (simp add: unat_eq_0)
  with u show ?thesis
    by (simp add: new_sender_def stream_send_def transition_def)
qed

lemma oversized_unit_panics_witness:
  "\<exists>ss. new_sender 1 0 0 (2 ^ 20 + 1) = Ret ss
     \<and> stream_send Release (\<lambda>_. []) ss (new_events quiet_socket) [1] = Panic ChunkSizeZero"
proof -
  have "2 ^ 20 < unat (2 ^ 20 + 1 :: usize)" by simp
  from oversized_unit_panics [OF this] show ?thesis by blast
qed

text \<open>
  The end of a capture is recorded before it is announced: pushing
  \<open>CaptureEnd\<close> or \<open>DeviceLost\<close> clears the running flag even when the socket
  refuses the message, and no other event touches it.
\<close>

lemma events_flag:
  "is_running (fst (events_send enc es ev)) \<longleftrightarrow>
     is_running es \<and> (\<nexists>e. ev = CaptureEnd e) \<and> (\<nexists>d. ev = DeviceLost d)"
  using flag.running_push [of enc es ev] by (cases ev) auto

end
