(* ===== verification/OCP_Server.thy ===== *)
theory OCP_Server
  imports OCP_Prelude OCP_Proto OCP_Error OCP_Encoding OCP_Args OCP_Transport OCP_Events
begin

text \<open>
  \<open>rust/openmso/src/server/mod.rs\<close>: the control loop of a plugin process and its
  state machine.
\<close>

section \<open>The plugin\<close>

text \<open>
  \<open>trait CaptureServer\<close>: what a plugin author writes, over a plugin state \<open>'p\<close>.  A
  handler returns the new state, the events that are pushed while it runs, by
  itself or by an acquisition thread, and its reply.
\<close>

type_synonym ('p, 'r) handler_result = "'p \<times> event list \<times> 'r reply"

record 'p capture_server =
  on_hello :: "'p \<Rightarrow> hello \<Rightarrow> ('p, hello_result) handler_result"
  on_describe :: "'p \<Rightarrow> ('p, description) handler_result"
  on_get_config :: "'p \<Rightarrow> ('p, config) handler_result"
  on_set_config :: "'p \<Rightarrow> config \<Rightarrow> ('p, config) handler_result"
  on_acquire_start :: "'p \<Rightarrow> acquire_start \<Rightarrow> ('p, unit) handler_result"
  on_acquire_stop :: "'p \<Rightarrow> acquire_stop \<Rightarrow> ('p, unit) handler_result"
  on_reset :: "'p \<Rightarrow> ('p, unit) handler_result"
  on_shutdown :: "'p \<Rightarrow> 'p \<times> event list"

definition default_reset :: "'p \<Rightarrow> ('p, unit) handler_result" where
  "default_reset p = (p, [], Inr ())"

definition default_shutdown :: "'p \<Rightarrow> 'p \<times> event list" where
  "default_shutdown p = (p, [])"

text \<open>The generated codecs of the wire messages, and the text of a decoding error.\<close>

record wire =
  enc_request :: "request_msg \<Rightarrow> bytes"
  dec_request :: "bytes \<Rightarrow> decode_error + request_msg"
  enc_response :: "response_msg \<Rightarrow> bytes"
  dec_response :: "bytes \<Rightarrow> decode_error + response_msg"
  enc_event :: "event_msg \<Rightarrow> bytes"
  dec_event :: "bytes \<Rightarrow> decode_error + event_msg"
  decode_text :: "decode_error \<Rightarrow> string"

record 'p server =
  srv_plugin :: 'p
  srv_events :: events
  srv_greeted :: bool

section \<open>Answering one request\<close>

definition push_events :: "wire \<Rightarrow> event list \<Rightarrow> events \<Rightarrow> events" where
  "push_events w evs es = fold (\<lambda>ev es. fst (events_send (enc_event w) es ev)) evs es"

definition call ::
  "wire \<Rightarrow> 'p server \<Rightarrow> ('p, 'r) handler_result \<Rightarrow> ('r \<Rightarrow> response) \<Rightarrow> 'p server \<times> response reply" where
  "call w s result arm =
     (case result of (p, evs, r) \<Rightarrow>
        (s\<lparr>srv_plugin := p, srv_events := push_events w evs (srv_events s)\<rparr>, map_ok arm r))"

definition set_srv_running :: "'p server \<Rightarrow> bool \<Rightarrow> 'p server" where
  "set_srv_running s running = s\<lparr>srv_events := set_running (srv_events s) running\<rparr>"

abbreviation srv_running :: "'p server \<Rightarrow> bool" where
  "srv_running s \<equiv> is_running (srv_events s)"

fun is_hello :: "request \<Rightarrow> bool" where
  "is_hello (ReqHello _) = True"
| "is_hello _ = False"

definition busy :: proto_error where
  "busy = proto_error_busy ''acquisition in progress''"

definition dispatch ::
  "wire \<Rightarrow> 'p capture_server \<Rightarrow> 'p server \<Rightarrow> request option \<Rightarrow> 'p server \<times> response reply" where
  "dispatch w h s request =
     (case request of
        None \<Rightarrow> (s, Inl (proto_error_invalid ''request carries no payload''))
      | Some request \<Rightarrow>
     if \<not> srv_greeted s \<and> \<not> is_hello request
     then (s, Inl (proto_error_invalid ''Hello must be the first request''))
     else (case request of
        ReqHello req \<Rightarrow>
          if srv_greeted s then (s, Inl (proto_error_invalid ''Hello has already been answered''))
          else (case call w s (on_hello h (srv_plugin s) req) RespHello of
                  (s, Inl e) \<Rightarrow> (s, Inl e)
                | (s, Inr result) \<Rightarrow> (s\<lparr>srv_greeted := True\<rparr>, Inr result))
      | ReqDescribe \<Rightarrow>
          if srv_running s then (s, Inl busy)
          else call w s (on_describe h (srv_plugin s)) RespDescribe
      | ReqGetConfig \<Rightarrow>
          if srv_running s then (s, Inl busy)
          else call w s (on_get_config h (srv_plugin s)) RespGetConfig
      | ReqSetConfig req \<Rightarrow>
          if srv_running s then (s, Inl busy)
          else call w s (on_set_config h (srv_plugin s) (unwrap_or (sc_config req) default_config))
                 RespSetConfig
      | ReqAcquireStart req \<Rightarrow>
          if srv_running s then (s, Inl busy)
          else (case call w (set_srv_running s True) (on_acquire_start h (srv_plugin s) req)
                       (\<lambda>_. RespAcquireStart) of
                  (s, Inl e) \<Rightarrow> (set_srv_running s False, Inl e)
                | (s, Inr result) \<Rightarrow> (s, Inr result))
      | ReqAcquireStop req \<Rightarrow>
          if srv_running s
          then call w s (on_acquire_stop h (srv_plugin s) req) (\<lambda>_. RespAcquireStop)
          else (s, Inr RespAcquireStop)
      | ReqReset \<Rightarrow>
          (case call w s (on_reset h (srv_plugin s)) (\<lambda>_. RespReset) of
             (s, Inl e) \<Rightarrow> (s, Inl e)
           | (s, Inr result) \<Rightarrow> (set_srv_running s False, Inr result))
      | ReqShutdown \<Rightarrow> (s, Inr RespShutdown)))"

section \<open>The control loop\<close>

fun is_closed :: "nng_error \<Rightarrow> bool" where
  "is_closed Closed = True"
| "is_closed ConnectionReset = True"
| "is_closed ConnectionAborted = True"
| "is_closed (OtherNng _) = False"

definition is_shutdown :: "request option \<Rightarrow> bool" where
  "is_shutdown r \<longleftrightarrow> r = Some ReqShutdown"

definition undecodable :: "wire \<Rightarrow> decode_error \<Rightarrow> response_msg" where
  "undecodable w e =
     \<lparr>rs_seq = 0, rs_error = Some (proto_error_invalid (''undecodable request: '' @ decode_text w e)),
      rs_response = None\<rparr>"

definition make_response :: "u32 \<Rightarrow> response reply \<Rightarrow> response_msg" where
  "make_response seq outcome =
     (case outcome of
        Inr response \<Rightarrow> \<lparr>rs_seq = seq, rs_error = None, rs_response = Some response\<rparr>
      | Inl e \<Rightarrow> \<lparr>rs_seq = seq, rs_error = Some e, rs_response = None\<rparr>)"

text \<open>
  One turn of the loop: it blocks, goes round again, or \<open>serve\<close> returns.
\<close>

datatype 'p turn =
    Blocked
  | Again socket "'p server"
  | Done socket "'p server" "unit result"

definition serve_turn :: "wire \<Rightarrow> 'p capture_server \<Rightarrow> socket \<Rightarrow> 'p server \<Rightarrow> 'p turn" where
  "serve_turn w h control s =
     (case recv (dec_request w) control of
        None \<Rightarrow> Blocked
      | Some (control, Inl (Nng e)) \<Rightarrow>
          (if is_closed e then Done control s (Inr ()) else Done control s (Inl (Nng e)))
      | Some (control, Inl (Decode e)) \<Rightarrow>
          (case send (enc_response w) control (undecodable w e) of
             (control, Inl e) \<Rightarrow> Done control s (Inl e)
           | (control, Inr _) \<Rightarrow> Again control s)
      | Some (control, Inl e) \<Rightarrow> Done control s (Inl e)
      | Some (control, Inr request) \<Rightarrow>
          (case dispatch w h s (rq_request request) of (s, outcome) \<Rightarrow>
             (let response = make_response (rq_seq request) outcome in
              case send (enc_response w) control response of
                (control, Inl e) \<Rightarrow> Done control s (Inl e)
              | (control, Inr _) \<Rightarrow>
                  (if is_shutdown (rq_request request) \<and> rs_error response = None
                   then (case on_shutdown h (srv_plugin s) of (p, evs) \<Rightarrow>
                           Done control
                             (s\<lparr>srv_plugin := p, srv_events := push_events w evs (srv_events s)\<rparr>)
                             (Inr ()))
                   else Again control s))))"

lemma recv_inbox:
  "recv dec s = Some (s', r) \<Longrightarrow> length (sk_inbox s') < length (sk_inbox s)"
  by (auto simp: recv_def split: list.splits sum.splits)

lemma send_inbox: "sk_inbox (fst (send enc s m)) = sk_inbox s"
  by (rule send_cases [of enc s m]) auto

lemma serve_turn_inbox:
  "serve_turn w h control s = Again control' s' \<Longrightarrow>
   length (sk_inbox control') < length (sk_inbox control)"
  by (auto simp: serve_turn_def Let_def split: option.splits prod.splits sum.splits error.splits if_splits
      dest!: recv_inbox) (metis fst_conv send_inbox)+

datatype 'p served =
    SetupFailed error
  | Waiting socket "'p server"
  | Returned socket "'p server" "unit result"

text \<open>
  The loop runs as long as there is something to receive; each turn takes one
  message from the control socket.
\<close>

function serve_loop :: "wire \<Rightarrow> 'p capture_server \<Rightarrow> socket \<Rightarrow> 'p server \<Rightarrow> 'p served" where
  "serve_loop w h control s =
     (case serve_turn w h control s of
        Blocked \<Rightarrow> Waiting control s
      | Again control s \<Rightarrow> serve_loop w h control s
      | Done control s r \<Rightarrow> Returned control s r)"
  by pat_completeness auto
termination
  by (relation "measure (\<lambda>(w, h, control, s). length (sk_inbox control))")
    (auto dest: serve_turn_inbox)

declare serve_loop.simps [simp del]

definition new_server :: "'p \<Rightarrow> socket \<Rightarrow> 'p server" where
  "new_server p stream = \<lparr>srv_plugin = p, srv_events = new_events stream, srv_greeted = False\<rparr>"

text \<open>
  \<open>serve\<close>: both sockets are built and dialled, then the loop runs.  \<open>control\<close> and
  \<open>stream\<close> are what the two dialled sockets will report.
\<close>

definition serve ::
  "nng_env \<Rightarrow> wire \<Rightarrow> 'p capture_server \<Rightarrow> args \<Rightarrow> 'p \<Rightarrow> socket \<Rightarrow> socket \<Rightarrow> 'p served" where
  "serve nng w h a p control stream =
     (case rbind (build_socket nng Rep0) (\<lambda>_.
           rbind (try_nng (nng_dial nng Rep0 (arg_control a)) ()) (\<lambda>_.
           rbind (build_socket nng Push0) (\<lambda>_.
           try_nng (nng_dial nng Push0 (arg_events a)) ()))) of
        Inl e \<Rightarrow> SetupFailed e
      | Inr _ \<Rightarrow> serve_loop w h control (new_server p stream))"

definition make_hello_result ::
  "hello \<Rightarrow> plugin_info \<Rightarrow> capabilities \<Rightarrow> device_info \<Rightarrow> hello_result" where
  "make_hello_result req plugin caps device =
     \<lparr>hr_protocol = PROTOCOL_VERSION, hr_plugin = Some plugin, hr_capabilities = Some caps,
      hr_device = Some device,
      hr_encodings = negotiate_encodings (he_accept_encodings req) ENCODINGS,
      hr_codecs = negotiate_codecs (he_accept_codecs req) CODECS\<rparr>"

text \<open>
  \<open>exit_on_stdin_eof\<close>: the watching thread's loop over what the reads of standard
  input report; it ends the process at end of file or at an error.
\<close>

fun stdin_watch :: "(io_error + nat) list \<Rightarrow> bool" where
  "stdin_watch [] = False"
| "stdin_watch (r # rs) = (case r of Inl _ \<Rightarrow> True | Inr n \<Rightarrow> if n = 0 then True else stdin_watch rs)"

section \<open>Lemmas on single requests\<close>

named_theorems server_simps \<open>unfolding one request\<close>

lemmas [server_simps] = dispatch_def call_def set_srv_running_def

lemma push_events_running [simp]:
  "is_running (push_events w evs es) \<longleftrightarrow> is_running es \<and> \<not> list_ex ends_capture evs"
  unfolding push_events_def by (rule flag.running_fold)

lemma set_running_simps [simp]: "is_running (set_running es b) = b"
  by (rule flag.running_set)

lemma call_simps [simp]:
  "srv_greeted (fst (call w s res arm)) = srv_greeted s"
  "srv_running (fst (call w s res arm)) \<longleftrightarrow> srv_running s \<and> \<not> list_ex ends_capture (fst (snd res))"
  "snd (call w s res arm) = map_ok arm (snd (snd res))"
  by (simp_all add: call_def split: prod.splits)

lemma set_srv_running_simps [simp]:
  "srv_running (set_srv_running s b) = b"
  "srv_greeted (set_srv_running s b) = srv_greeted s"
  "srv_plugin (set_srv_running s b) = srv_plugin s"
  by (simp_all add: set_srv_running_def)

text \<open>The arms of the two oneofs, by number of the request.\<close>

fun request_arm :: "request \<Rightarrow> nat" where
  "request_arm (ReqHello _) = 10"
| "request_arm ReqDescribe = 11"
| "request_arm ReqGetConfig = 12"
| "request_arm (ReqSetConfig _) = 13"
| "request_arm (ReqAcquireStart _) = 14"
| "request_arm (ReqAcquireStop _) = 15"
| "request_arm ReqReset = 16"
| "request_arm ReqShutdown = 17"

fun response_arm :: "response \<Rightarrow> nat" where
  "response_arm (RespHello _) = 10"
| "response_arm (RespDescribe _) = 11"
| "response_arm (RespGetConfig _) = 12"
| "response_arm (RespSetConfig _) = 13"
| "response_arm RespAcquireStart = 14"
| "response_arm RespAcquireStop = 15"
| "response_arm RespReset = 16"
| "response_arm RespShutdown = 17"

lemma call_arm:
  "snd (call w s res arm) = Inr resp \<Longrightarrow> \<exists>r. resp = arm r"
  by (auto simp: return_iff)

text \<open>The handler result a request leads to, if it gets as far as a handler.\<close>

definition handler_events :: "'p capture_server \<Rightarrow> 'p server \<Rightarrow> request option \<Rightarrow> event list" where
  "handler_events h s request =
     (let p = srv_plugin s in
      case request of
        None \<Rightarrow> []
      | Some (ReqHello req) \<Rightarrow> if srv_greeted s then [] else fst (snd (on_hello h p req))
      | Some ReqDescribe \<Rightarrow> fst (snd (on_describe h p))
      | Some ReqGetConfig \<Rightarrow> fst (snd (on_get_config h p))
      | Some (ReqSetConfig req) \<Rightarrow>
          fst (snd (on_set_config h p (unwrap_or (sc_config req) default_config)))
      | Some (ReqAcquireStart req) \<Rightarrow> fst (snd (on_acquire_start h p req))
      | Some (ReqAcquireStop req) \<Rightarrow> fst (snd (on_acquire_stop h p req))
      | Some ReqReset \<Rightarrow> fst (snd (on_reset h p))
      | Some ReqShutdown \<Rightarrow> [])"

definition ends_during :: "'p capture_server \<Rightarrow> 'p server \<Rightarrow> request option \<Rightarrow> bool" where
  "ends_during h s request = list_ex ends_capture (handler_events h s request)"

definition is_ok :: "'e + 'a \<Rightarrow> bool" where
  "is_ok r = (case r of Inl _ \<Rightarrow> False | Inr _ \<Rightarrow> True)"

lemma is_ok_simps [simp]: "is_ok (Inr x)" "\<not> is_ok (Inl e)"
  by (simp_all add: is_ok_def)

section \<open>The state machine it implements\<close>

text \<open>
  The phases of the protocol.  A step is described by the request, whether it was
  accepted, and whether the end of a capture went out on the event stream while it
  was answered.
\<close>

datatype phase = AwaitingHello | Ready | Acquiring

text \<open>The order in which a session goes through them.\<close>

primrec phase_rank :: "phase \<Rightarrow> nat" where
  "phase_rank AwaitingHello = 0"
| "phase_rank Ready = 1"
| "phase_rank Acquiring = 2"

instantiation phase :: linorder
begin

definition less_eq_phase :: "phase \<Rightarrow> phase \<Rightarrow> bool" where
  "less_eq_phase a b \<longleftrightarrow> phase_rank a \<le> phase_rank b"

definition less_phase :: "phase \<Rightarrow> phase \<Rightarrow> bool" where
  "less_phase a b \<longleftrightarrow> phase_rank a < phase_rank b"

instance
proof
  fix a b :: phase
  show "a \<le> b \<Longrightarrow> b \<le> a \<Longrightarrow> a = b"
    by (cases a; cases b) (simp_all add: less_eq_phase_def)
qed (auto simp: less_eq_phase_def less_phase_def)

end

lemma greeted_phase: "AwaitingHello < ph \<longleftrightarrow> ph \<noteq> AwaitingHello"
  by (cases ph) (simp_all add: less_phase_def)

definition phase_of :: "'p server \<Rightarrow> phase" where
  "phase_of s =
     (if \<not> srv_greeted s then AwaitingHello else if srv_running s then Acquiring else Ready)"

fun phase_step :: "phase \<Rightarrow> request option \<Rightarrow> bool \<Rightarrow> bool \<Rightarrow> phase" where
  "phase_step AwaitingHello request accepted ended = (if accepted then Ready else AwaitingHello)"
| "phase_step Ready (Some (ReqAcquireStart _)) accepted ended =
     (if accepted \<and> \<not> ended then Acquiring else Ready)"
| "phase_step Ready request accepted ended = Ready"
| "phase_step Acquiring (Some ReqReset) accepted ended = (if accepted \<or> ended then Ready else Acquiring)"
| "phase_step Acquiring (Some (ReqAcquireStop _)) accepted ended = (if ended then Ready else Acquiring)"
| "phase_step Acquiring request accepted ended = Acquiring"

definition srv_inv :: "'p server \<Rightarrow> bool" where
  "srv_inv s \<longleftrightarrow> (srv_running s \<longrightarrow> srv_greeted s)"

lemma call_cases:
  obtains (refused) s' e where "call w s res arm = (s', Inl e)" "snd (snd res) = Inl e"
    "srv_greeted s' = srv_greeted s"
    "srv_running s' \<longleftrightarrow> srv_running s \<and> \<not> list_ex ends_capture (fst (snd res))"
  | (answered) s' r where "call w s res arm = (s', Inr (arm r))" "snd (snd res) = Inr r"
    "srv_greeted s' = srv_greeted s"
    "srv_running s' \<longleftrightarrow> srv_running s \<and> \<not> list_ex ends_capture (fst (snd res))"
proof -
  obtain s' r where c: "call w s res arm = (s', r)" by fastforce
  have "srv_greeted s' = srv_greeted s"
    "srv_running s' \<longleftrightarrow> srv_running s \<and> \<not> list_ex ends_capture (fst (snd res))"
    "r = map_ok arm (snd (snd res))"
    using call_simps [of w s res arm] c by simp_all
  with c that show thesis by (cases "snd (snd res)") simp_all
qed

definition step_ok :: "'p capture_server \<Rightarrow> 'p server \<Rightarrow> request option \<Rightarrow> 'p server \<times> response reply \<Rightarrow> bool" where
  "step_ok h s request res \<longleftrightarrow>
     phase_of (fst res) = phase_step (phase_of s) request (is_ok (snd res)) (ends_during h s request)
     \<and> srv_inv (fst res)
     \<and> (\<forall>resp. snd res = Inr resp \<longrightarrow>
          (\<exists>rq. request = Some rq \<and> response_arm resp = request_arm rq))"

lemmas step_defs = step_ok_def phase_of_def srv_inv_def ends_during_def handler_events_def

lemma dispatch_step_ok:
  assumes "srv_inv s"
  shows "step_ok h s request (dispatch w h s request)"
proof (cases "\<exists>rq. request = Some rq \<and> (srv_greeted s \<or> is_hello rq)")
  case False
  then show ?thesis
    using assms by (cases request) (auto simp: dispatch_def step_defs)
next
  case True
  then obtain rq where rq: "request = Some rq" "srv_greeted s \<or> is_hello rq" by blast
  show ?thesis
  proof (cases rq)
    case (ReqHello req)
    with rq assms show ?thesis
      by (cases rule: call_cases [of w s "on_hello h (srv_plugin s) req" RespHello])
        (auto simp: dispatch_def step_defs)
  next
    case ReqDescribe
    with rq assms show ?thesis
      by (cases rule: call_cases [of w s "on_describe h (srv_plugin s)" RespDescribe])
        (auto simp: dispatch_def step_defs)
  next
    case ReqGetConfig
    with rq assms show ?thesis
      by (cases rule: call_cases [of w s "on_get_config h (srv_plugin s)" RespGetConfig])
        (auto simp: dispatch_def step_defs)
  next
    case (ReqSetConfig req)
    with rq assms show ?thesis
      by (cases rule: call_cases [of w s
            "on_set_config h (srv_plugin s) (unwrap_or (sc_config req) default_config)" RespSetConfig])
        (auto simp: dispatch_def step_defs)
  next
    case (ReqAcquireStart req)
    with rq assms show ?thesis
      by (cases rule: call_cases [of w "set_srv_running s True"
            "on_acquire_start h (srv_plugin s) req" "\<lambda>_. RespAcquireStart"])
        (auto simp: dispatch_def step_defs)
  next
    case (ReqAcquireStop req)
    with rq assms show ?thesis
      by (cases rule: call_cases [of w s "on_acquire_stop h (srv_plugin s) req" "\<lambda>_. RespAcquireStop"])
        (auto simp: dispatch_def step_defs)
  next
    case ReqReset
    with rq assms show ?thesis
      by (cases rule: call_cases [of w s "on_reset h (srv_plugin s)" "\<lambda>_. RespReset"])
        (auto simp: dispatch_def step_defs)
  next
    case ReqShutdown
    with rq assms show ?thesis by (auto simp: dispatch_def step_defs)
  qed
qed

lemma dispatch_phase:
  assumes "srv_inv s" and "dispatch w h s request = (s', r)"
  shows "phase_of s' = phase_step (phase_of s) request (is_ok r) (ends_during h s request)"
    and "srv_inv s'"
    and "\<And>resp. r = Inr resp \<Longrightarrow> \<exists>rq. request = Some rq \<and> response_arm resp = request_arm rq"
  using dispatch_step_ok [OF assms(1), of h request w] assms(2) by (simp_all add: step_ok_def)

section \<open>Reachable states, with acquisition threads\<close>

text \<open>
  Between two requests any thread may be anywhere in a push.  The steps of a serving
  process are the answering of a request and one act of a push.
\<close>

definition act_srv :: "wire \<Rightarrow> push_act \<Rightarrow> 'p server \<Rightarrow> 'p server" where
  "act_srv w a s = s\<lparr>srv_events := fst (do_act (enc_event w) a (srv_events s))\<rparr>"

definition acts_srv :: "wire \<Rightarrow> push_act list \<Rightarrow> 'p server \<Rightarrow> 'p server" where
  "acts_srv w acts s = s\<lparr>srv_events := do_acts (enc_event w) acts (srv_events s)\<rparr>"

lemma acts_srv_simps [simp]:
  "acts_srv w [] s = s"
  "acts_srv w (a # acts) s = acts_srv w acts (act_srv w a s)"
  "acts_srv w (acts @ acts') s = acts_srv w acts' (acts_srv w acts s)"
  "srv_plugin (acts_srv w acts s) = srv_plugin s"
  "srv_greeted (acts_srv w acts s) = srv_greeted s"
  "srv_running (acts_srv w acts s) \<longleftrightarrow> srv_running s \<and> ClearFlag \<notin> set acts"
  by (simp_all add: acts_srv_def act_srv_def is_running_def)

lemma act_srv_simps [simp]:
  "srv_plugin (act_srv w a s) = srv_plugin s"
  "srv_greeted (act_srv w a s) = srv_greeted s"
  "srv_running (act_srv w a s) \<longleftrightarrow> srv_running s \<and> a \<noteq> ClearFlag"
  by (simp_all add: act_srv_def is_running_def)

lemma push_is_acts:
  "s\<lparr>srv_events := fst (events_send (enc_event w) (srv_events s) ev)\<rparr> = acts_srv w (push_acts ev) s"
  by (simp add: acts_srv_def events_send_acts)

inductive srv_step :: "wire \<Rightarrow> 'p capture_server \<Rightarrow> 'p server \<Rightarrow> 'p server \<Rightarrow> bool"
  for w :: wire and h :: "'p capture_server" where
  answer: "dispatch w h s request = (s', r) \<Longrightarrow> srv_step w h s s'"
| act: "srv_step w h s (act_srv w a s)"

inductive srv_reach :: "wire \<Rightarrow> 'p capture_server \<Rightarrow> 'p server \<Rightarrow> 'p server \<Rightarrow> bool"
  for w :: wire and h :: "'p capture_server" and s :: "'p server" where
  here: "srv_reach w h s s"
| step: "srv_reach w h s s' \<Longrightarrow> srv_step w h s' s'' \<Longrightarrow> srv_reach w h s s''"

lemma push_events_acts: "push_events w evs es = do_acts (enc_event w) (concat (map push_acts evs)) es"
  by (induction evs arbitrary: es) (simp_all add: push_events_def events_send_acts)

lemma srv_step_inv: "srv_step w h s s' \<Longrightarrow> srv_inv s \<Longrightarrow> srv_inv s'"
proof (induction rule: srv_step.induct)
  case (answer s request s' r)
  from dispatch_phase(2) [OF answer.prems answer.hyps] show ?case .
next
  case (act s a)
  then show ?case by (simp add: srv_inv_def)
qed

lemma srv_reach_inv: "srv_reach w h s s' \<Longrightarrow> srv_inv s \<Longrightarrow> srv_inv s'"
  by (induction rule: srv_reach.induct) (auto intro: srv_step_inv)

lemma srv_reach_acts: "srv_reach w h s0 s \<Longrightarrow> srv_reach w h s0 (acts_srv w acts s)"
  by (induction acts arbitrary: s) (auto intro: srv_reach.step srv_step.act)

lemma srv_inv_new [simp]: "srv_inv (new_server p stream)"
  by (simp add: srv_inv_def new_server_def new_events_def is_running_def)

lemma srv_reach_trans: "srv_reach w h a b \<Longrightarrow> srv_reach w h b c \<Longrightarrow> srv_reach w h a c"
  by (rotate_tac 1, induction rule: srv_reach.induct) (auto intro: srv_reach.step)

inductive_simps srv_step_iff: "srv_step w h s s'"

lemma dispatch_arm:
  assumes "dispatch w h s request = (s', Inr resp)"
  shows "\<exists>rq. request = Some rq \<and> response_arm resp = request_arm rq"
  using assms
  by (auto simp: dispatch_def call_def return_iff
      split: option.splits request.splits if_splits prod.splits sum.splits)

section \<open>The contract of a service that answers requests\<close>

definition answer ::
  "wire \<Rightarrow> 'p capture_server \<Rightarrow> 'p server \<Rightarrow> request_msg \<Rightarrow> 'p server \<times> response_msg" where
  "answer w h s rq =
     (case dispatch w h s (rq_request rq) of (s, outcome) \<Rightarrow> (s, make_response (rq_seq rq) outcome))"

text \<open>
  What a client counts on: a reply carries the number of its request, either an
  error or a result, and as result the arm of the request.
\<close>

locale request_service =
  fixes serve_one :: "'s \<Rightarrow> request_msg \<Rightarrow> 's \<times> response_msg"
  assumes seq_echoed: "serve_one s rq = (s', r) \<Longrightarrow> rs_seq r = rq_seq rq"
    and error_or_result: "serve_one s rq = (s', r) \<Longrightarrow> rs_error r = None \<longleftrightarrow> rs_response r \<noteq> None"
    and result_arm: "serve_one s rq = (s', r) \<Longrightarrow> rs_response r = Some resp \<Longrightarrow>
      map_option request_arm (rq_request rq) = Some (response_arm resp)"
begin

lemma reply_cases:
  assumes "serve_one s rq = (s', r)"
  obtains (refused) e where "r = \<lparr>rs_seq = rq_seq rq, rs_error = Some e, rs_response = None\<rparr>"
  | (answered) resp where "r = \<lparr>rs_seq = rq_seq rq, rs_error = None, rs_response = Some resp\<rparr>"
      "map_option request_arm (rq_request rq) = Some (response_arm resp)"
proof (cases "rs_response r")
  case None
  with error_or_result [OF assms] obtain e where "rs_error r = Some e" by auto
  with None seq_echoed [OF assms]
  have "r = \<lparr>rs_seq = rq_seq rq, rs_error = Some e, rs_response = None\<rparr>" by (cases r) simp
  then show thesis by (rule refused)
next
  case (Some resp)
  with error_or_result [OF assms] seq_echoed [OF assms]
  have "r = \<lparr>rs_seq = rq_seq rq, rs_error = None, rs_response = Some resp\<rparr>" by (cases r) simp
  then show thesis by (rule answered) (rule result_arm [OF assms Some])
qed

end

interpretation loop: request_service "answer w h" for w h
proof
  fix s s' :: "'a server" and rq r
  assume "answer w h s rq = (s', r)"
  then obtain out where d: "dispatch w h s (rq_request rq) = (s', out)"
    and r: "r = make_response (rq_seq rq) out"
    by (auto simp: answer_def split: prod.splits)
  from r show "rs_seq r = rq_seq rq" and "rs_error r = None \<longleftrightarrow> rs_response r \<noteq> None"
    by (simp_all add: make_response_def split: sum.splits)
  show "map_option request_arm (rq_request rq) = Some (response_arm resp)" if "rs_response r = Some resp" for resp
  proof -
    from that r have "out = Inr resp" by (simp add: make_response_def split: sum.splits)
    with dispatch_arm d show ?thesis by fastforce
  qed
qed

section \<open>A session: what the loop makes of a sequence of messages\<close>

definition answer_bytes ::
  "wire \<Rightarrow> 'p capture_server \<Rightarrow> 'p server \<Rightarrow> bytes \<Rightarrow> 'p server \<times> response_msg" where
  "answer_bytes w h s bs =
     (case dec_request w bs of Inl e \<Rightarrow> (s, undecodable w e) | Inr rq \<Rightarrow> answer w h s rq)"

definition ends_session :: "wire \<Rightarrow> 'p server \<Rightarrow> bytes \<Rightarrow> bool" where
  "ends_session w s bs =
     (case dec_request w bs of
        Inl _ \<Rightarrow> False
      | Inr rq \<Rightarrow> is_shutdown (rq_request rq) \<and> srv_greeted s)"

definition shut_down :: "wire \<Rightarrow> 'p capture_server \<Rightarrow> 'p server \<Rightarrow> 'p server" where
  "shut_down w h s =
     (case on_shutdown h (srv_plugin s) of
        (p, evs) \<Rightarrow> s\<lparr>srv_plugin := p, srv_events := push_events w evs (srv_events s)\<rparr>)"

primrec session ::
  "wire \<Rightarrow> 'p capture_server \<Rightarrow> 'p server \<Rightarrow> bytes list \<Rightarrow> 'p server \<times> response_msg list \<times> bool" where
  "session w h s [] = (s, [], False)"
| "session w h s (bs # msgs) =
     (case answer_bytes w h s bs of
        (s', r) \<Rightarrow>
          if ends_session w s bs then (shut_down w h s', [r], True)
          else (case session w h s' msgs of (s'', rs, stopped) \<Rightarrow> (s'', r # rs, stopped)))"

text \<open>What the answer to a message has to look like.\<close>

definition reply_ok :: "wire \<Rightarrow> bytes \<Rightarrow> response_msg \<Rightarrow> bool" where
  "reply_ok w bs r =
     (case dec_request w bs of
        Inl _ \<Rightarrow> rs_seq r = 0 \<and> rs_response r = None
          \<and> (case rs_error r of None \<Rightarrow> False | Some e \<Rightarrow> err_code e = error_code_i32 ErrorInvalidRequest)
      | Inr rq \<Rightarrow> rs_seq r = rq_seq rq
          \<and> (case rs_response r of
               None \<Rightarrow> rs_error r \<noteq> None
             | Some resp \<Rightarrow> rs_error r = None
                 \<and> map_option request_arm (rq_request rq) = Some (response_arm resp)))"

lemma answer_bytes_ok: "reply_ok w bs (snd (answer_bytes w h s bs))"
proof (cases "dec_request w bs")
  case (Inl e)
  then show ?thesis by (simp add: answer_bytes_def reply_ok_def undecodable_def)
next
  case (Inr rq)
  obtain s' r where a: "answer w h s rq = (s', r)" by fastforce
  show ?thesis
    by (rule loop.reply_cases [OF a]) (simp_all add: answer_bytes_def reply_ok_def Inr a)
qed

lemma dispatch_shutdown:
  "dispatch w h s (Some ReqShutdown) =
     (s, if srv_greeted s then Inr RespShutdown
         else Inl (proto_error_invalid ''Hello must be the first request''))"
  by (simp add: dispatch_def)

text \<open>A turn on a socket that refuses nothing.\<close>

lemma serve_turn_quiet:
  assumes "sk_inbox control = Inr bs # rest" and "sk_faults control = []"
    and "answer_bytes w h s bs = (s', r)"
  shows "serve_turn w h control s =
     (let control' = control\<lparr>sk_inbox := rest, sk_sent := sk_sent control @ [enc_response w r]\<rparr> in
      if ends_session w s bs then Done control' (shut_down w h s') (Inr ())
      else Again control' s')"
proof (cases "dec_request w bs")
  case (Inl e)
  with assms show ?thesis
    by (simp add: serve_turn_def recv_def send_def sock_send_def answer_bytes_def ends_session_def)
next
  case (Inr rq)
  obtain s1 out where d: "dispatch w h s (rq_request rq) = (s1, out)" by fastforce
  show ?thesis
  proof (cases "rq_request rq = Some ReqShutdown")
    case True
    with d have "s1 = s" "rs_error (make_response (rq_seq rq) out) = None \<longleftrightarrow> srv_greeted s"
      by (auto simp: dispatch_shutdown make_response_def split: if_splits)
    with assms Inr d True show ?thesis
      by (auto simp: serve_turn_def recv_def send_def sock_send_def answer_bytes_def answer_def
          ends_session_def is_shutdown_def shut_down_def Let_def split: prod.splits)
  next
    case False
    with assms Inr d show ?thesis
      by (auto simp: serve_turn_def recv_def send_def sock_send_def answer_bytes_def answer_def
          ends_session_def is_shutdown_def Let_def)
  qed
qed

definition after_session :: "wire \<Rightarrow> bytes list \<Rightarrow> response_msg list \<Rightarrow> socket \<Rightarrow> socket" where
  "after_session w msgs rs control =
     control\<lparr>sk_inbox := map Inr (drop (length rs) msgs),
             sk_sent := sk_sent control @ map (enc_response w) rs\<rparr>"

lemma serve_loop_session:
  "\<lbrakk>sk_inbox control = map Inr msgs; sk_faults control = []; session w h s msgs = (s', rs, stopped)\<rbrakk> \<Longrightarrow>
   serve_loop w h control s =
     (if stopped then Returned (after_session w msgs rs control) s' (Inr ())
      else Waiting (after_session w msgs rs control) s')"
proof (induction msgs arbitrary: control s s' rs stopped)
  case Nil
  then show ?case by (subst serve_loop.simps) (simp add: serve_turn_def recv_def after_session_def)
next
  case (Cons bs msgs)
  obtain s1 r where a: "answer_bytes w h s bs = (s1, r)" by fastforce
  let ?control = "control\<lparr>sk_inbox := map Inr msgs, sk_sent := sk_sent control @ [enc_response w r]\<rparr>"
  have turn: "serve_turn w h control s =
      (if ends_session w s bs then Done ?control (shut_down w h s1) (Inr ()) else Again ?control s1)"
    using serve_turn_quiet [OF _ Cons.prems(2) a, of "map Inr msgs"] Cons.prems(1) by simp
  show ?case
  proof (cases "ends_session w s bs")
    case True
    with turn a Cons.prems(3) show ?thesis
      by (subst serve_loop.simps) (auto simp: after_session_def)
  next
    case False
    obtain s2 rs2 stopped2 where rec: "session w h s1 msgs = (s2, rs2, stopped2)"
      by (metis prod_cases3)
    with False a Cons.prems(3) have r: "s' = s2" "rs = r # rs2" "stopped = stopped2" by auto
    have "serve_loop w h control s = serve_loop w h ?control s1"
      using turn False by (subst serve_loop.simps) simp
    with Cons.IH [of ?control s1 s2 rs2 stopped2] Cons.prems(2) rec r show ?thesis
      by (simp add: after_session_def)
  qed
qed

lemma session_replies:
  "session w h s msgs = (s', rs, stopped) \<Longrightarrow>
   length rs \<le> length msgs \<and> (\<not> stopped \<longrightarrow> length rs = length msgs)
   \<and> list_all2 (reply_ok w) (take (length rs) msgs) rs"
proof (induction msgs arbitrary: s rs)
  case (Cons bs msgs)
  obtain s1 r where a: "answer_bytes w h s bs = (s1, r)" by fastforce
  obtain s2 rs2 stopped2 where rec: "session w h s1 msgs = (s2, rs2, stopped2)"
    by (metis prod_cases3)
  show ?case
    using Cons.prems a rec answer_bytes_ok [of w bs h s] Cons.IH [of s1 rs2]
    by (auto split: if_splits)
qed simp

lemma request_arm_17: "17 = request_arm rq \<longleftrightarrow> rq = ReqShutdown"
  by (cases rq) auto

lemma answer_shutdown:
  assumes "answer_bytes w h s bs = (s', r)"
  shows "rs_response r = Some RespShutdown \<longleftrightarrow> ends_session w s bs"
proof (cases "dec_request w bs")
  case (Inl e)
  with assms show ?thesis by (auto simp: answer_bytes_def undecodable_def ends_session_def)
next
  case (Inr rq)
  obtain s1 out where d: "dispatch w h s (rq_request rq) = (s1, out)" by fastforce
  show ?thesis
  proof (cases "rq_request rq = Some ReqShutdown")
    case True
    with assms Inr d dispatch_shutdown [of w h s] show ?thesis
      by (auto simp: answer_bytes_def answer_def make_response_def ends_session_def is_shutdown_def
          split: if_splits)
  next
    case False
    with dispatch_arm [of w h s "rq_request rq" s1 RespShutdown] d request_arm_17
    have "out \<noteq> Inr RespShutdown" by auto
    with assms Inr d False show ?thesis
      by (auto simp: answer_bytes_def answer_def make_response_def ends_session_def is_shutdown_def
          split: sum.splits)
  qed
qed

text \<open>The answers of a session stop at the first accepted \<open>Shutdown\<close>.\<close>

definition stops_at_shutdown :: "response_msg list \<Rightarrow> bool \<Rightarrow> bool" where
  "stops_at_shutdown rs stopped \<longleftrightarrow>
     (if stopped
      then rs \<noteq> [] \<and> rs_response (last rs) = Some RespShutdown
           \<and> (\<forall>r \<in> set (butlast rs). rs_response r \<noteq> Some RespShutdown)
      else (\<forall>r \<in> set rs. rs_response r \<noteq> Some RespShutdown))"

lemma session_stops: "session w h s msgs = (s', rs, stopped) \<Longrightarrow> stops_at_shutdown rs stopped"
proof (induction msgs arbitrary: s rs)
  case (Cons bs msgs)
  obtain s1 r where a: "answer_bytes w h s bs = (s1, r)" by fastforce
  obtain s2 rs2 stopped2 where rec: "session w h s1 msgs = (s2, rs2, stopped2)"
    by (metis prod_cases3)
  show ?case
    using Cons.prems a rec answer_shutdown [OF a] Cons.IH [of s1 rs2]
    by (auto simp: stops_at_shutdown_def split: if_splits)
qed (simp add: stops_at_shutdown_def)

text \<open>A run of requests that are all refused without a handler being called.\<close>

lemma session_inert:
  assumes "\<forall>bs \<in> set msgs. \<exists>r e. answer_bytes w h s bs = (s, r) \<and> rs_error r = Some e
      \<and> err_code e = c \<and> \<not> ends_session w s bs"
  shows "\<exists>rs. session w h s msgs = (s, rs, False) \<and> length rs = length msgs
    \<and> (\<forall>r \<in> set rs. \<exists>e. rs_error r = Some e \<and> err_code e = c)"
  using assms
proof (induction msgs)
  case (Cons bs msgs)
  then obtain rs where "session w h s msgs = (s, rs, False)" "length rs = length msgs"
    "\<forall>r \<in> set rs. \<exists>e. rs_error r = Some e \<and> err_code e = c" by auto
  with Cons.prems show ?case by (intro exI [of _ "snd (answer_bytes w h s bs) # rs"]) auto
qed simp

lemma answer_bytes_refused:
  assumes "dec_request w bs = Inr rq" "dispatch w h s (rq_request rq) = (s, Inl e)"
  shows "\<exists>r. answer_bytes w h s bs = (s, r) \<and> rs_error r = Some e"
  using assms by (simp add: answer_bytes_def answer_def make_response_def)

lemma answer_bytes_undecodable:
  assumes "dec_request w bs = Inl e"
  shows "\<exists>r e'. answer_bytes w h s bs = (s, r) \<and> rs_error r = Some e' \<and> err_code e' = 1
    \<and> \<not> ends_session w s bs"
  using assms by (simp add: answer_bytes_def undecodable_def ends_session_def)

section \<open>A plugin and a wire for the examples\<close>

text \<open>
  The plugin counts the calls of its handlers; \<open>evs\<close> are the events its
  \<open>acquire_start\<close> pushes before it returns.
\<close>

definition demo :: "event list \<Rightarrow> nat capture_server" where
  "demo evs =
     \<lparr>on_hello = (\<lambda>n req. (n + 1, [], Inr (make_hello_result req
        \<lparr>pi_name = ''demo'', pi_version = ''1'', pi_vendor = [], pi_description = []\<rparr>
        \<lparr>cap_modes = [], cap_trigger_kinds = []\<rparr>
        \<lparr>di_vendor = [], di_model = [], di_serial = [], di_firmware_version = []\<rparr>))),
      on_describe = (\<lambda>n. (n + 1, [], Inr
        \<lparr>desc_channels = [], desc_limits = None, desc_analog = None, desc_logic = None,
         desc_vendor_options = []\<rparr>)),
      on_get_config = (\<lambda>n. (n + 1, [], Inr default_config)),
      on_set_config = (\<lambda>n c. (n + 1, [], Inr c)),
      on_acquire_start = (\<lambda>n _. (n + 1, evs, Inr ())),
      on_acquire_stop = (\<lambda>n _. (n + 1, [], Inr ())),
      on_reset = default_reset,
      on_shutdown = (\<lambda>n. (n + 1, []))\<rparr>"

text \<open>A wire that carries sequence numbers below 256 and the number of the arm.\<close>

definition tiny_wire :: wire where
  "tiny_wire =
     \<lparr>enc_request = (\<lambda>m. [ucast (rq_seq m),
        (case rq_request m of None \<Rightarrow> 0 | Some r \<Rightarrow> of_nat (request_arm r))]),
      dec_request = (\<lambda>bs. case bs of
          [n, a] \<Rightarrow>
            if a = 11 then Inr \<lparr>rq_seq = ucast n, rq_request = Some ReqDescribe\<rparr>
            else if a = 12 then Inr \<lparr>rq_seq = ucast n, rq_request = Some ReqGetConfig\<rparr>
            else if a = 14 then Inr \<lparr>rq_seq = ucast n,
              rq_request = Some (ReqAcquireStart \<lparr>as_capture_id = 1, as_mode = 1\<rparr>)\<rparr>
            else if a = 16 then Inr \<lparr>rq_seq = ucast n, rq_request = Some ReqReset\<rparr>
            else if a = 17 then Inr \<lparr>rq_seq = ucast n, rq_request = Some ReqShutdown\<rparr>
            else Inl (DecodeError ''bad arm'')
        | _ \<Rightarrow> Inl (DecodeError ''bad length'')),
      enc_response = (\<lambda>m. [ucast (rs_seq m),
        (case rs_response m of None \<Rightarrow> 0 | Some r \<Rightarrow> of_nat (response_arm r))]),
      dec_response = (\<lambda>bs. case bs of
          [n, a] \<Rightarrow>
            if a = 14 then Inr \<lparr>rs_seq = ucast n, rs_error = None, rs_response = Some RespAcquireStart\<rparr>
            else if a = 15 then Inr \<lparr>rs_seq = ucast n, rs_error = None, rs_response = Some RespAcquireStop\<rparr>
            else if a = 16 then Inr \<lparr>rs_seq = ucast n, rs_error = None, rs_response = Some RespReset\<rparr>
            else if a = 17 then Inr \<lparr>rs_seq = ucast n, rs_error = None, rs_response = Some RespShutdown\<rparr>
            else Inl (DecodeError ''bad arm'')
        | _ \<Rightarrow> Inl (DecodeError ''bad length'')),
      enc_event = (\<lambda>_. [0]),
      dec_event = (\<lambda>_. Inr \<lparr>ev_event = None\<rparr>),
      decode_text = (\<lambda>e. case e of DecodeError t \<Rightarrow> t)\<rparr>"

definition demo_start :: acquire_start where
  "demo_start = \<lparr>as_capture_id = 1, as_mode = 1\<rparr>"

text \<open>A greeted server of the plugin, idle and with a capture running.\<close>

definition demo_server :: "bool \<Rightarrow> nat server" where
  "demo_server running =
     \<lparr>srv_plugin = 1, srv_events = \<lparr>ev_running = running, ev_socket = quiet_socket\<rparr>,
      srv_greeted = True\<rparr>"

lemmas demo_defs = demo_def tiny_wire_def demo_server_def demo_start_def quiet_socket_def
  new_server_def new_events_def is_running_def

section \<open>Properties\<close>

text \<open>
  C23. Nothing reaches the plugin before \<open>Hello\<close>: whatever other messages arrive,
  \<open>Shutdown\<close>, empty and undecodable ones included, leave the server and the
  plugin as they were, and each is answered with an invalid-request error.
\<close>

theorem hello_comes_first:
  assumes "\<not> srv_greeted s"
    and "\<forall>bs \<in> set msgs. \<forall>rq. dec_request w bs = Inr rq \<longrightarrow>
           (\<forall>req. rq_request rq \<noteq> Some (ReqHello req))"
  shows "\<exists>rs. session w h s msgs = (s, rs, False) \<and> length rs = length msgs
    \<and> (\<forall>r \<in> set rs. \<exists>e. rs_error r = Some e \<and> err_code e = error_code_i32 ErrorInvalidRequest)"
proof -
  have "\<exists>r e. answer_bytes w h s bs = (s, r) \<and> rs_error r = Some e
      \<and> err_code e = error_code_i32 ErrorInvalidRequest \<and> \<not> ends_session w s bs"
    if bs: "bs \<in> set msgs" for bs
  proof (cases "dec_request w bs")
    case (Inl e)
    from answer_bytes_undecodable [of w bs e h s, OF Inl] show ?thesis by auto
  next
    case (Inr rq)
    with assms bs have "\<exists>e. dispatch w h s (rq_request rq) = (s, Inl e) \<and> err_code e = 1"
      by (cases "rq_request rq") (auto simp: dispatch_def elim: is_hello.elims)
    with Inr answer_bytes_refused [of w bs rq h s] assms(1) show ?thesis
      by (fastforce simp: ends_session_def)
  qed
  then show ?thesis by (intro session_inert) blast
qed

theorem hello_comes_first_witness:
  "\<exists>rs. session tiny_wire (demo []) (new_server 0 quiet_socket) [[1, 17], [2, 14], [3]]
      = (new_server 0 quiet_socket, rs, False) \<and> length rs = 3"
proof -
  have "\<not> srv_greeted (new_server 0 quiet_socket :: nat server)" by (simp add: new_server_def)
  moreover have "\<forall>bs \<in> set [[1, 17], [2, 14], [3]]. \<forall>rq. dec_request tiny_wire bs = Inr rq \<longrightarrow>
      (\<forall>req. rq_request rq \<noteq> Some (ReqHello req))"
    by (simp add: tiny_wire_def)
  ultimately show ?thesis
    using hello_comes_first [of "new_server 0 quiet_socket" "[[1, 17], [2, 14], [3]]" tiny_wire "demo []"]
    by auto
qed

text \<open>
  C24. While a capture runs, description, configuration and a second start never
  reach the plugin, however many of them arrive: each is answered with a busy
  error and the server, its flag included, stays as it is.
\<close>

fun needs_idle :: "request \<Rightarrow> bool" where
  "needs_idle ReqDescribe = True"
| "needs_idle ReqGetConfig = True"
| "needs_idle (ReqSetConfig _) = True"
| "needs_idle (ReqAcquireStart _) = True"
| "needs_idle _ = False"

theorem busy_while_running:
  assumes "srv_greeted s" and "srv_running s"
    and "\<forall>bs \<in> set msgs. \<exists>seq rq. dec_request w bs = Inr \<lparr>rq_seq = seq, rq_request = Some rq\<rparr>
           \<and> needs_idle rq"
  shows "\<exists>rs. session w h s msgs = (s, rs, False) \<and> length rs = length msgs
    \<and> (\<forall>r \<in> set rs. \<exists>e. rs_error r = Some e \<and> err_code e = error_code_i32 ErrorBusy)"
proof -
  have "\<exists>r e. answer_bytes w h s bs = (s, r) \<and> rs_error r = Some e
      \<and> err_code e = error_code_i32 ErrorBusy \<and> \<not> ends_session w s bs"
    if bs: "bs \<in> set msgs" for bs
  proof -
    from assms(3) bs obtain seq rq where
      rq: "dec_request w bs = Inr \<lparr>rq_seq = seq, rq_request = Some rq\<rparr>" "needs_idle rq" by blast
    with assms(1,2) have "dispatch w h s (Some rq) = (s, Inl busy)"
      by (auto simp: dispatch_def elim: needs_idle.elims)
    with rq answer_bytes_refused [of w bs _ h s busy] show ?thesis
      by (fastforce simp: ends_session_def is_shutdown_def busy_def)
  qed
  then show ?thesis by (intro session_inert) blast
qed

theorem busy_while_running_witness:
  "\<exists>rs. session tiny_wire (demo []) (demo_server True) [[1, 11], [2, 14], [3, 12]]
      = (demo_server True, rs, False) \<and> length rs = 3"
proof -
  have "srv_greeted (demo_server True)" "srv_running (demo_server True)"
    by (simp_all add: demo_defs)
  moreover have "\<forall>bs \<in> set [[1, 11], [2, 14], [3, 12]]. \<exists>seq rq.
      dec_request tiny_wire bs = Inr \<lparr>rq_seq = seq, rq_request = Some rq\<rparr> \<and> needs_idle rq"
    by (simp add: tiny_wire_def)
  ultimately show ?thesis
    using busy_while_running [of "demo_server True" "[[1, 11], [2, 14], [3, 12]]" tiny_wire "demo []"]
    by auto
qed

text \<open>
  C25. After \<open>AcquireStart\<close> on an idle server the flag says what happened: it is
  set exactly when the plugin accepted and the end of the capture has not already
  been pushed, so a capture that ends before its start has been answered is not
  revived, and a refused start leaves the server idle.
\<close>

theorem acquire_start_outcome:
  assumes "srv_greeted s" and "\<not> srv_running s"
    and "on_acquire_start h (srv_plugin s) req = (p, evs, r)"
    and "dispatch w h s (Some (ReqAcquireStart req)) = (s', out)"
  shows "(srv_running s' \<longleftrightarrow> r = Inr () \<and> (\<forall>ev \<in> set evs. \<not> ends_capture ev))
    \<and> out = map_ok (\<lambda>_. RespAcquireStart) r \<and> srv_plugin s' = p \<and> srv_greeted s'"
proof -
  have "list_ex ends_capture evs \<longleftrightarrow> (\<exists>ev \<in> set evs. ends_capture ev)"
    by (simp add: list_ex_iff)
  with assms show ?thesis
    by (cases r) (auto simp: dispatch_def call_def set_srv_running_def)
qed

theorem acquire_start_outcome_witness:
  "\<not> srv_running (fst (dispatch tiny_wire (demo [CaptureEnd \<lparr>ce_capture_id = 1, ce_error = None\<rparr>])
       (demo_server False) (Some (ReqAcquireStart demo_start))))
   \<and> srv_running (fst (dispatch tiny_wire (demo [Log \<lparr>log_level = 2, log_message = ''armed''\<rparr>])
       (demo_server False) (Some (ReqAcquireStart demo_start))))"
proof -
  let ?short = "[CaptureEnd \<lparr>ce_capture_id = 1, ce_error = None\<rparr>]"
  let ?long = "[Log \<lparr>log_level = 2, log_message = ''armed''\<rparr>]"
  have idle: "srv_greeted (demo_server False)" "\<not> srv_running (demo_server False)"
    by (simp_all add: demo_defs)
  have "on_acquire_start (demo evs) (srv_plugin (demo_server False)) demo_start = (2, evs, Inr ())" for evs
    by (simp add: demo_defs)
  from acquire_start_outcome [OF idle this [of ?short] prod.collapse [symmetric], of tiny_wire]
    acquire_start_outcome [OF idle this [of ?long] prod.collapse [symmetric], of tiny_wire]
  show ?thesis by simp
qed

text \<open>
  C4. The dispatcher refines the protocol's state machine: from every reachable
  state, the phase after a request is the one \<open>phase_step\<close> gives for the request,
  whether it was accepted and whether a capture ended meanwhile, and an accepted
  request is answered with the arm of its own number.
\<close>

theorem dispatch_refines_phases:
  assumes "srv_reach w h (new_server p stream) s" and "dispatch w h s request = (s', r)"
  shows "phase_of s' = phase_step (phase_of s) request (is_ok r) (ends_during h s request)
    \<and> (\<forall>resp. r = Inr resp \<longrightarrow> (\<exists>rq. request = Some rq \<and> response_arm resp = request_arm rq))"
  using dispatch_phase [OF srv_reach_inv [OF assms(1) srv_inv_new] assms(2)] by blast

lemma demo_greeted:
  "dispatch tiny_wire (demo []) (new_server 0 quiet_socket) (Some (ReqHello req))
     = (demo_server False, snd (dispatch tiny_wire (demo []) (new_server 0 quiet_socket) (Some (ReqHello req))))"
  by (simp add: dispatch_def call_def push_events_def demo_defs)

theorem dispatch_refines_phases_witness:
  "phase_of (fst (dispatch tiny_wire (demo []) (demo_server False) (Some (ReqAcquireStart demo_start))))
     = Acquiring"
proof -
  have "srv_reach tiny_wire (demo []) (new_server 0 quiet_socket) (demo_server False)"
    by (rule srv_reach.step [OF srv_reach.here srv_step.answer [OF demo_greeted]])
  moreover obtain s' r where
    d: "dispatch tiny_wire (demo []) (demo_server False) (Some (ReqAcquireStart demo_start)) = (s', r)"
    by fastforce
  moreover have "is_ok r"
    using d by (auto simp: dispatch_def call_def demo_defs)
  moreover have "phase_of (demo_server False) = Ready"
    "\<not> ends_during (demo []) (demo_server False) (Some (ReqAcquireStart demo_start))"
    by (simp_all add: phase_of_def ends_during_def handler_events_def demo_defs)
  ultimately show ?thesis
    using dispatch_refines_phases [of tiny_wire "demo []" 0 quiet_socket "demo_server False"] by simp
qed

text \<open>
  In every state a serving process can reach, with events pushed by any thread
  between the requests, a running capture implies a greeted server; and from there
  on the greeting is never forgotten.
\<close>

lemma srv_step_greeted: "srv_step w h s s' \<Longrightarrow> srv_greeted s \<Longrightarrow> srv_greeted s'"
proof (induction rule: srv_step.induct)
  case (answer s request s' r)
  show ?case
  proof (cases request)
    case (Some rq)
    with answer show ?thesis
      by (cases rq) (auto simp: dispatch_def call_def set_srv_running_def split: if_splits prod.splits sum.splits)
  qed (use answer in \<open>simp add: dispatch_def\<close>)
qed simp

lemma srv_reach_greeted: "srv_reach w h s s' \<Longrightarrow> srv_greeted s \<Longrightarrow> srv_greeted s'"
  by (induction rule: srv_reach.induct) (auto intro: srv_step_greeted)

lemma reachable_states:
  assumes "srv_reach w h (new_server p stream) s" and "srv_reach w h s s'"
  shows "(srv_running s \<longrightarrow> srv_greeted s)
    \<and> (AwaitingHello < phase_of s \<longrightarrow> AwaitingHello < phase_of s')
    \<and> (srv_running s \<longrightarrow> AwaitingHello < phase_of s')"
proof -
  have "srv_running s \<longrightarrow> srv_greeted s"
    using srv_reach_inv [OF assms(1) srv_inv_new] by (simp add: srv_inv_def)
  with srv_reach_greeted [OF assms(2)] show ?thesis by (simp add: greeted_phase phase_of_def)
qed

lemma reachable_states_witness:
  "AwaitingHello < phase_of ((demo_server True)\<lparr>srv_plugin := 2\<rparr>)"
proof -
  have hello: "srv_reach tiny_wire (demo []) (new_server 0 quiet_socket) (demo_server False)"
    by (rule srv_reach.step [OF srv_reach.here srv_step.answer [OF demo_greeted]])
  have "dispatch tiny_wire (demo []) (demo_server False) (Some (ReqAcquireStart demo_start))
      = ((demo_server True)\<lparr>srv_plugin := 2\<rparr>, Inr RespAcquireStart)"
    by (simp add: dispatch_def call_def push_events_def set_srv_running_def set_running_def demo_defs)
  note started = srv_reach.step [OF hello srv_step.answer [OF this]]
  have "srv_running ((demo_server True)\<lparr>srv_plugin := 2\<rparr>)" by (simp add: demo_server_def is_running_def)
  with reachable_states [OF started srv_reach.here] show ?thesis by blast
qed

text \<open>
  C6. The control loop answers every message it takes, in order, with exactly one
  reply: under the sequence number of the request and with either an error or the
  result arm of that request, or, if the message does not decode, with an
  invalid-request error under number 0.  It runs until the messages are used up or
  an accepted \<open>Shutdown\<close> ends it, and then leaves the rest unread.
\<close>

theorem loop_answers_in_order:
  assumes "sk_inbox control = map Inr msgs" and "sk_faults control = []"
  shows "\<exists>s' rs. list_all2 (reply_ok w) (take (length rs) msgs) rs
    \<and> (serve_loop w h control s = Waiting (after_session w msgs rs control) s'
         \<and> length rs = length msgs \<and> stops_at_shutdown rs False
       \<or> serve_loop w h control s = Returned (after_session w msgs rs control) s' (Inr ())
         \<and> stops_at_shutdown rs True)"
proof -
  obtain s' rs stopped where ses: "session w h s msgs = (s', rs, stopped)" by (metis prod_cases3)
  from serve_loop_session [OF assms ses] session_replies [OF ses] session_stops [OF ses] show ?thesis
    by (intro exI [of _ s'] exI [of _ rs]) (cases stopped, auto)
qed

definition busy_socket :: socket where
  "busy_socket = quiet_socket\<lparr>sk_inbox := map Inr [[7, 11], [], [8, 17], [9, 11]]\<rparr>"

theorem loop_answers_in_order_witness:
  "\<exists>s' rs. list_all2 (reply_ok tiny_wire) (take (length rs) [[7, 11], [], [8, 17], [9, 11]]) rs
    \<and> (serve_loop tiny_wire (demo []) busy_socket (demo_server False)
         = Waiting (after_session tiny_wire [[7, 11], [], [8, 17], [9, 11]] rs busy_socket) s'
         \<and> length rs = length [[7, 11], [], [8, 17], [9 :: u8, 11]] \<and> stops_at_shutdown rs False
       \<or> serve_loop tiny_wire (demo []) busy_socket (demo_server False)
         = Returned (after_session tiny_wire [[7, 11], [], [8, 17], [9, 11]] rs busy_socket) s' (Inr ())
         \<and> stops_at_shutdown rs True)"
  by (rule loop_answers_in_order) (simp_all add: busy_socket_def quiet_socket_def)

text \<open>
  What ends the control loop: a closed pipe and an accepted, answered
  \<open>Shutdown\<close> end it well, any other failure to receive and any failure to send an
  answer end it with that nng error; nothing else does, an undecodable message in
  particular.
\<close>

definition refuses :: "socket \<Rightarrow> nng_error option" where
  "refuses control = (case sk_faults control of Some e # _ \<Rightarrow> Some e | _ \<Rightarrow> None)"

lemma send_snd:
  "snd (send enc s m) = (case refuses s of None \<Rightarrow> Inr () | Some e \<Rightarrow> Inl (Nng e))"
  by (simp add: send_def sock_send_def refuses_def split: list.splits option.splits)

lemma refuses_inbox [simp]: "refuses (s\<lparr>sk_inbox := i\<rparr>) = refuses s"
  by (simp add: refuses_def)

definition done_with :: "'p turn \<Rightarrow> unit result option" where
  "done_with t = (case t of Done _ _ r \<Rightarrow> Some r | _ \<Rightarrow> None)"

lemma serve_turn_done:
  "done_with (serve_turn w h control s) =
     (case sk_inbox control of
        [] \<Rightarrow> None
      | Inl e # _ \<Rightarrow> Some (if is_closed e then Inr () else Inl (Nng e))
      | Inr bs # _ \<Rightarrow>
          (case refuses control of
             Some e \<Rightarrow> Some (Inl (Nng e))
           | None \<Rightarrow> if ends_session w s bs then Some (Inr ()) else None))"
proof (cases "sk_inbox control")
  case Nil
  then show ?thesis by (simp add: serve_turn_def recv_def done_with_def)
next
  case (Cons m rest)
  let ?c = "control\<lparr>sk_inbox := rest\<rparr>"
  show ?thesis
  proof (cases m)
    case (Inl e)
    with Cons show ?thesis by (simp add: serve_turn_def recv_def done_with_def)
  next
    case (Inr bs)
    show ?thesis
    proof (cases "dec_request w bs")
      case (Inl e)
      have "snd (send (enc_response w) ?c (undecodable w e))
          = (case refuses control of None \<Rightarrow> Inr () | Some e \<Rightarrow> Inl (Nng e))"
        by (simp add: send_snd)
      with Inl Cons \<open>m = Inr bs\<close> show ?thesis
        by (auto simp: serve_turn_def recv_def done_with_def ends_session_def
            split: prod.splits sum.splits option.splits)
    next
      case (Inr rq)
      obtain s1 out where d: "dispatch w h s (rq_request rq) = (s1, out)" by fastforce
      obtain c' r where sd: "send (enc_response w) ?c (make_response (rq_seq rq) out) = (c', r)"
        by fastforce
      have r: "r = (case refuses control of None \<Rightarrow> Inr () | Some e \<Rightarrow> Inl (Nng e))"
        using send_snd [of "enc_response w" ?c "make_response (rq_seq rq) out"] sd by simp
      have "is_shutdown (rq_request rq) \<and> rs_error (make_response (rq_seq rq) out) = None
          \<longleftrightarrow> ends_session w s bs"
        using d Inr dispatch_shutdown [of w h s]
        by (auto simp: is_shutdown_def make_response_def ends_session_def split: if_splits)
      with r sd d Cons \<open>m = Inr bs\<close> Inr show ?thesis
        by (auto simp: serve_turn_def recv_def done_with_def Let_def split: option.splits prod.splits)
    qed
  qed
qed

lemma loop_exits:
  "(done_with (serve_turn w h control s) = Some (Inr ()) \<longleftrightarrow>
      (\<exists>e rest. sk_inbox control = Inl e # rest \<and> is_closed e)
      \<or> (\<exists>bs seq rest. sk_inbox control = Inr bs # rest \<and> refuses control = None \<and> srv_greeted s
           \<and> dec_request w bs = Inr \<lparr>rq_seq = seq, rq_request = Some ReqShutdown\<rparr>))
   \<and> (done_with (serve_turn w h control s) = Some (Inl err) \<longleftrightarrow>
      (\<exists>e rest. sk_inbox control = Inl e # rest \<and> \<not> is_closed e \<and> err = Nng e)
      \<or> (\<exists>e bs rest. sk_inbox control = Inr bs # rest \<and> refuses control = Some e \<and> err = Nng e))"
  unfolding serve_turn_done
proof (intro conjI, goal_cases)
  case 1
  have shut: "is_shutdown (rq_request rq) \<longleftrightarrow> (\<exists>seq. rq = \<lparr>rq_seq = seq, rq_request = Some ReqShutdown\<rparr>)" for rq
    by (cases rq) (simp add: is_shutdown_def)
  show ?case
    by (auto simp: ends_session_def shut split: list.splits sum.splits option.splits if_splits)
next
  case 2
  show ?case by (auto split: list.splits sum.splits option.splits if_splits)
qed

text \<open>
  C38. The flag does not know which capture it stands for.  With the default
  \<open>reset\<close>, which stops nothing, a \<open>Reset\<close> lets a second capture start while the
  thread of the first still runs; its \<open>CaptureEnd\<close>, which names the first capture,
  then clears the flag of the second, and a third start is accepted.
\<close>

definition dispatch_all :: "wire \<Rightarrow> 'p capture_server \<Rightarrow> request list \<Rightarrow> 'p server \<Rightarrow> 'p server" where
  "dispatch_all w h rqs s = fold (\<lambda>rq s. fst (dispatch w h s (Some rq))) rqs s"

theorem stale_end_stops_the_next_capture:
  assumes "srv_greeted s" and "\<not> srv_running s"
    and "on_reset h = default_reset"
    and "\<And>p req. \<exists>p'. on_acquire_start h p req = (p', [], Inr ())"
    and "s2 = dispatch_all w h [ReqAcquireStart a, ReqReset, ReqAcquireStart b] s"
    and "s3 = push_events w [CaptureEnd \<lparr>ce_capture_id = as_capture_id a, ce_error = None\<rparr>] (srv_events s2)"
  shows "srv_running s2 \<and> \<not> is_running s3
    \<and> snd (dispatch w h (s2\<lparr>srv_events := s3\<rparr>) (Some (ReqAcquireStart c))) = Inr RespAcquireStart"
proof -
  have start: "srv_greeted t \<Longrightarrow> \<not> srv_running t \<Longrightarrow>
      srv_running (fst (dispatch w h t (Some (ReqAcquireStart req))))
      \<and> srv_greeted (fst (dispatch w h t (Some (ReqAcquireStart req))))
      \<and> snd (dispatch w h t (Some (ReqAcquireStart req))) = Inr RespAcquireStart" for t req
    using assms(4) [of "srv_plugin t" req] by (auto simp: dispatch_def call_def push_events_def set_srv_running_def)
  have reset: "srv_greeted t \<Longrightarrow>
      srv_greeted (fst (dispatch w h t (Some ReqReset))) \<and> \<not> srv_running (fst (dispatch w h t (Some ReqReset)))" for t
    using assms(3) by (simp add: dispatch_def call_def default_reset_def push_events_def set_srv_running_def)
  have "srv_running s2 \<and> srv_greeted s2"
    using start reset assms(1,2) by (simp add: assms(5) dispatch_all_def)
  moreover have "\<not> is_running s3" by (simp add: assms(6))
  ultimately show ?thesis using start [of "s2\<lparr>srv_events := s3\<rparr>" c] by simp
qed

theorem stale_end_stops_the_next_capture_witness:
  "\<exists>s2 s3. s2 = dispatch_all tiny_wire (demo []) [ReqAcquireStart \<lparr>as_capture_id = 1, as_mode = 1\<rparr>, ReqReset,
         ReqAcquireStart \<lparr>as_capture_id = 2, as_mode = 1\<rparr>] (demo_server False)
     \<and> s3 = push_events tiny_wire [CaptureEnd \<lparr>ce_capture_id = 1, ce_error = None\<rparr>] (srv_events s2)
     \<and> srv_running s2 \<and> \<not> is_running s3"
proof -
  have "srv_greeted (demo_server False)" "\<not> srv_running (demo_server False)"
    "on_reset (demo []) = default_reset"
    "\<And>p req. \<exists>p'. on_acquire_start (demo []) p req = (p', [], Inr ())"
    by (simp_all add: demo_defs)
  from stale_end_stops_the_next_capture [OF this refl refl, of tiny_wire
      "\<lparr>as_capture_id = 1, as_mode = 1\<rparr>" "\<lparr>as_capture_id = 2, as_mode = 1\<rparr>"]
  show ?thesis by auto
qed

end
