(* ===== verification/OCP_Threads.thy ===== *)
theory OCP_Threads
  imports OCP_Prelude OCP_Proto OCP_Error OCP_Args OCP_Transport OCP_Events OCP_Server
begin

text \<open>
  The control thread and the acquisition threads at the grain of the single
  accesses to \<open>Events\<close>: between any two of them another thread may be at any point
  of a push, between its store to the flag and its send too.  The code is that of
  \<open>dispatch\<close> in \<open>rust/openmso/src/server/mod.rs\<close>, cut at each read and each write of
  the flag and at the start and the end of a handler.  The lemmas show that these
  runs are one atomic \<open>dispatch\<close> with acts of pushes before it and after it.
\<close>

section \<open>The control thread, access by access\<close>

text \<open>
  Where the control thread is: about to look at the request, past the check of
  \<open>AcquireStart\<close> with the flag found clear, inside the handler, past an
  \<open>acquire_start\<close> that failed or a \<open>reset\<close> that succeeded with the flag still to be
  cleared, or done.
\<close>

datatype pc =
    Enter
  | Checked
  | InHandler
  | StartFailed proto_error
  | ResetDone
  | Replied "response reply"

text \<open>Entering the match: the guards, with their one read of the flag.\<close>

definition enter :: "'p server \<Rightarrow> request option \<Rightarrow> pc" where
  "enter s request =
     (case request of
        None \<Rightarrow> Replied (Inl (proto_error_invalid ''request carries no payload''))
      | Some request \<Rightarrow>
     if \<not> srv_greeted s \<and> \<not> is_hello request
     then Replied (Inl (proto_error_invalid ''Hello must be the first request''))
     else (case request of
        ReqHello _ \<Rightarrow>
          if srv_greeted s then Replied (Inl (proto_error_invalid ''Hello has already been answered''))
          else InHandler
      | ReqDescribe \<Rightarrow> if srv_running s then Replied (Inl busy) else InHandler
      | ReqGetConfig \<Rightarrow> if srv_running s then Replied (Inl busy) else InHandler
      | ReqSetConfig _ \<Rightarrow> if srv_running s then Replied (Inl busy) else InHandler
      | ReqAcquireStart _ \<Rightarrow> if srv_running s then Replied (Inl busy) else Checked
      | ReqAcquireStop _ \<Rightarrow> if srv_running s then InHandler else Replied (Inr RespAcquireStop)
      | ReqReset \<Rightarrow> InHandler
      | ReqShutdown \<Rightarrow> Replied (Inr RespShutdown)))"

text \<open>
  The handler returns.  What it pushed has gone out in steps of its own, so only the
  plugin state and the reply of its result count here.
\<close>

definition returns :: "('p, 'r) handler_result \<Rightarrow> ('r \<Rightarrow> pc) \<Rightarrow> 'p server \<Rightarrow> pc \<times> 'p server" where
  "returns result k s =
     (case result of (p, _, r) \<Rightarrow>
        (case r of Inl e \<Rightarrow> Replied (Inl e) | Inr x \<Rightarrow> k x, s\<lparr>srv_plugin := p\<rparr>))"

definition leave :: "'p capture_server \<Rightarrow> 'p server \<Rightarrow> request \<Rightarrow> pc \<times> 'p server" where
  "leave h s request =
     (case request of
        ReqHello req \<Rightarrow>
          (case returns (on_hello h (srv_plugin s) req) (\<lambda>r. Replied (Inr (RespHello r))) s of
             (Replied (Inr r), s) \<Rightarrow> (Replied (Inr r), s\<lparr>srv_greeted := True\<rparr>)
           | other \<Rightarrow> other)
      | ReqDescribe \<Rightarrow> returns (on_describe h (srv_plugin s)) (\<lambda>r. Replied (Inr (RespDescribe r))) s
      | ReqGetConfig \<Rightarrow> returns (on_get_config h (srv_plugin s)) (\<lambda>r. Replied (Inr (RespGetConfig r))) s
      | ReqSetConfig req \<Rightarrow>
          returns (on_set_config h (srv_plugin s) (unwrap_or (sc_config req) default_config))
            (\<lambda>r. Replied (Inr (RespSetConfig r))) s
      | ReqAcquireStart req \<Rightarrow>
          (case returns (on_acquire_start h (srv_plugin s) req) (\<lambda>_. Replied (Inr RespAcquireStart)) s of
             (Replied (Inl e), s) \<Rightarrow> (StartFailed e, s)
           | other \<Rightarrow> other)
      | ReqAcquireStop req \<Rightarrow>
          returns (on_acquire_stop h (srv_plugin s) req) (\<lambda>_. Replied (Inr RespAcquireStop)) s
      | ReqReset \<Rightarrow> returns (on_reset h (srv_plugin s)) (\<lambda>_. ResetDone) s
      | ReqShutdown \<Rightarrow> (Replied (Inr RespShutdown), s))"

text \<open>
  The steps, labelled with the acts of pushes they make: one access of the control
  thread, or one act of any thread, at any point.  The pushes a handler makes while it
  runs are acts like those of the other threads.
\<close>

inductive fine_step ::
  "wire \<Rightarrow> 'p capture_server \<Rightarrow> request option \<Rightarrow> pc \<times> 'p server \<Rightarrow> push_act list \<Rightarrow> pc \<times> 'p server \<Rightarrow> bool"
  for w :: wire and h :: "'p capture_server" and request :: "request option" where
  entered: "fine_step w h request (Enter, s) [] (enter s request, s)"
| flagged: "fine_step w h request (Checked, s) [] (InHandler, set_srv_running s True)"
| left: "request = Some rq \<Longrightarrow> fine_step w h request (InHandler, s) [] (leave h s rq)"
| undone: "fine_step w h request (StartFailed e, s) [] (Replied (Inl e), set_srv_running s False)"
| stopped: "fine_step w h request (ResetDone, s) [] (Replied (Inr RespReset), set_srv_running s False)"
| acted: "fine_step w h request (pc, s) [a] (pc, act_srv w a s)"

inductive fine_run ::
  "wire \<Rightarrow> 'p capture_server \<Rightarrow> request option \<Rightarrow> pc \<times> 'p server \<Rightarrow> push_act list \<Rightarrow> pc \<times> 'p server \<Rightarrow> bool"
  for w :: wire and h :: "'p capture_server" and request :: "request option" where
  begun: "fine_run w h request c [] c"
| more_steps: "fine_run w h request c acts c' \<Longrightarrow> fine_step w h request c' acts' c'' \<Longrightarrow>
    fine_run w h request c (acts @ acts') c''"

section \<open>The control thread alone\<close>

text \<open>The plugin whose handlers push nothing themselves.\<close>

definition quietly :: "('p, 'r) handler_result \<Rightarrow> ('p, 'r) handler_result" where
  "quietly result = (case result of (p, _, r) \<Rightarrow> (p, [], r))"

definition quiet_plugin :: "'p capture_server \<Rightarrow> 'p capture_server" where
  "quiet_plugin h =
     \<lparr>on_hello = (\<lambda>p req. quietly (on_hello h p req)),
      on_describe = (\<lambda>p. quietly (on_describe h p)),
      on_get_config = (\<lambda>p. quietly (on_get_config h p)),
      on_set_config = (\<lambda>p c. quietly (on_set_config h p c)),
      on_acquire_start = (\<lambda>p req. quietly (on_acquire_start h p req)),
      on_acquire_stop = (\<lambda>p req. quietly (on_acquire_stop h p req)),
      on_reset = (\<lambda>p. quietly (on_reset h p)),
      on_shutdown = on_shutdown h\<rparr>"

lemma call_quietly: "call w s (quietly (p, es, r)) arm = (s\<lparr>srv_plugin := p\<rparr>, map_ok arm r)"
  by (simp add: call_def quietly_def push_events_def)

text \<open>The state in which the handler of a request starts.\<close>

definition at_handler :: "'p server \<Rightarrow> request option \<Rightarrow> 'p server" where
  "at_handler s request =
     (case request of Some (ReqAcquireStart _) \<Rightarrow> set_srv_running s True | _ \<Rightarrow> s)"

definition reaches_handler :: "'p server \<Rightarrow> request option \<Rightarrow> bool" where
  "reaches_handler s request \<longleftrightarrow> enter s request = InHandler \<or> enter s request = Checked"

lemma enter_Checked:
  "enter s request = Checked \<longleftrightarrow>
     (\<exists>req. request = Some (ReqAcquireStart req)) \<and> srv_greeted s \<and> \<not> srv_running s"
  by (auto simp: enter_def split: option.splits request.splits if_splits)

lemma enter_not_other: "enter s request \<noteq> Enter" "enter s request \<noteq> StartFailed e" "enter s request \<noteq> ResetDone"
  by (auto simp: enter_def split: option.splits request.splits if_splits)

lemma enter_Replied: "enter s request = Replied r \<Longrightarrow> dispatch w h s request = (s, r)"
  by (auto simp: enter_def dispatch_def split: option.splits request.splits if_splits)

lemma enter_InHandler: "enter s request = InHandler \<Longrightarrow> at_handler s request = s"
  by (auto simp: enter_def at_handler_def split: option.splits request.splits if_splits)

lemma reaches_request: "reaches_handler s request \<Longrightarrow> \<exists>rq. request = Some rq"
  by (cases request) (simp_all add: reaches_handler_def enter_def)

text \<open>What the handler and the accesses after it make of a request is its \<open>dispatch\<close>.\<close>

fun concluded :: "pc \<times> 'p server \<Rightarrow> 'p server \<times> response reply" where
  "concluded (StartFailed e, s) = (set_srv_running s False, Inl e)"
| "concluded (ResetDone, s) = (set_srv_running s False, Inr RespReset)"
| "concluded (Replied r, s) = (s, r)"
| "concluded (_, s) = (s, Inl busy)"

lemma leave_concludes:
  "reaches_handler s (Some rq) \<Longrightarrow>
   dispatch w (quiet_plugin h) s (Some rq) = concluded (leave h (at_handler s (Some rq)) rq)"
  by (cases rq) (auto simp: reaches_handler_def enter_def leave_def at_handler_def dispatch_def
      quiet_plugin_def returns_def call_def quietly_def push_events_def split: prod.splits sum.splits if_splits)

lemma leave_pc:
  "fst (leave h s rq) \<noteq> Enter" "fst (leave h s rq) \<noteq> Checked" "fst (leave h s rq) \<noteq> InHandler"
  by (auto simp: leave_def returns_def split: request.splits prod.splits sum.splits pc.splits)

section \<open>Acts move past the control thread\<close>

text \<open>
  An act never sets the flag and touches neither the plugin nor the greeting, so that it
  may be made before or after whatever the control thread does from its check on.
\<close>

lemma acts_srv_plugin: "acts_srv w acts (s\<lparr>srv_plugin := p\<rparr>) = (acts_srv w acts s)\<lparr>srv_plugin := p\<rparr>"
  by (simp add: acts_srv_def)

lemma acts_srv_greeted: "acts_srv w acts (s\<lparr>srv_greeted := g\<rparr>) = (acts_srv w acts s)\<lparr>srv_greeted := g\<rparr>"
  by (simp add: acts_srv_def)

lemma do_act_clear: "set_running (fst (do_act enc a es)) False = fst (do_act enc a (set_running es False))"
  by (cases a) (auto simp: set_running_def split: prod.splits)

lemma do_acts_clear: "set_running (do_acts enc acts es) False = do_acts enc acts (set_running es False)"
  by (induction acts arbitrary: es) (simp_all add: do_act_clear)

lemma acts_srv_clear:
  "set_srv_running (acts_srv w acts s) False = acts_srv w acts (set_srv_running s False)"
  by (simp add: set_srv_running_def acts_srv_def do_acts_clear)

lemma returns_acts:
  "returns result k (acts_srv w acts s) = apsnd (acts_srv w acts) (returns result k s)"
  by (simp add: returns_def acts_srv_plugin split: prod.splits)

lemma leave_acts: "leave h (acts_srv w acts s) rq = apsnd (acts_srv w acts) (leave h s rq)"
  by (auto simp: leave_def returns_def acts_srv_plugin acts_srv_greeted
      split: request.splits prod.splits sum.splits pc.splits)

lemma concluded_acts: "concluded (apsnd (acts_srv w acts) c) = apfst (acts_srv w acts) (concluded c)"
  by (cases c rule: concluded.cases) (simp_all add: acts_srv_clear)

lemma enter_acted: "enter s request = Checked \<Longrightarrow> enter (acts_srv w acts s) request = Checked"
  by (auto simp: enter_Checked)

section \<open>The atomic view of a run\<close>

text \<open>
  What each point of the control thread says: the state is one that the control thread
  alone brings about from the state \<open>t\<close> after some of the acts, followed by the others.
\<close>

fun point :: "wire \<Rightarrow> 'p capture_server \<Rightarrow> request option \<Rightarrow> 'p server \<Rightarrow> pc \<Rightarrow> 'p server \<Rightarrow> bool" where
  "point w h request t Enter s \<longleftrightarrow> s = t"
| "point w h request t Checked s \<longleftrightarrow> s = t \<and> enter t request = Checked"
| "point w h request t InHandler s \<longleftrightarrow> reaches_handler t request \<and> s = at_handler t request"
| "point w h request t (Replied r) s \<longleftrightarrow> dispatch w (quiet_plugin h) t request = (s, r)"
| "point w h request t pc s \<longleftrightarrow>
     (\<exists>rq. request = Some rq \<and> reaches_handler t request \<and> leave h (at_handler t request) rq = (pc, s))"

definition accounts ::
  "wire \<Rightarrow> 'p capture_server \<Rightarrow> request option \<Rightarrow> 'p server \<Rightarrow> push_act list \<Rightarrow> pc \<times> 'p server \<Rightarrow> bool" where
  "accounts w h request s0 acts c \<longleftrightarrow>
     (\<exists>pre post s1. acts = pre @ post \<and> point w h request (acts_srv w pre s0) (fst c) s1
        \<and> snd c = acts_srv w post s1)"

lemma accountsI:
  "point w h request (acts_srv w pre s0) pc s1 \<Longrightarrow> s = acts_srv w post s1 \<Longrightarrow>
   accounts w h request s0 (pre @ post) (pc, s)"
  by (auto simp: accounts_def)

lemma accounts_acted:
  "accounts w h request s0 acts (pc, s) \<Longrightarrow> accounts w h request s0 (acts @ [a]) (pc, act_srv w a s)"
  unfolding accounts_def by (elim exE conjE, rule exI, rule_tac x = "post @ [a]" in exI) auto

text \<open>Before the handler nothing but acts has happened.\<close>

lemma accounts_before:
  "accounts w h request s0 acts (pc, s) \<Longrightarrow> pc = Enter \<or> pc = Checked \<Longrightarrow>
   s = acts_srv w acts s0 \<and> (pc = Checked \<longrightarrow> enter s request = Checked)"
  by (auto simp: accounts_def enter_acted)

lemma accounts_now:
  "point w h request (acts_srv w acts s0) pc s \<Longrightarrow> accounts w h request s0 acts (pc, s)"
  using accountsI [where post = "[]"] by fastforce

lemma accounts_entered:
  assumes "accounts w h request s0 acts (Enter, s)"
  shows "accounts w h request s0 acts (enter s request, s)"
proof -
  have s: "s = acts_srv w acts s0" using accounts_before [OF assms] by simp
  show ?thesis
  proof (cases "enter s request")
    case InHandler
    with enter_InHandler [OF InHandler] s show ?thesis
      by (intro accounts_now) (simp add: reaches_handler_def)
  next
    case (Replied r)
    with enter_Replied [OF Replied] s show ?thesis by (intro accounts_now) simp
  qed (use s in \<open>auto simp: enter_not_other intro: accounts_now\<close>)
qed

lemma accounts_flagged:
  assumes "accounts w h request s0 acts (Checked, s)"
  shows "accounts w h request s0 acts (InHandler, set_srv_running s True)"
proof -
  have s: "s = acts_srv w acts s0" and c: "enter s request = Checked"
    using accounts_before [OF assms] by blast+
  from c enter_Checked obtain req where "request = Some (ReqAcquireStart req)" by blast
  with s c show ?thesis by (intro accounts_now) (simp add: reaches_handler_def at_handler_def)
qed

text \<open>From the end of the handler on the rest of the control thread is fixed.\<close>

lemma accounts_left:
  assumes "accounts w h request s0 acts (InHandler, s)" and "request = Some rq"
  shows "accounts w h request s0 acts (leave h s rq)"
proof -
  from assms(1) obtain pre post where x: "acts = pre @ post" "reaches_handler (acts_srv w pre s0) request"
    "s = acts_srv w post (at_handler (acts_srv w pre s0) request)"
    by (auto simp: accounts_def)
  let ?c = "leave h (at_handler (acts_srv w pre s0) request) rq"
  have "point w h request (acts_srv w pre s0) (fst ?c) (snd ?c)"
    using x(2) leave_concludes [of "acts_srv w pre s0" rq w h] leave_pc [of h "at_handler (acts_srv w pre s0) request" rq]
    by (cases ?c rule: concluded.cases) (auto simp: assms(2))
  then have "accounts w h request s0 (pre @ post) (fst ?c, acts_srv w post (snd ?c))"
    by (rule accountsI) simp
  then show ?thesis by (simp add: x leave_acts apsnd_def map_prod_def case_prod_beta)
qed

lemma accounts_concluded:
  assumes "accounts w h request s0 acts (pc, s)" and "pc = StartFailed e \<or> pc = ResetDone"
    and "concluded (pc, s) = (s', r)"
  shows "accounts w h request s0 acts (Replied r, s')"
proof -
  from assms(1,2) obtain pre post rq s1 where x: "acts = pre @ post" "request = Some rq"
    "reaches_handler (acts_srv w pre s0) request" "leave h (at_handler (acts_srv w pre s0) request) rq = (pc, s1)"
    "s = acts_srv w post s1"
    by (auto simp: accounts_def)
  from leave_concludes [of "acts_srv w pre s0" rq w h] x
  have "dispatch w (quiet_plugin h) (acts_srv w pre s0) request = concluded (pc, s1)" by simp
  moreover have "concluded (pc, s1) = (fst (concluded (pc, s1)), r)" "s' = acts_srv w post (fst (concluded (pc, s1)))"
    using assms(2,3) x(5) by (auto simp: acts_srv_clear)
  ultimately show ?thesis unfolding x(1) by (intro accountsI) simp_all
qed

lemma accounts_step:
  "fine_step w h request c acts' c' \<Longrightarrow> accounts w h request s0 acts c \<Longrightarrow>
   accounts w h request s0 (acts @ acts') c'"
  by (induction rule: fine_step.induct)
    (auto intro: accounts_entered accounts_flagged accounts_left accounts_acted accounts_concluded)

lemma accounts_run:
  "fine_run w h request c acts c' \<Longrightarrow> c = (Enter, s0) \<Longrightarrow> accounts w h request s0 acts c'"
proof (induction rule: fine_run.induct)
  case (more_steps c acts c' acts' c'')
  then show ?case by (blast intro: accounts_step)
qed (simp add: accounts_now)

section \<open>Every atomic dispatch is a run\<close>

lemma run_acts:
  "fine_run w h request c acts (pc, s) \<Longrightarrow> fine_run w h request c (acts @ acts') (pc, acts_srv w acts' s)"
proof (induction acts' arbitrary: acts s)
  case (Cons a acts')
  from Cons.IH [OF fine_run.more_steps [OF Cons.prems fine_step.acted]] show ?case by simp
qed simp

lemma run_silent: "fine_run w h request c acts c' \<Longrightarrow> fine_step w h request c' [] c'' \<Longrightarrow> fine_run w h request c acts c''"
  using fine_run.more_steps by fastforce

lemma run_concluded:
  assumes "fine_run w h request c acts (leave h s rq)" and "concluded (leave h s rq) = (s', r)"
  shows "fine_run w h request c acts (Replied r, s')"
  using assms leave_pc [of h s rq]
  by (cases "leave h s rq" rule: concluded.cases)
    (auto intro: run_silent fine_step.undone fine_step.stopped)

lemma dispatch_runs:
  assumes "fine_run w h request c acts (Enter, s)" and "dispatch w (quiet_plugin h) s request = (s', r)"
  shows "fine_run w h request c acts (Replied r, s')"
proof -
  have entered: "fine_run w h request c acts (enter s request, s)"
    by (rule run_silent [OF assms(1) fine_step.entered])
  show ?thesis
  proof (cases "reaches_handler s request")
    case True
    then obtain rq where rq: "request = Some rq" using reaches_request by blast
    have "fine_run w h request c acts (InHandler, at_handler s request)"
    proof (cases "enter s request")
      case InHandler
      with entered enter_InHandler [OF InHandler] show ?thesis by simp
    next
      case Checked
      with enter_Checked [of s request] have "at_handler s request = set_srv_running s True"
        by (auto simp: at_handler_def)
      with run_silent [OF entered [unfolded Checked] fine_step.flagged] show ?thesis by simp
    qed (use True in \<open>simp_all add: reaches_handler_def\<close>)
    from run_silent [OF this fine_step.left [OF rq]] show ?thesis
      by (rule run_concluded) (use assms(2) leave_concludes [of s rq w h] True rq in simp)
  next
    case False
    then obtain r' where "enter s request = Replied r'"
      using enter_not_other [of s request] by (cases "enter s request") (auto simp: reaches_handler_def)
    with entered enter_Replied [of s request r' w "quiet_plugin h"] assms(2) show ?thesis by simp
  qed
qed

text \<open>
  A whole dispatch with the pushes of its handler is one of these runs: the control thread
  and then the acts of the pushes.
\<close>

lemma call_acts:
  "call w s (p, evs, r) arm
     = (acts_srv w (concat (map push_acts evs)) (s\<lparr>srv_plugin := p\<rparr>), map_ok arm r)"
  by (simp add: call_def acts_srv_def push_events_acts)

lemma dispatch_acts:
  "dispatch w h s request
     = apfst (acts_srv w (if reaches_handler s request then concat (map push_acts (handler_events h s request)) else []))
         (dispatch w (quiet_plugin h) s request)"
proof (cases request)
  case (Some rq)
  show ?thesis
    by (cases rq) (auto simp: Some reaches_handler_def enter_def dispatch_def quiet_plugin_def quietly_def
        handler_events_def call_acts acts_srv_clear acts_srv_greeted Let_def split: prod.splits sum.splits if_splits)
qed (simp add: reaches_handler_def enter_def dispatch_def)

section \<open>Properties\<close>

text \<open>
  C10. Requests are atomic.  Whatever pushes other threads or the handler itself make,
  cut anywhere, also between their store to the flag and their send, and between any two
  accesses of the control thread: the runs in which a request is answered are exactly
  those of one undivided \<open>dispatch\<close>, some of the acts of the pushes before it and the
  others after it, in their order, with the same plugin state, flag, messages on the
  stream and reply.
\<close>

theorem requests_are_atomic:
  "fine_run w h request (Enter, s) acts (Replied r, s') \<longleftrightarrow>
     (\<exists>pre post s1. acts = pre @ post
        \<and> dispatch w (quiet_plugin h) (acts_srv w pre s) request = (s1, r)
        \<and> s' = acts_srv w post s1)"
proof
  assume "fine_run w h request (Enter, s) acts (Replied r, s')"
  from accounts_run [OF this refl] show "\<exists>pre post s1. acts = pre @ post
      \<and> dispatch w (quiet_plugin h) (acts_srv w pre s) request = (s1, r) \<and> s' = acts_srv w post s1"
    by (simp add: accounts_def)
next
  assume "\<exists>pre post s1. acts = pre @ post
      \<and> dispatch w (quiet_plugin h) (acts_srv w pre s) request = (s1, r) \<and> s' = acts_srv w post s1"
  then obtain pre post s1 where x: "acts = pre @ post"
    "dispatch w (quiet_plugin h) (acts_srv w pre s) request = (s1, r)" "s' = acts_srv w post s1"
    by blast
  have "fine_run w h request (Enter, s) pre (Enter, acts_srv w pre s)"
    using run_acts [OF fine_run.begun, of w h request Enter s pre] by simp
  from run_acts [OF dispatch_runs [OF this x(2)], of post] show
    "fine_run w h request (Enter, s) acts (Replied r, s')"
    by (simp add: x)
qed

text \<open>
  The end of the first capture, cleared before a start and sent after it: the start is
  accepted, the second capture runs, and the end comes after what its handler pushes.
\<close>

abbreviation end_of_first :: event where
  "end_of_first \<equiv> CaptureEnd \<lparr>ce_capture_id = 1, ce_error = None\<rparr>"

theorem requests_are_atomic_witness:
  "\<exists>s'. fine_run tiny_wire (demo []) (Some (ReqAcquireStart demo_start)) (Enter, demo_server True)
       [ClearFlag, PutEvent (Log \<lparr>log_level = 0, log_message = ''started''\<rparr>), PutEvent end_of_first]
       (Replied (Inr RespAcquireStart), s')
     \<and> srv_running s'"
proof -
  let ?t = "act_srv tiny_wire ClearFlag (demo_server True)"
  have t: "srv_greeted ?t" "\<not> srv_running ?t" by (simp, simp add: demo_server_def) simp
  have "\<exists>s1. dispatch tiny_wire (quiet_plugin (demo [])) ?t (Some (ReqAcquireStart demo_start))
      = (s1, Inr RespAcquireStart) \<and> srv_running s1"
    using t by (simp add: dispatch_def call_def push_events_def quiet_plugin_def quietly_def demo_def
        set_srv_running_def set_running_def is_running_def)
  then obtain s1 where s1: "dispatch tiny_wire (quiet_plugin (demo []))
      (acts_srv tiny_wire [ClearFlag] (demo_server True)) (Some (ReqAcquireStart demo_start))
      = (s1, Inr RespAcquireStart)" "srv_running s1"
    by auto
  let ?post = "[PutEvent (Log \<lparr>log_level = 0, log_message = ''started''\<rparr>), PutEvent end_of_first]"
  have "fine_run tiny_wire (demo []) (Some (ReqAcquireStart demo_start)) (Enter, demo_server True)
      (ClearFlag # ?post) (Replied (Inr RespAcquireStart), acts_srv tiny_wire ?post s1)"
    unfolding requests_are_atomic
    by (rule exI [of _ "[ClearFlag]"], rule exI [of _ ?post], rule exI [of _ s1]) (use s1(1) in simp)
  moreover have "srv_running (acts_srv tiny_wire ?post s1)" using s1(2) by simp
  ultimately show ?thesis by blast
qed

end
