(* ===== verification/OCP_Client.thy ===== *)
theory OCP_Client
  imports OCP_Prelude OCP_Proto OCP_Error OCP_Encoding OCP_Args OCP_Transport OCP_Events OCP_Server
begin

text \<open>
  \<open>rust/openmso/src/client.rs\<close>: the frontend's handle on a plugin: launching it,
  the typed requests on the control socket, the event stream, and taking the
  process down.
\<close>

section \<open>The plugin process\<close>

definition REQUEST_TIMEOUT :: duration where
  "REQUEST_TIMEOUT = from_secs 60"

text \<open>
  \<open>std::process::Child\<close>.  \<open>stubborn\<close> says that the process does not exit by itself
  once it has been asked to and its standard input is closed.
\<close>

datatype process_state = Running | Exited | Reaped

record child =
  proc_program :: string
  proc_args :: "string list"
  proc_stdin_open :: bool
  proc_state :: process_state
  proc_stubborn :: bool

text \<open>\<open>kill\<close> does nothing to a process that has exited.\<close>

definition child_kill :: "child \<Rightarrow> child" where
  "child_kill ch = (if proc_state ch = Running then ch\<lparr>proc_state := Exited\<rparr> else ch)"

text \<open>\<open>wait\<close> closes standard input first; \<open>None\<close> is a wait that never returns.\<close>

definition child_wait :: "child \<Rightarrow> child option" where
  "child_wait ch =
     (if proc_state ch = Running \<and> proc_stubborn ch then None
      else Some (ch\<lparr>proc_stdin_open := False, proc_state := Reaped\<rparr>))"

section \<open>The client\<close>

record capture_client =
  cl_child :: child
  cl_control :: socket
  cl_events :: socket
  cl_endpoints :: endpoints
  cl_seq :: u32
  cl_capture_id :: u64

text \<open>The child's argument list, after the program.\<close>

definition child_args :: "string list \<Rightarrow> string \<Rightarrow> endpoints \<Rightarrow> string list" where
  "child_args rest device e =
     rest @ [''--device'', device] @ [''--control'', ep_control e] @ [''--events'', ep_events e]"

definition setup_sockets :: "nng_env \<Rightarrow> endpoints \<Rightarrow> unit result" where
  "setup_sockets nng e =
     rbind (build_socket nng Req0) (\<lambda>_.
     rbind (listen nng Req0 (ep_control e)) (\<lambda>_.
     rbind (set_recv_timeout nng Req0 (Some REQUEST_TIMEOUT)) (\<lambda>_.
     rbind (build_socket nng Pull0) (\<lambda>_.
     rbind (listen nng Pull0 (ep_events e)) (\<lambda>_. Inr ())))))"

text \<open>
  \<open>CaptureClient::launch\<close>.  \<open>spawn\<close> is what the operating system says of starting
  the process and \<open>stubborn\<close> how the started process will behave; \<open>control\<close> and
  \<open>events\<close> are what the two sockets will report.  An early return drops the
  \<open>Endpoints\<close>.
\<close>

definition launch ::
  "nng_env \<Rightarrow> env_vars \<Rightarrow> u32 \<Rightarrow> u32 \<Rightarrow> (string \<Rightarrow> string list \<Rightarrow> io_error option) \<Rightarrow> bool \<Rightarrow>
   socket \<Rightarrow> socket \<Rightarrow> fs \<Rightarrow> string list \<Rightarrow> string \<Rightarrow> fs \<times> capture_client result" where
  "launch nng env now pid spawn stubborn control events fs argv device =
     (case argv of
        [] \<Rightarrow> (fs, Inl (Protocol EmptyArgv))
      | program # rest \<Rightarrow>
     (case new_endpoints env now pid fs of
        (fs, Inl e) \<Rightarrow> (fs, Inl e)
      | (fs, Inr endpoints) \<Rightarrow>
     (case setup_sockets nng endpoints of
        Inl e \<Rightarrow> (drop_endpoints fs endpoints, Inl e)
      | Inr _ \<Rightarrow>
     (let args = child_args rest device endpoints in
      case spawn program args of
        Some e \<Rightarrow> (drop_endpoints fs endpoints, Inl (error_from_io e))
      | None \<Rightarrow>
          (fs, Inr \<lparr>cl_child = \<lparr>proc_program = program, proc_args = args, proc_stdin_open = True,
                      proc_state = Running, proc_stubborn = stubborn\<rparr>,
                    cl_control = control, cl_events = events, cl_endpoints = endpoints,
                    cl_seq = 0, cl_capture_id = 0\<rparr>)))))"

definition set_request_timeout :: "nng_env \<Rightarrow> duration option \<Rightarrow> unit result" where
  "set_request_timeout nng timeout = set_recv_timeout nng Req0 timeout"

definition set_event_timeout :: "nng_env \<Rightarrow> duration option \<Rightarrow> unit result" where
  "set_event_timeout nng timeout = set_recv_timeout nng Pull0 timeout"

definition next_capture_id :: "profile \<Rightarrow> capture_client \<Rightarrow> (capture_client \<times> u64) outcome" where
  "next_capture_id prof c =
     obind (u64_add prof (cl_capture_id c) 1) (\<lambda>n. Ret (c\<lparr>cl_capture_id := n\<rparr>, n))"

section \<open>Requests\<close>

text \<open>\<open>CaptureClient::request\<close>; \<open>None\<close> is a receive that blocks.\<close>

type_synonym 'r answered = "(capture_client \<times> 'r result) option"

definition client_request :: "wire \<Rightarrow> capture_client \<Rightarrow> request \<Rightarrow> response answered" where
  "client_request w c request =
     (let seq = cl_seq c + 1; c = c\<lparr>cl_seq := seq\<rparr> in
      case send (enc_request w) (cl_control c) \<lparr>rq_seq = seq, rq_request = Some request\<rparr> of
        (control, Inl e) \<Rightarrow> Some (c\<lparr>cl_control := control\<rparr>, Inl e)
      | (control, Inr _) \<Rightarrow>
          (case recv (dec_response w) control of
             None \<Rightarrow> None
           | Some (control, Inl e) \<Rightarrow> Some (c\<lparr>cl_control := control\<rparr>, Inl e)
           | Some (control, Inr response) \<Rightarrow>
               Some (c\<lparr>cl_control := control\<rparr>,
                 if rs_seq response \<noteq> seq then Inl (Protocol (ReplyOutOfStep seq (rs_seq response)))
                 else (case (rs_error response, rs_response response) of
                         (Some e, _) \<Rightarrow> Inl (Remote e)
                       | (None, Some r) \<Rightarrow> Inr r
                       | (None, None) \<Rightarrow> Inl (Protocol EmptyReply)))))"

fun response_name :: "response \<Rightarrow> string" where
  "response_name (RespHello _) = ''Hello''"
| "response_name (RespDescribe _) = ''Describe''"
| "response_name (RespGetConfig _) = ''GetConfig''"
| "response_name (RespSetConfig _) = ''SetConfig''"
| "response_name RespAcquireStart = ''AcquireStart''"
| "response_name RespAcquireStop = ''AcquireStop''"
| "response_name RespReset = ''Reset''"
| "response_name RespShutdown = ''Shutdown''"

definition unexpected :: "string \<Rightarrow> response \<Rightarrow> error" where
  "unexpected request got = Protocol (UnexpectedResult request (response_name got))"

text \<open>The \<open>?\<close> and the match on the reply that every typed request ends with.\<close>

definition matching :: "(response \<Rightarrow> 'r result) \<Rightarrow> response answered \<Rightarrow> 'r answered" where
  "matching m a = map_option (\<lambda>(c, r). (c, rbind r m)) a"

definition make_hello :: "string \<Rightarrow> string \<Rightarrow> hello" where
  "make_hello client_name client_version =
     \<lparr>he_protocol = PROTOCOL_VERSION, he_client_name = client_name,
      he_client_version = client_version,
      he_accept_encodings = map sample_encoding_i32 ENCODINGS,
      he_accept_codecs = map codec_i32 CODECS\<rparr>"

definition client_hello :: "wire \<Rightarrow> capture_client \<Rightarrow> string \<Rightarrow> string \<Rightarrow> hello_result answered" where
  "client_hello w c client_name client_version =
     matching (\<lambda>other. case other of RespHello r \<Rightarrow> Inr r | _ \<Rightarrow> Inl (unexpected ''Hello'' other))
       (client_request w c (ReqHello (make_hello client_name client_version)))"

definition client_describe :: "wire \<Rightarrow> capture_client \<Rightarrow> description answered" where
  "client_describe w c =
     matching (\<lambda>other. case other of RespDescribe r \<Rightarrow> Inr r | _ \<Rightarrow> Inl (unexpected ''Describe'' other))
       (client_request w c ReqDescribe)"

definition client_get_config :: "wire \<Rightarrow> capture_client \<Rightarrow> config answered" where
  "client_get_config w c =
     matching (\<lambda>other. case other of RespGetConfig r \<Rightarrow> Inr r | _ \<Rightarrow> Inl (unexpected ''GetConfig'' other))
       (client_request w c ReqGetConfig)"

definition client_set_config :: "wire \<Rightarrow> capture_client \<Rightarrow> config \<Rightarrow> config answered" where
  "client_set_config w c config =
     matching (\<lambda>other. case other of RespSetConfig r \<Rightarrow> Inr r | _ \<Rightarrow> Inl (unexpected ''SetConfig'' other))
       (client_request w c (ReqSetConfig \<lparr>sc_config = Some config\<rparr>))"

definition client_acquire_start :: "wire \<Rightarrow> capture_client \<Rightarrow> u64 \<Rightarrow> acquire_mode \<Rightarrow> unit answered" where
  "client_acquire_start w c capture_id mode =
     matching (\<lambda>other. case other of RespAcquireStart \<Rightarrow> Inr () | _ \<Rightarrow> Inl (unexpected ''AcquireStart'' other))
       (client_request w c
         (ReqAcquireStart \<lparr>as_capture_id = capture_id, as_mode = acquire_mode_i32 mode\<rparr>))"

definition client_acquire_stop :: "wire \<Rightarrow> capture_client \<Rightarrow> u64 \<Rightarrow> unit answered" where
  "client_acquire_stop w c capture_id =
     matching (\<lambda>other. case other of RespAcquireStop \<Rightarrow> Inr () | _ \<Rightarrow> Inl (unexpected ''AcquireStop'' other))
       (client_request w c (ReqAcquireStop \<lparr>ap_capture_id = capture_id\<rparr>))"

definition client_reset :: "wire \<Rightarrow> capture_client \<Rightarrow> unit answered" where
  "client_reset w c =
     matching (\<lambda>other. case other of RespReset \<Rightarrow> Inr () | _ \<Rightarrow> Inl (unexpected ''Reset'' other))
       (client_request w c ReqReset)"

text \<open>\<open>CaptureClient::shutdown\<close> waits for the process whatever the reply was.\<close>

definition client_shutdown :: "wire \<Rightarrow> capture_client \<Rightarrow> unit answered" where
  "client_shutdown w c =
     (case client_request w c ReqShutdown of
        None \<Rightarrow> None
      | Some (c, reply) \<Rightarrow>
          (let result = (case reply of
                           Inr RespShutdown \<Rightarrow> Inr ()
                         | Inr other \<Rightarrow> Inl (unexpected ''Shutdown'' other)
                         | Inl e \<Rightarrow> Inl e) in
           map_option (\<lambda>ch. (c\<lparr>cl_child := ch\<rparr>, result)) (child_wait (cl_child c))))"

definition next_event :: "wire \<Rightarrow> capture_client \<Rightarrow> event_msg answered" where
  "next_event w c =
     map_option (\<lambda>(s, r). (c\<lparr>cl_events := s\<rparr>, r)) (recv (dec_event w) (cl_events c))"

text \<open>
  \<open>EventStream\<close>: a second handle on the event socket, so it works on the same
  socket state.
\<close>

definition event_stream :: "capture_client \<Rightarrow> socket" where
  "event_stream c = cl_events c"

definition stream_next_event :: "wire \<Rightarrow> socket \<Rightarrow> (socket \<times> event_msg result) option" where
  "stream_next_event w s = recv (dec_event w) s"

definition stream_set_timeout :: "nng_env \<Rightarrow> duration option \<Rightarrow> unit result" where
  "stream_set_timeout nng timeout = set_recv_timeout nng Pull0 timeout"

text \<open>
  \<open>Drop\<close>: kill, then reap; then the fields are dropped, the \<open>Endpoints\<close> last.
\<close>

definition drop_client :: "fs \<Rightarrow> capture_client \<Rightarrow> (fs \<times> child) option" where
  "drop_client fs c =
     map_option (\<lambda>ch. (drop_endpoints fs (cl_endpoints c), ch)) (child_wait (child_kill (cl_child c)))"

section \<open>One request and its reply\<close>

lemma client_request_sent:
  assumes "refuses (cl_control c) = None"
    and "sk_inbox (cl_control c) = Inr bs # rest" and "dec_response w bs = Inr m"
  shows "\<exists>c'. client_request w c request = Some (c',
      if rs_seq m \<noteq> cl_seq c + 1 then Inl (Protocol (ReplyOutOfStep (cl_seq c + 1) (rs_seq m)))
      else (case (rs_error m, rs_response m) of
              (Some e, _) \<Rightarrow> Inl (Remote e) | (None, Some r) \<Rightarrow> Inr r
            | (None, None) \<Rightarrow> Inl (Protocol EmptyReply)))
    \<and> cl_seq c' = cl_seq c + 1 \<and> cl_child c' = cl_child c \<and> cl_events c' = cl_events c
    \<and> cl_endpoints c' = cl_endpoints c \<and> cl_capture_id c' = cl_capture_id c
    \<and> sk_inbox (cl_control c') = rest
    \<and> sk_sent (cl_control c')
        = sk_sent (cl_control c) @ [enc_request w \<lparr>rq_seq = cl_seq c + 1, rq_request = Some request\<rparr>]"
proof -
  let ?m = "\<lparr>rq_seq = cl_seq c + 1, rq_request = Some request\<rparr>"
  show ?thesis
    using assms send_snd [of "enc_request w" "cl_control c" ?m]
    by (cases rule: send_cases [of "enc_request w" "cl_control c" ?m])
      (simp_all add: client_request_def recv_def Let_def)
qed

lemma client_request_answered_iff:
  "(\<exists>c'. client_request w c request = Some (c', Inr r)) \<longleftrightarrow>
     refuses (cl_control c) = None
     \<and> (\<exists>bs rest. sk_inbox (cl_control c) = Inr bs # rest
          \<and> dec_response w bs
            = Inr \<lparr>rs_seq = cl_seq c + 1, rs_error = None, rs_response = Some r\<rparr>)"
  (is "?L \<longleftrightarrow> ?R")
proof
  assume ?L
  let ?m = "\<lparr>rq_seq = cl_seq c + 1, rq_request = Some request\<rparr>"
  from \<open>?L\<close> send_snd [of "enc_request w" "cl_control c" ?m] show ?R
    by (cases rule: send_cases [of "enc_request w" "cl_control c" ?m])
      (auto simp: client_request_def recv_def Let_def split: list.splits sum.splits option.splits
        if_splits intro: response_msg.equality)
next
  assume ?R
  then show ?L using client_request_sent [of c _ _ w] by fastforce
qed

section \<open>A client and a service\<close>

text \<open>
  Laws of every client call that hold against any service with the contract of
  \<open>request_service\<close>.
\<close>

context request_service
begin

lemma call_service:
  assumes "serve_one s \<lparr>rq_seq = cl_seq c + 1, rq_request = Some rq\<rparr> = (s', r)"
    and "refuses (cl_control c) = None"
    and "sk_inbox (cl_control c) = Inr bs # rest" and "dec_response w bs = Inr r"
  obtains (refused) c' e where "client_request w c rq = Some (c', Inl (Remote e))"
      "r = \<lparr>rs_seq = cl_seq c + 1, rs_error = Some e, rs_response = None\<rparr>"
      "cl_seq c' = cl_seq c + 1" "cl_child c' = cl_child c"
  | (answered) c' resp where "client_request w c rq = Some (c', Inr resp)"
      "r = \<lparr>rs_seq = cl_seq c + 1, rs_error = None, rs_response = Some resp\<rparr>"
      "response_arm resp = request_arm rq"
      "cl_seq c' = cl_seq c + 1" "cl_child c' = cl_child c"
proof -
  note sent = client_request_sent [OF assms(2-4), of rq]
  show thesis
  proof (rule reply_cases [OF assms(1)])
    fix e assume "r = \<lparr>rs_seq = rq_seq \<lparr>rq_seq = cl_seq c + 1, rq_request = Some rq\<rparr>,
      rs_error = Some e, rs_response = None\<rparr>"
    with sent refused show thesis by auto
  next
    fix resp assume "r = \<lparr>rs_seq = rq_seq \<lparr>rq_seq = cl_seq c + 1, rq_request = Some rq\<rparr>,
        rs_error = None, rs_response = Some resp\<rparr>"
      "map_option request_arm (rq_request \<lparr>rq_seq = cl_seq c + 1, rq_request = Some rq\<rparr>)
        = Some (response_arm resp)"
    with sent answered show thesis by auto
  qed
qed

lemma never_out_of_step:
  assumes "serve_one s \<lparr>rq_seq = cl_seq c + 1, rq_request = Some rq\<rparr> = (s', r)"
    and "refuses (cl_control c) = None"
    and "sk_inbox (cl_control c) = Inr bs # rest" and "dec_response w bs = Inr r"
    and "client_request w c rq = Some (c', Inl e)"
  shows "\<exists>e'. e = Remote e'"
  by (rule call_service [OF assms(1-4)]) (use assms(5) in auto)

end

text \<open>
  One request over a sound link: the socket accepts it, the serving loop's answer
  to its bytes is the next message to come, and the generated codecs read back the
  two messages concerned.
\<close>

definition exchange ::
  "wire \<Rightarrow> 'p capture_server \<Rightarrow> 'p server \<Rightarrow> capture_client \<Rightarrow> request \<Rightarrow> bool" where
  "exchange w h s c rq \<longleftrightarrow>
     (let m = \<lparr>rq_seq = cl_seq c + 1, rq_request = Some rq\<rparr>;
          r = snd (answer_bytes w h s (enc_request w m)) in
      refuses (cl_control c) = None
      \<and> (case sk_inbox (cl_control c) of Inr bs # _ \<Rightarrow> bs = enc_response w r | _ \<Rightarrow> False)
      \<and> dec_request w (enc_request w m) = Inr m
      \<and> dec_response w (enc_response w r) = Inr r)"

definition remotely :: "'r reply \<Rightarrow> 'r result" where
  "remotely v = (case v of Inl e \<Rightarrow> Inl (Remote e) | Inr x \<Rightarrow> Inr x)"

lemma exchange_outcome:
  assumes "exchange w h s c rq"
  obtains c' where "client_request w c rq = Some (c', remotely (snd (dispatch w h s (Some rq))))"
    "cl_child c' = cl_child c"
    "\<And>resp. snd (dispatch w h s (Some rq)) = Inr resp \<Longrightarrow> response_arm resp = request_arm rq"
proof -
  let ?m = "\<lparr>rq_seq = cl_seq c + 1, rq_request = Some rq\<rparr>"
  obtain s' out where d: "dispatch w h s (Some rq) = (s', out)" by fastforce
  from assms have refuses: "refuses (cl_control c) = None"
    and dec: "dec_request w (enc_request w ?m) = Inr ?m"
    by (simp_all add: exchange_def Let_def)
  then have a: "answer_bytes w h s (enc_request w ?m) = answer w h s ?m"
    by (simp add: answer_bytes_def)
  have ans: "answer w h s ?m = (s', make_response (cl_seq c + 1) out)"
    using d by (simp add: answer_def)
  from assms a ans obtain bs rest where box: "sk_inbox (cl_control c) = Inr bs # rest"
    "dec_response w bs = Inr (make_response (cl_seq c + 1) out)"
    by (auto simp: exchange_def Let_def split: list.splits sum.splits)
  show thesis
    by (rule loop.call_service [OF ans refuses box])
      (use that d in \<open>auto simp: make_response_def remotely_def split: sum.splits\<close>)
qed

text \<open>What a typed call returns, given what the server's dispatcher says.\<close>

definition agrees :: "response reply \<Rightarrow> ('r \<Rightarrow> response) \<Rightarrow> 'r answered \<Rightarrow> bool" where
  "agrees out arm a \<longleftrightarrow> (\<exists>c' v. out = map_ok arm v \<and> a = Some (c', remotely v))"

lemma agrees_matching:
  assumes "exchange w h s c rq"
    and "\<And>resp. response_arm resp = request_arm rq \<Longrightarrow> \<exists>x. resp = arm x"
    and "\<And>x. m (arm x) = Inr x"
  shows "agrees (snd (dispatch w h s (Some rq))) arm (matching m (client_request w c rq))"
proof (rule exchange_outcome [OF assms(1)])
  fix c'
  assume call: "client_request w c rq = Some (c', remotely (snd (dispatch w h s (Some rq))))"
    and arm: "\<And>resp. snd (dispatch w h s (Some rq)) = Inr resp \<Longrightarrow> response_arm resp = request_arm rq"
  show ?thesis
  proof (cases "snd (dispatch w h s (Some rq))")
    case (Inl e)
    with call show ?thesis
      by (auto simp: agrees_def matching_def remotely_def intro: exI [of _ "Inl e"])
  next
    case (Inr resp)
    with arm assms(2) obtain x where "resp = arm x" by blast
    with call Inr assms(3) show ?thesis
      by (auto simp: agrees_def matching_def remotely_def intro!: exI [of _ "Inr x"])
  qed
qed

lemma response_arm_iff [simp]:
  "response_arm r = 10 \<longleftrightarrow> (\<exists>x. r = RespHello x)"
  "response_arm r = 11 \<longleftrightarrow> (\<exists>x. r = RespDescribe x)"
  "response_arm r = 12 \<longleftrightarrow> (\<exists>x. r = RespGetConfig x)"
  "response_arm r = 13 \<longleftrightarrow> (\<exists>x. r = RespSetConfig x)"
  "response_arm r = 14 \<longleftrightarrow> r = RespAcquireStart"
  "response_arm r = 15 \<longleftrightarrow> r = RespAcquireStop"
  "response_arm r = 16 \<longleftrightarrow> r = RespReset"
  "response_arm r = 17 \<longleftrightarrow> r = RespShutdown"
  by (cases r; simp)+

section \<open>Launching\<close>

text \<open>A directory that does not exist has nothing in it.\<close>

definition no_orphans :: "env_vars \<Rightarrow> fs \<Rightarrow> bool" where
  "no_orphans env fs \<longleftrightarrow>
     (\<forall>t p. unat t < 0x10000 \<longrightarrow> fs_dirs fs (tag_dir env t) = None
        \<longrightarrow> starts_with p (tag_dir env t @ ''/'') \<longrightarrow> fs_dirs fs p = None)"

text \<open>Making the endpoints and dropping them again touches the base directory only.\<close>

lemma drop_new_endpoints:
  assumes "new_endpoints env now pid fs = (fs1, Inr e)" and "no_orphans env fs"
    and "fs_fault fs RemoveAll (ep_dir e) = None" and "p \<noteq> runtime_base env"
  shows "undisturbed env fs (drop_endpoints fs1 e) p"
proof -
  obtain t where t: "unat t < 0x10000" "fs_dirs fs (tag_dir env t) = None"
    "fs1 = with_dir env fs t" "e = endpoints_at env t"
    by (rule new_endpoints_Inr [OF assms(1)])
  then have drop: "fs_dirs (drop_endpoints fs1 e) p
      = (if p = tag_dir env t \<or> starts_with p (tag_dir env t @ ''/'') then None else fs_dirs fs1 p)"
    using assms(3) by (simp add: drop_endpoints_def remove_dir_all_def endpoints_at_def with_dir_def Let_def)
  have "starts_with p (tag_dir env t @ ''/'') \<Longrightarrow> fs_dirs fs p = None"
    using assms(2) t(1,2) by (auto simp: no_orphans_def)
  moreover have "p \<noteq> tag_dir env t \<Longrightarrow> undisturbed env fs fs1 p"
    using with_dir_other [OF assms(4)] by (simp add: t(3))
  ultimately show ?thesis
    using drop t(2) by (auto simp: undisturbed_def ancestor_made_def)
qed

text \<open>Only \<open>Endpoints::new\<close> finds a path too long.\<close>

lemma set_opts_nng: "set_opts env p opts = Inl err \<Longrightarrow> \<exists>e. err = Nng e"
  by (induction opts) (auto simp: rbind_def try_nng_def split: option.splits sum.splits)

lemma setup_sockets_short: "setup_sockets nng e = Inl err \<Longrightarrow> \<not> too_long (Inl err :: 'a result)"
  by (auto simp: setup_sockets_def build_socket_def listen_def set_recv_timeout_def try_nng_def too_long_def
      rbind_def Let_def dest: set_opts_nng split: option.splits sum.splits if_splits)

lemma launch_cases:
  obtains (empty) "argv = []"
      "launch nng env now pid spawn st ctl evs fs argv device = (fs, Inl (Protocol EmptyArgv))"
  | (endpoints) program rest fs1 e where "argv = program # rest"
      "new_endpoints env now pid fs = (fs1, Inl e)"
      "launch nng env now pid spawn st ctl evs fs argv device = (fs1, Inl e)"
  | (failed) program rest fs1 ep e where "argv = program # rest"
      "new_endpoints env now pid fs = (fs1, Inr ep)"
      "launch nng env now pid spawn st ctl evs fs argv device = (drop_endpoints fs1 ep, Inl e)"
      "\<not> too_long (Inl e :: capture_client result)"
  | (launched) program rest fs1 ep where "argv = program # rest"
      "new_endpoints env now pid fs = (fs1, Inr ep)" "setup_sockets nng ep = Inr ()"
      "spawn program (child_args rest device ep) = None"
      "launch nng env now pid spawn st ctl evs fs argv device =
        (fs1, Inr \<lparr>cl_child = \<lparr>proc_program = program, proc_args = child_args rest device ep,
              proc_stdin_open = True, proc_state = Running, proc_stubborn = st\<rparr>,
            cl_control = ctl, cl_events = evs, cl_endpoints = ep, cl_seq = 0, cl_capture_id = 0\<rparr>)"
proof (cases argv)
  case Nil
  with empty show thesis by (simp add: launch_def)
next
  case (Cons program rest)
  obtain fs1 r where n: "new_endpoints env now pid fs = (fs1, r)" by fastforce
  show thesis
  proof (cases r)
    case (Inl e)
    with Cons n endpoints show thesis by (simp add: launch_def)
  next
    case (Inr ep)
    show thesis
    proof (cases "setup_sockets nng ep")
      case (Inl e)
      with Cons n \<open>r = Inr ep\<close> failed show thesis
        by (simp add: launch_def setup_sockets_short [OF Inl])
    next
      case (Inr u)
      with Cons n \<open>r = Inr ep\<close> failed launched show thesis
        by (cases "spawn program (child_args rest device ep)") (simp_all add: launch_def Let_def too_long_def)
    qed
  qed
qed

lemma setup_sockets_Inr:
  "setup_sockets nng e = Inr () \<Longrightarrow>
   (\<exists>opts. listen nng Req0 (ep_control e) = Inr opts) \<and> (\<exists>opts. listen nng Pull0 (ep_events e) = Inr opts)"
  by (auto simp: setup_sockets_def return_iff)

text \<open>What \<open>Args::parse\<close> makes of a manifest's arguments followed by the client's own.\<close>

lemma child_args_parsed:
  shows "items_ok items \<Longrightarrow> rest = render items \<Longrightarrow>
      parse_args (child_args rest device ep)
        = Inr \<lparr>arg_device = device, arg_control = ep_control ep, arg_events = ep_events ep\<rparr>"
    and "items_ok items \<Longrightarrow> fst (split_flag word) \<notin> set flags \<Longrightarrow> rest = render items @ word # others \<Longrightarrow>
      parse_args (child_args rest device ep) = Inl (Protocol (UnknownArgument (fst (split_flag word))))"
    and "items_ok items \<Longrightarrow> flag \<in> set flags \<Longrightarrow> fst (split_flag device) \<notin> set flags \<Longrightarrow>
      rest = render items @ [flag] \<Longrightarrow>
      parse_args (child_args rest device ep) = Inl (Protocol (UnknownArgument (fst (split_flag device))))"
proof -
  let ?own = "[(Separate, ''--device'', device), (Separate, ''--control'', ep_control ep),
    (Separate, ''--events'', ep_events ep)]"
  assume ok: "items_ok items" and rest: "rest = render items"
  have "items_ok (items @ ?own)" using ok by (simp add: items_ok_def flags_def)
  from parse_args_render [OF this] show "parse_args (child_args rest device ep)
      = Inr \<lparr>arg_device = device, arg_control = ep_control ep, arg_events = ep_events ep\<rparr>"
    by (simp add: child_args_def rest render_def last_args_def last_value_def)
next
  assume "items_ok items" "fst (split_flag word) \<notin> set flags" "rest = render items @ word # others"
  then show "parse_args (child_args rest device ep)
      = Inl (Protocol (UnknownArgument (fst (split_flag word))))"
    by (simp add: child_args_def parse_args_stop(2))
next
  assume ok: "items_ok items" "flag \<in> set flags" and stop: "fst (split_flag device) \<notin> set flags"
    and rest: "rest = render items @ [flag]"
  have "items_ok (items @ [(Separate, flag, ''--device'')])" using ok by (simp add: items_ok_def)
  from parse_args_stop(2) [OF this stop] show "parse_args (child_args rest device ep)
      = Inl (Protocol (UnknownArgument (fst (split_flag device))))"
    by (simp add: child_args_def rest render_def)
qed

lemma drop_client_Some:
  "\<exists>ch. drop_client fs c = Some (drop_endpoints fs (cl_endpoints c), ch)
     \<and> proc_state ch = Reaped \<and> \<not> proc_stdin_open ch"
  by (simp add: drop_client_def child_wait_def child_kill_def)

text \<open>Capture ids count from one; only after \<open>2 ^ 64 - 1\<close> of them does the counter overflow.\<close>

fun capture_ids :: "profile \<Rightarrow> nat \<Rightarrow> capture_client \<Rightarrow> (capture_client \<times> u64 list) outcome" where
  "capture_ids prof 0 c = Ret (c, [])"
| "capture_ids prof (Suc n) c =
     obind (next_capture_id prof c) (\<lambda>(c, i). obind (capture_ids prof n c) (\<lambda>(c, is). Ret (c, i # is)))"

lemma capture_ids_run:
  "unat (cl_capture_id c) + n < 2 ^ 64 \<Longrightarrow>
   \<exists>c' ids. capture_ids prof n c = Ret (c', ids)
     \<and> map unat ids = [unat (cl_capture_id c) + 1..<unat (cl_capture_id c) + 1 + n]"
proof (induction n arbitrary: c)
  case (Suc n)
  let ?c = "c\<lparr>cl_capture_id := cl_capture_id c + 1\<rparr>"
  have inc: "unat (cl_capture_id c + 1) = unat (cl_capture_id c) + 1"
    using Suc.prems by (intro trans [OF unat_add_exact]) simp_all
  have "next_capture_id prof c = Ret (?c, cl_capture_id c + 1)"
    using Suc.prems by (simp add: next_capture_id_def u64_add_def)
  moreover from Suc.IH [of ?c] Suc.prems inc obtain c' ids where
    "capture_ids prof n ?c = Ret (c', ids)"
    "map unat ids = [unat (cl_capture_id c) + 2..<unat (cl_capture_id c) + 2 + n]" by auto
  ultimately show ?case using inc by (simp add: upt_conv_Cons del: upt_Suc)
qed simp

section \<open>Properties\<close>

definition demo_client :: "(nng_error + bytes) list \<Rightarrow> capture_client" where
  "demo_client inbox =
     \<lparr>cl_child = \<lparr>proc_program = ''/opt/demo/plugin'', proc_args = [], proc_stdin_open = True,
        proc_state = Running, proc_stubborn = False\<rparr>,
      cl_control = quiet_socket\<lparr>sk_inbox := inbox\<rparr>, cl_events = quiet_socket,
      cl_endpoints = endpoints_at example_env 2, cl_seq = 0, cl_capture_id = 0\<rparr>"

text \<open>
  C34. A request succeeds exactly when it was sent and the next message to arrive
  decodes to a reply with its own number and no error, and then with the result of
  that reply.  A reply to an earlier request that arrives late, up to
  \<open>2 ^ 32 - 1\<close> requests back, is refused as out of step, whatever it carries.
\<close>

theorem only_its_own_reply:
  assumes "refuses (cl_control c') = None" and "sk_inbox (cl_control c') = Inr bs # rest"
    and "dec_response w bs = Inr late" and "rs_seq late = cl_seq c' - of_nat k"
    and "k < 2 ^ 32 - 1"
  shows "((\<exists>c1. client_request w c rq = Some (c1, Inr r)) \<longleftrightarrow>
       refuses (cl_control c) = None
       \<and> (\<exists>bs rest. sk_inbox (cl_control c) = Inr bs # rest
            \<and> dec_response w bs
              = Inr \<lparr>rs_seq = cl_seq c + 1, rs_error = None, rs_response = Some r\<rparr>))
    \<and> (\<exists>c1. client_request w c' rq
         = Some (c1, Inl (Protocol (ReplyOutOfStep (cl_seq c' + 1) (rs_seq late)))))"
proof -
  have "rs_seq late \<noteq> cl_seq c' + 1"
  proof
    assume "rs_seq late = cl_seq c' + 1"
    with assms(4) have "(of_nat (Suc k) :: u32) = 0"
      by (simp add: algebra_simps)
    moreover have "unat (of_nat (Suc k) :: u32) = Suc k"
      using assms(5) by (simp only: unat_of_nat) (rule mod_less, simp)
    ultimately show False by simp
  qed
  with client_request_sent [OF assms(1-3), of rq] client_request_answered_iff [of w c rq r]
  show ?thesis by auto
qed

theorem only_its_own_reply_witness:
  "(\<exists>c1. client_request tiny_wire (demo_client [Inr [1, 16]]) ReqReset = Some (c1, Inr RespReset))
   \<and> (\<exists>c1. client_request tiny_wire ((demo_client [Inr [4, 16]])\<lparr>cl_seq := 5\<rparr>) ReqReset
        = Some (c1, Inl (Protocol (ReplyOutOfStep 6 4))))"
  using only_its_own_reply [of "(demo_client [Inr [4, 16]])\<lparr>cl_seq := 5\<rparr>" "[4, 16]" "[]" tiny_wire
      "\<lparr>rs_seq = 4, rs_error = None, rs_response = Some RespReset\<rparr>" 1 "demo_client [Inr [1, 16]]"
      ReqReset RespReset]
  by (simp add: demo_client_def quiet_socket_def refuses_def tiny_wire_def)

text \<open>
  C11. Over a sound link every typed call of the client, \<open>hello\<close> included, returns what
  the server's dispatcher says to its request: the value of the handler, or the refusal as
  a remote error.  None of them ever fails as out of step, empty or of the wrong kind.
  \<open>shutdown\<close> does so once the process has exited, which it reaps; with a process that runs
  on it never returns.
\<close>

theorem calls_agree_with_server:
  "(exchange w h s c (ReqHello (make_hello name version)) \<longrightarrow>
      agrees (snd (dispatch w h s (Some (ReqHello (make_hello name version))))) RespHello
        (client_hello w c name version))
   \<and> (exchange w h s c ReqDescribe \<longrightarrow>
      agrees (snd (dispatch w h s (Some ReqDescribe))) RespDescribe (client_describe w c))
   \<and> (exchange w h s c ReqGetConfig \<longrightarrow>
      agrees (snd (dispatch w h s (Some ReqGetConfig))) RespGetConfig (client_get_config w c))
   \<and> (exchange w h s c (ReqSetConfig \<lparr>sc_config = Some cfg\<rparr>) \<longrightarrow>
      agrees (snd (dispatch w h s (Some (ReqSetConfig \<lparr>sc_config = Some cfg\<rparr>)))) RespSetConfig
        (client_set_config w c cfg))
   \<and> (exchange w h s c (ReqAcquireStart \<lparr>as_capture_id = i, as_mode = acquire_mode_i32 mode\<rparr>) \<longrightarrow>
      agrees (snd (dispatch w h s
          (Some (ReqAcquireStart \<lparr>as_capture_id = i, as_mode = acquire_mode_i32 mode\<rparr>))))
        (\<lambda>_. RespAcquireStart) (client_acquire_start w c i mode))
   \<and> (exchange w h s c (ReqAcquireStop \<lparr>ap_capture_id = i\<rparr>) \<longrightarrow>
      agrees (snd (dispatch w h s (Some (ReqAcquireStop \<lparr>ap_capture_id = i\<rparr>))))
        (\<lambda>_. RespAcquireStop) (client_acquire_stop w c i))
   \<and> (exchange w h s c ReqReset \<longrightarrow>
      agrees (snd (dispatch w h s (Some ReqReset))) (\<lambda>_. RespReset) (client_reset w c))
   \<and> (exchange w h s c ReqShutdown \<longrightarrow>
      (if proc_state (cl_child c) = Running \<and> proc_stubborn (cl_child c)
       then client_shutdown w c = None
       else agrees (snd (dispatch w h s (Some ReqShutdown))) (\<lambda>_. RespShutdown) (client_shutdown w c)
         \<and> (\<forall>c' r. client_shutdown w c = Some (c', r) \<longrightarrow> proc_state (cl_child c') = Reaped)))"
proof (intro conjI impI)
  assume x: "exchange w h s c ReqShutdown"
  obtain c' where call: "client_request w c ReqShutdown
      = Some (c', remotely (snd (dispatch w h s (Some ReqShutdown))))" "cl_child c' = cl_child c"
    by (rule exchange_outcome [OF x])
  show "if proc_state (cl_child c) = Running \<and> proc_stubborn (cl_child c)
       then client_shutdown w c = None
       else agrees (snd (dispatch w h s (Some ReqShutdown))) (\<lambda>_. RespShutdown) (client_shutdown w c)
         \<and> (\<forall>c' r. client_shutdown w c = Some (c', r) \<longrightarrow> proc_state (cl_child c') = Reaped)"
    using call
    by (auto simp: dispatch_shutdown client_shutdown_def child_wait_def agrees_def remotely_def Let_def
        intro: exI [of _ "Inr ()"] exI [of _ "Inl (proto_error_invalid _)"])
qed (auto simp: client_hello_def client_describe_def client_get_config_def client_set_config_def
    client_acquire_start_def client_acquire_stop_def client_reset_def intro!: agrees_matching)

lemma demo_exchange:
  "exchange tiny_wire (demo []) (demo_server False) (demo_client [Inr [1, 14]])
     (ReqAcquireStart \<lparr>as_capture_id = 1, as_mode = acquire_mode_i32 AcquireSingle\<rparr>)"
  by (simp add: exchange_def answer_bytes_def answer_def dispatch_def call_def make_response_def
      set_srv_running_def set_running_def refuses_def demo_client_def demo_defs)

theorem calls_agree_with_server_witness:
  "agrees (snd (dispatch tiny_wire (demo []) (demo_server False)
       (Some (ReqAcquireStart \<lparr>as_capture_id = 1, as_mode = acquire_mode_i32 AcquireSingle\<rparr>))))
     (\<lambda>_. RespAcquireStart) (client_acquire_start tiny_wire (demo_client [Inr [1, 14]]) 1 AcquireSingle)"
  using calls_agree_with_server [of tiny_wire "demo []" "demo_server False" "demo_client [Inr [1, 14]]"
      "[]" "[]" default_config 1 AcquireSingle] demo_exchange
  by blast


lemma demo_launch:
  "\<exists>c. launch example_nng example_env 7 5 (\<lambda>_ _. None) False quiet_socket quiet_socket example_fs
      (''/opt/demo/plugin'' # render [(Inline, ''--events'', ''tcp'')]) ''demo://0''
    = (with_dir example_env example_fs 2, Inr c)"
  using new_example
  by (simp add: launch_def setup_sockets_def build_socket_def listen_def set_recv_timeout_def try_nng_def
      example_nng_def Let_def)


text \<open>
  C26. What is left behind.  Where the operating system refuses no removal: a launch that
  fails leaves no directory but the base directory, with such ancestors of it as were
  missing, except when it fails because the path of a socket is too long, and then exactly
  one more, the one it has just made; a launch followed by dropping the client leaves the
  base only.  And the drop always comes to an end, with the process reaped, however
  stubborn it is.
\<close>

theorem nothing_left_behind:
  assumes "launch nng env now pid spawn st ctl evs fs argv device = (fs', r)"
    and "no_orphans env fs" and "\<And>dir. fs_fault fs RemoveAll dir = None"
  shows "case r of
      Inl e \<Rightarrow>
        (if too_long r
         then \<exists>t. fs_dirs fs (tag_dir env t) = None
           \<and> fs_dirs fs' (tag_dir env t) = Some (mode_700 AND NOT (fs_umask fs))
           \<and> (\<forall>p. p \<notin> {runtime_base env, tag_dir env t} \<longrightarrow> undisturbed env fs fs' p)
         else \<forall>p. p \<noteq> runtime_base env \<longrightarrow> undisturbed env fs fs' p)
    | Inr c \<Rightarrow> \<exists>fs'' ch. drop_client fs' c = Some (fs'', ch) \<and> proc_state ch = Reaped
        \<and> (\<forall>p. p \<noteq> runtime_base env \<longrightarrow> undisturbed env fs fs'' p)"
proof (rule launch_cases [of argv nng env now pid spawn st ctl evs fs device])
  fix program rest fs1 e
  assume n: "new_endpoints env now pid fs = (fs1, Inl e)"
    and l: "launch nng env now pid spawn st ctl evs fs argv device = (fs1, Inl e)"
  have tl: "too_long r = too_long (Inl e :: endpoints result)"
    using l assms(1) by (auto simp: too_long_def)
  show ?thesis
  proof (cases "too_long r")
    case True
    with new_endpoints_Inl [OF n] tl obtain t where
      "fs_dirs fs (tag_dir env t) = None" "fs1 = with_dir env fs t" by auto
    with True l assms(1) with_dir_other [of _ env t fs] show ?thesis
      by (auto simp: with_dir_def Let_def intro!: exI [of _ t])
  next
    case False
    with new_endpoints_Inl [OF n] tl have "only_base env fs fs1" by simp
    with False l assms(1) show ?thesis by (auto intro: only_base_other)
  qed
next
  fix program rest fs1 ep e
  assume n: "new_endpoints env now pid fs = (fs1, Inr ep)"
    and l: "launch nng env now pid spawn st ctl evs fs argv device = (drop_endpoints fs1 ep, Inl e)"
    and tl: "\<not> too_long (Inl e :: capture_client result)"
  from drop_new_endpoints [OF n assms(2,3)] l assms(1) tl show ?thesis by auto
next
  fix program rest fs1 ep
  let ?c = "\<lparr>cl_child = \<lparr>proc_program = program, proc_args = child_args rest device ep,
              proc_stdin_open = True, proc_state = Running, proc_stubborn = st\<rparr>,
            cl_control = ctl, cl_events = evs, cl_endpoints = ep, cl_seq = 0, cl_capture_id = 0\<rparr>"
  assume n: "new_endpoints env now pid fs = (fs1, Inr ep)"
    and l: "launch nng env now pid spawn st ctl evs fs argv device = (fs1, Inr ?c)"
  from drop_client_Some [of fs1 ?c] drop_new_endpoints [OF n assms(2,3)] assms(1) l
  show ?thesis by auto
qed (use assms(1) in \<open>auto simp: too_long_def undisturbed_def\<close>)

theorem nothing_left_behind_witness:
  "\<exists>fs' e. launch example_nng example_env 7 5 (\<lambda>_ _. Some \<lparr>io_kind = OtherKind 2, io_text = ''not found''\<rparr>)
        False quiet_socket quiet_socket example_fs [''/opt/demo/plugin''] ''demo://0'' = (fs', Inl e)
     \<and> fs_dirs fs' (tag_dir example_env 2) = None"
proof -
  let ?launch = "launch example_nng example_env 7 5 (\<lambda>_ _. Some \<lparr>io_kind = OtherKind 2, io_text = ''not found''\<rparr>)
        False quiet_socket quiet_socket example_fs [''/opt/demo/plugin''] ''demo://0''"
  have "\<not> starts_with ''/run/user/1000/openmso'' (tag_dir example_env t @ ''/'')" if "unat t < 0x10000" for t
    using length_tag_dir [OF that, of example_env] by (auto simp: example_base dest!: starts_with_length)
  then have orphans: "no_orphans example_env example_fs"
    by (auto simp: no_orphans_def example_fs_def)
  have fault: "fs_fault example_fs RemoveAll dir = None" for dir by (simp add: example_fs_def)
  obtain fs' where l: "?launch = (fs', Inl (Io \<lparr>io_kind = OtherKind 2, io_text = ''not found''\<rparr>))"
    using new_example
    by (simp add: launch_def setup_sockets_def build_socket_def listen_def set_recv_timeout_def try_nng_def
        example_nng_def Let_def)
  moreover have "fs_dirs example_fs (tag_dir example_env 2) = None"
    by (simp add: example_fs_def tag_dir_form example_base)
  moreover have base_known: "base_ready example_env example_fs"
    by (simp add: base_ready_def example_base example_fs_def)
  ultimately show ?thesis
    using nothing_left_behind [OF l orphans fault] base_known
    by (auto simp: too_long_def undisturbed_def ancestor_made_def)
qed

text \<open>
  Capture ids are fresh: counting from any point, successive calls of
  \<open>next_capture_id\<close> give consecutive numbers, none of them zero and no two alike, in
  either build, until \<open>2 ^ 64 - 1\<close> has been given; the call after that panics with
  overflow checks and starts over from zero without.
\<close>

lemma capture_ids_fresh:
  assumes "unat (cl_capture_id c) + n < 2 ^ 64" and "cl_capture_id spent = 0xFFFFFFFFFFFFFFFF"
  shows "(\<exists>c' ids. capture_ids prof n c = Ret (c', ids) \<and> length ids = n
       \<and> map unat ids = [unat (cl_capture_id c) + 1..<unat (cl_capture_id c) + 1 + n]
       \<and> distinct ids \<and> 0 \<notin> set ids)
    \<and> next_capture_id Debug spent = Panic ArithOverflow
    \<and> (\<exists>c'. next_capture_id Release spent = Ret (c', 0))"
proof (intro conjI)
  obtain c' ids where run: "capture_ids prof n c = Ret (c', ids)"
    and ids: "map unat ids = [unat (cl_capture_id c) + 1..<unat (cl_capture_id c) + 1 + n]"
    using capture_ids_run [OF assms(1)] by blast
  have "distinct (map unat ids)" by (simp only: ids distinct_upt)
  then have "distinct ids" by (simp add: distinct_map)
  moreover have "0 \<notin> set ids"
  proof
    assume "0 \<in> set ids"
    then have "unat (0 :: u64) \<in> set (map unat ids)" by (simp only: set_map imageI)
    then show False by (simp only: ids) auto
  qed
  moreover from arg_cong [OF ids, of length] have "length ids = n" by simp
  ultimately show "\<exists>c' ids. capture_ids prof n c = Ret (c', ids) \<and> length ids = n
       \<and> map unat ids = [unat (cl_capture_id c) + 1..<unat (cl_capture_id c) + 1 + n]
       \<and> distinct ids \<and> 0 \<notin> set ids"
    using run ids by blast
qed (simp_all add: next_capture_id_def u64_add_def assms(2))

lemma capture_ids_fresh_witness:
  "\<exists>c' ids. capture_ids Debug 3 (demo_client []) = Ret (c', ids) \<and> map unat ids = [1, 2, 3]"
proof -
  have "unat (cl_capture_id (demo_client [])) + 3 < 2 ^ 64" by (simp add: demo_client_def)
  moreover have "cl_capture_id ((demo_client [])\<lparr>cl_capture_id := 0xFFFFFFFFFFFFFFFF\<rparr>) = 0xFFFFFFFFFFFFFFFF" by simp
  moreover have "[1..<1 + 3] = [1, 2, 3 :: nat]" by (simp add: upt_rec)
  ultimately show ?thesis
    using capture_ids_fresh [of "demo_client []" 3 "(demo_client [])\<lparr>cl_capture_id := 0xFFFFFFFFFFFFFFFF\<rparr>" Debug]
    by (auto simp: demo_client_def)
qed

end
