(* ===== verification/OCP_System.thy ===== *)
theory OCP_System
  imports OCP_Prelude OCP_Proto OCP_Error OCP_Transport OCP_Events OCP_Server OCP_Client
begin

text \<open>
  A frontend and its plugin together: the client of \<open>client.rs\<close>, the server of
  \<open>server/mod.rs\<close> and the two sockets between them, with requests that time out and
  are answered late, and with threads that push events at any time.
\<close>

section \<open>The composed system\<close>

text \<open>
  Besides the two ends: the requests given up by the client and still on their way
  to the server, the pushes that threads have begun and not finished, with the acts they
  still have to make, and how many messages of the event stream have arrived at the
  client.  For the statements below only: the epoch, which is the number of captures
  begun; for each push, and for each message of the stream, the epoch in which the push
  began; what the client has read from the stream; and the outcomes of its calls.
\<close>

record 'p system =
  sys_srv :: "'p server"
  sys_cl :: capture_client
  sys_pending :: "bytes list"
  sys_arrived :: nat
  sys_pushes :: "(nat \<times> push_act list) list"
  sys_epoch :: nat
  sys_born :: "nat list"
  sys_seen :: "event_msg result list"
  sys_results :: "response result list"

abbreviation stream_sent :: "'p server \<Rightarrow> bytes list" where
  "stream_sent s \<equiv> sk_sent (ev_socket (srv_events s))"

text \<open>Whether a message makes the server begin a capture.\<close>

definition begins_capture :: "wire \<Rightarrow> 'p server \<Rightarrow> bytes \<Rightarrow> bool" where
  "begins_capture w s bs \<longleftrightarrow>
     (case dec_request w bs of
        Inl _ \<Rightarrow> False
      | Inr rq \<Rightarrow>
          (case rq_request rq of
             Some (ReqAcquireStart _) \<Rightarrow> srv_greeted s \<and> \<not> srv_running s
           | _ \<Rightarrow> False))"

definition epoch_after :: "wire \<Rightarrow> 'p server \<Rightarrow> bytes \<Rightarrow> nat \<Rightarrow> nat" where
  "epoch_after w s bs epoch = (if begins_capture w s bs then epoch + 1 else epoch)"

text \<open>The messages by which \<open>s'\<close> is ahead of \<open>s\<close> belong to pushes of epoch \<open>b\<close>.\<close>

definition born_after :: "nat \<Rightarrow> 'p server \<Rightarrow> 'p server \<Rightarrow> nat list \<Rightarrow> nat list" where
  "born_after b s s' born = born @ replicate (length (stream_sent s') - length (stream_sent s)) b"

definition change_srv :: "nat \<Rightarrow> 'p server \<Rightarrow> 'p system \<Rightarrow> 'p system" where
  "change_srv b s' y = y\<lparr>sys_srv := s', sys_born := born_after b (sys_srv y) s' (sys_born y)\<rparr>"

text \<open>A message has been answered; what the handler pushed it has pushed in the epoch after it.\<close>

definition answered_by :: "wire \<Rightarrow> bytes \<Rightarrow> 'p server \<Rightarrow> 'p system \<Rightarrow> 'p system" where
  "answered_by w bs s' y =
     (let epoch = epoch_after w (sys_srv y) bs (sys_epoch y) in
      (change_srv epoch s' y)\<lparr>sys_epoch := epoch\<rparr>)"

text \<open>A push in its epoch, as long as acts of it are left.\<close>

definition still :: "nat \<Rightarrow> push_act list \<Rightarrow> (nat \<times> push_act list) list" where
  "still b acts = (if acts = [] then [] else [(b, acts)])"

definition request_of :: "capture_client \<Rightarrow> request \<Rightarrow> request_msg" where
  "request_of c rq = \<lparr>rq_seq = cl_seq c + 1, rq_request = Some rq\<rparr>"

definition control_inbox :: "capture_client \<Rightarrow> (nng_error + bytes) list \<Rightarrow> capture_client" where
  "control_inbox c msgs = c\<lparr>cl_control := (cl_control c)\<lparr>sk_inbox := msgs\<rparr>\<rparr>"

definition events_arrive :: "capture_client \<Rightarrow> bytes \<Rightarrow> capture_client" where
  "events_arrive c bs =
     c\<lparr>cl_events := (cl_events c)\<lparr>sk_inbox := sk_inbox (cl_events c) @ [Inr bs]\<rparr>\<rparr>"

text \<open>
  The steps.  A reply socket takes requests in the order they were sent, so a call
  is answered only when no earlier request is pending; a request socket drops the
  reply to a request that has been given up.  A thread begins a push at any time and
  makes its acts one by one, each at any time; so may any number of threads.  A handler
  pushes as part of its request here; \<open>requests_are_atomic\<close> shows that the pushes of a
  handler, cut into their acts, are like those of a thread of a plugin whose handlers
  push nothing.
\<close>

inductive sys_step :: "wire \<Rightarrow> 'p capture_server \<Rightarrow> 'p system \<Rightarrow> 'p system \<Rightarrow> bool"
  for w :: wire and h :: "'p capture_server" where
  answered: "\<lbrakk>sys_pending y = []; m = request_of (sys_cl y) rq;
      dec_request w (enc_request w m) = Inr m;
      answer_bytes w h (sys_srv y) (enc_request w m) = (s', r);
      dec_response w (enc_response w r) = Inr r;
      client_request w (control_inbox (sys_cl y) [Inr (enc_response w r)]) rq = Some (c', out);
      refuses (cl_control (sys_cl y)) = None\<rbrakk> \<Longrightarrow>
    sys_step w h y ((answered_by w (enc_request w m) s' y)\<lparr>sys_cl := c',
      sys_results := sys_results y @ [out]\<rparr>)"
| unsent: "\<lbrakk>refuses (cl_control (sys_cl y)) = Some e;
      client_request w (sys_cl y) rq = Some (c', out)\<rbrakk> \<Longrightarrow>
    sys_step w h y (y\<lparr>sys_cl := c', sys_results := sys_results y @ [out]\<rparr>)"
| given_up: "\<lbrakk>refuses (cl_control (sys_cl y)) = None; m = request_of (sys_cl y) rq;
      client_request w (control_inbox (sys_cl y) [Inl e]) rq = Some (c', out)\<rbrakk> \<Longrightarrow>
    sys_step w h y (y\<lparr>sys_cl := c', sys_pending := sys_pending y @ [enc_request w m],
      sys_results := sys_results y @ [out]\<rparr>)"
| late: "\<lbrakk>sys_pending y = bs # rest; answer_bytes w h (sys_srv y) bs = (s', r)\<rbrakk> \<Longrightarrow>
    sys_step w h y ((answered_by w bs s' y)\<lparr>sys_pending := rest\<rparr>)"
| pushes: "sys_step w h y (y\<lparr>sys_pushes := sys_pushes y @ [(sys_epoch y, push_acts ev)]\<rparr>)"
| acts: "sys_pushes y = ps @ (b, a # rest) # qs \<Longrightarrow>
    sys_step w h y ((change_srv b (act_srv w a (sys_srv y)) y)\<lparr>sys_pushes := ps @ still b rest @ qs\<rparr>)"
| arrives: "sys_arrived y < length (stream_sent (sys_srv y)) \<Longrightarrow>
    sys_step w h y (y\<lparr>sys_cl := events_arrive (sys_cl y) (stream_sent (sys_srv y) ! sys_arrived y),
      sys_arrived := sys_arrived y + 1\<rparr>)"
| read: "next_event w (sys_cl y) = Some (c', r) \<Longrightarrow>
    sys_step w h y (y\<lparr>sys_cl := c', sys_seen := sys_seen y @ [r]\<rparr>)"

definition sys_start :: "'p \<Rightarrow> socket \<Rightarrow> capture_client \<Rightarrow> 'p system" where
  "sys_start p stream c =
     \<lparr>sys_srv = new_server p stream, sys_cl = c, sys_pending = [], sys_arrived = 0,
      sys_pushes = [], sys_epoch = 0, sys_born = replicate (length (sk_sent stream)) 0,
      sys_seen = [], sys_results = []\<rparr>"

inductive sys_reach :: "wire \<Rightarrow> 'p capture_server \<Rightarrow> 'p system \<Rightarrow> 'p system \<Rightarrow> bool"
  for w :: wire and h :: "'p capture_server" and y :: "'p system" where
  sys_here: "sys_reach w h y y"
| sys_more: "sys_reach w h y y' \<Longrightarrow> sys_step w h y' y'' \<Longrightarrow> sys_reach w h y y''"

inductive_cases sys_stepE [elim]: "sys_step w h y y'"

lemma change_srv_simps [simp]:
  "sys_srv (change_srv b s' y) = s'" "sys_cl (change_srv b s' y) = sys_cl y"
  "sys_pending (change_srv b s' y) = sys_pending y" "sys_arrived (change_srv b s' y) = sys_arrived y"
  "sys_pushes (change_srv b s' y) = sys_pushes y" "sys_epoch (change_srv b s' y) = sys_epoch y"
  "sys_born (change_srv b s' y) = born_after b (sys_srv y) s' (sys_born y)"
  "sys_seen (change_srv b s' y) = sys_seen y" "sys_results (change_srv b s' y) = sys_results y"
  by (simp_all add: change_srv_def)

lemma answered_by_simps [simp]:
  "sys_srv (answered_by w bs s' y) = s'" "sys_cl (answered_by w bs s' y) = sys_cl y"
  "sys_pending (answered_by w bs s' y) = sys_pending y" "sys_arrived (answered_by w bs s' y) = sys_arrived y"
  "sys_pushes (answered_by w bs s' y) = sys_pushes y"
  "sys_epoch (answered_by w bs s' y) = epoch_after w (sys_srv y) bs (sys_epoch y)"
  "sys_born (answered_by w bs s' y)
     = born_after (epoch_after w (sys_srv y) bs (sys_epoch y)) (sys_srv y) s' (sys_born y)"
  "sys_seen (answered_by w bs s' y) = sys_seen y" "sys_results (answered_by w bs s' y) = sys_results y"
  by (simp_all add: answered_by_def Let_def)

lemma still_simps [simp]: "still b [] = []" "still b (a # acts) = [(b, a # acts)]"
  by (simp_all add: still_def)

section \<open>What the server puts on the stream\<close>

text \<open>Messages that are encoded events, of which \<open>P\<close> holds.\<close>

definition encodes :: "wire \<Rightarrow> (event \<Rightarrow> bool) \<Rightarrow> bytes list \<Rightarrow> bool" where
  "encodes w P msgs \<longleftrightarrow> (\<forall>bs \<in> set msgs. \<exists>ev. bs = enc_event w \<lparr>ev_event = Some ev\<rparr> \<and> P ev)"

lemma encodes_simps [simp]:
  "encodes w P []"
  "encodes w P (xs @ ys) \<longleftrightarrow> encodes w P xs \<and> encodes w P ys"
  by (auto simp: encodes_def)

lemma encodes_mono: "encodes w P xs \<Longrightarrow> (\<And>ev. P ev \<Longrightarrow> Q ev) \<Longrightarrow> encodes w Q xs"
  by (fastforce simp: encodes_def)

lemma events_send_sent:
  "\<exists>msgs. sk_sent (ev_socket (fst (events_send (enc_event w) es ev))) = sk_sent (ev_socket es) @ msgs
     \<and> encodes w (\<lambda>e. e = ev) msgs"
  by (rule send_cases [of "enc_event w" "ev_socket es" "\<lparr>ev_event = Some ev\<rparr>"])
    (auto simp: events_send_def Let_def set_running_def encodes_def)

lemma push_events_sent:
  "\<exists>msgs. sk_sent (ev_socket (push_events w evs es)) = sk_sent (ev_socket es) @ msgs
     \<and> encodes w (\<lambda>e. e \<in> set evs) msgs"
proof (induction evs arbitrary: es)
  case (Cons ev evs)
  obtain m1 where m1: "sk_sent (ev_socket (fst (events_send (enc_event w) es ev)))
      = sk_sent (ev_socket es) @ m1" "encodes w (\<lambda>e. e = ev) m1"
    using events_send_sent by blast
  obtain m2 where m2: "sk_sent (ev_socket (push_events w evs (fst (events_send (enc_event w) es ev))))
      = sk_sent (ev_socket (fst (events_send (enc_event w) es ev))) @ m2"
    "encodes w (\<lambda>e. e \<in> set evs) m2"
    using Cons.IH by blast
  from m1(2) m2(2) have "encodes w (\<lambda>e. e \<in> set (ev # evs)) (m1 @ m2)"
    by (auto intro: encodes_mono)
  with m1(1) m2(1) show ?case
    by (intro exI [of _ "m1 @ m2"]) (simp add: push_events_def)
qed (simp add: push_events_def)

text \<open>
  One step of the server adds encoded events to the stream, and if a capture is
  running after it, then none of them ends a capture.
\<close>

definition extends :: "wire \<Rightarrow> 'p server \<Rightarrow> 'p server \<Rightarrow> bool" where
  "extends w s s' \<longleftrightarrow>
     (\<exists>msgs. stream_sent s' = stream_sent s @ msgs
        \<and> encodes w (\<lambda>ev. srv_running s' \<longrightarrow> \<not> ends_capture ev) msgs)"

lemma extends_refl: "stream_sent s' = stream_sent s \<Longrightarrow> extends w s s'"
  by (simp add: extends_def)

lemma extends_call:
  assumes "call w s res arm = (s', r)" and "stream_sent s'' = stream_sent s'"
    and "srv_running s'' \<longrightarrow> srv_running s'"
  shows "extends w s s''"
proof -
  obtain p evs q where res: "res = (p, evs, q)" by (metis prod_cases3)
  obtain msgs where msgs: "sk_sent (ev_socket (push_events w evs (srv_events s))) = stream_sent s @ msgs"
    "encodes w (\<lambda>e. e \<in> set evs) msgs"
    using push_events_sent by blast
  from assms(1) res have s': "stream_sent s' = stream_sent s @ msgs"
    "srv_running s' \<longrightarrow> \<not> list_ex ends_capture evs"
    using msgs(1) by (auto simp: call_def)
  have "encodes w (\<lambda>ev. srv_running s'' \<longrightarrow> \<not> ends_capture ev) msgs"
    using msgs(2) by (rule encodes_mono) (use s'(2) assms(3) in \<open>auto simp: list_ex_iff\<close>)
  with s'(1) assms(2) show ?thesis by (auto simp: extends_def)
qed

lemma stream_sent_simps [simp]:
  "stream_sent (set_srv_running s b) = stream_sent s"
  "stream_sent (s\<lparr>srv_plugin := p\<rparr>) = stream_sent s"
  "stream_sent (s\<lparr>srv_greeted := g\<rparr>) = stream_sent s"
  by (simp_all add: set_srv_running_def set_running_def)

lemma extends_from_start: "extends w (set_srv_running s b) s' \<Longrightarrow> extends w s s'"
  by (simp add: extends_def)

lemma extends_call_start:
  assumes "call w (set_srv_running s True) res arm = (s', r)"
  shows "extends w s s'" and "extends w s (set_srv_running s' False)"
proof -
  show "extends w s s'"
    by (rule extends_from_start, rule extends_call [OF assms]) simp_all
  show "extends w s (set_srv_running s' False)"
    by (rule extends_from_start, rule extends_call [OF assms]) simp_all
qed

text \<open>
  What an answered request does to the stream and to the flag: a capture that runs
  afterwards ran before or has just been started.
\<close>

definition starts :: "'p server \<Rightarrow> request option \<Rightarrow> bool" where
  "starts s request \<longleftrightarrow>
     (case request of Some (ReqAcquireStart _) \<Rightarrow> srv_greeted s \<and> \<not> srv_running s | _ \<Rightarrow> False)"

lemma dispatch_extends:
  assumes "dispatch w h s request = (s', r)"
  shows "extends w s s' \<and> (srv_running s' \<longrightarrow> srv_running s \<or> starts s request)"
proof (cases "\<exists>rq. request = Some rq \<and> (srv_greeted s \<or> is_hello rq)")
  case False
  with assms have "s' = s" by (cases request) (auto simp: dispatch_def)
  then show ?thesis by (simp add: extends_refl)
next
  case True
  then obtain rq where rq: "request = Some rq" "srv_greeted s \<or> is_hello rq" by blast
  show ?thesis
  proof (cases rq)
    case (ReqHello req)
    with rq assms show ?thesis
      by (cases rule: call_cases [of w s "on_hello h (srv_plugin s) req" RespHello])
        (auto simp: dispatch_def extends_refl intro: extends_call split: if_splits)
  next
    case ReqDescribe
    with rq assms show ?thesis
      by (cases rule: call_cases [of w s "on_describe h (srv_plugin s)" RespDescribe])
        (auto simp: dispatch_def extends_refl intro: extends_call split: if_splits)
  next
    case ReqGetConfig
    with rq assms show ?thesis
      by (cases rule: call_cases [of w s "on_get_config h (srv_plugin s)" RespGetConfig])
        (auto simp: dispatch_def extends_refl intro: extends_call split: if_splits)
  next
    case (ReqSetConfig req)
    with rq assms show ?thesis
      by (cases rule: call_cases [of w s
            "on_set_config h (srv_plugin s) (unwrap_or (sc_config req) default_config)" RespSetConfig])
        (auto simp: dispatch_def extends_refl intro: extends_call split: if_splits)
  next
    case (ReqAcquireStart req)
    with rq assms show ?thesis
      by (cases rule: call_cases [of w "set_srv_running s True"
            "on_acquire_start h (srv_plugin s) req" "\<lambda>_. RespAcquireStart"])
        (auto simp: dispatch_def extends_refl starts_def intro: extends_call_start
          split: if_splits)
  next
    case (ReqAcquireStop req)
    with rq assms show ?thesis
      by (cases rule: call_cases [of w s "on_acquire_stop h (srv_plugin s) req" "\<lambda>_. RespAcquireStop"])
        (auto simp: dispatch_def extends_refl intro: extends_call split: if_splits)
  next
    case ReqReset
    with rq assms show ?thesis
      by (cases rule: call_cases [of w s "on_reset h (srv_plugin s)" "\<lambda>_. RespReset"])
        (auto simp: dispatch_def extends_refl intro: extends_call split: if_splits)
  next
    case ReqShutdown
    with rq assms show ?thesis by (auto simp: dispatch_def extends_refl)
  qed
qed

lemma begins_starts:
  "dec_request w bs = Inr rq \<Longrightarrow> begins_capture w s bs \<longleftrightarrow> starts s (rq_request rq)"
  by (simp add: begins_capture_def starts_def split: option.splits request.splits)

lemma answer_bytes_extends:
  assumes "answer_bytes w h s bs = (s', r)"
  shows "extends w s s'" and "srv_running s' \<Longrightarrow> srv_running s \<or> begins_capture w s bs"
    and "s' = s \<or> srv_step w h s s'"
proof -
  show "extends w s s'"
    using assms by (auto simp: answer_bytes_def answer_def extends_refl dest: dispatch_extends
        split: sum.splits prod.splits)
  show "srv_running s' \<Longrightarrow> srv_running s \<or> begins_capture w s bs"
    using assms by (auto simp: answer_bytes_def answer_def begins_starts dest: dispatch_extends
        split: sum.splits prod.splits)
  show "s' = s \<or> srv_step w h s s'"
    using assms by (auto simp: answer_bytes_def answer_def intro: srv_step.answer
        split: sum.splits prod.splits)
qed

section \<open>The invariant of the composed system\<close>

definition delivered :: "wire \<Rightarrow> bytes \<Rightarrow> event_msg result" where
  "delivered w bs = (case dec_event w bs of Inl e \<Rightarrow> Inl (error_from_decode e) | Inr m \<Rightarrow> Inr m)"

text \<open>The event stream is a queue: read, arrived and sent, in the order of the pushes.\<close>

definition stream_inv :: "wire \<Rightarrow> 'p system \<Rightarrow> bool" where
  "stream_inv w y \<longleftrightarrow>
     (let sent = stream_sent (sys_srv y) in
      length (sys_seen y) \<le> sys_arrived y \<and> sys_arrived y \<le> length sent
      \<and> sk_inbox (cl_events (sys_cl y)) = map Inr (drop (length (sys_seen y)) (take (sys_arrived y) sent))
      \<and> sys_seen y = map (delivered w) (take (length (sys_seen y)) sent))"

text \<open>
  No end of a capture whose push began after the capture that is running has been sent or
  is past its store to the flag.
\<close>

definition unended :: "bool \<Rightarrow> nat \<Rightarrow> nat \<Rightarrow> event \<Rightarrow> bool" where
  "unended running epoch b ev \<longleftrightarrow> (b = epoch \<and> running \<longrightarrow> \<not> ends_capture ev)"

definition sent_ok :: "wire \<Rightarrow> bool \<Rightarrow> nat \<Rightarrow> nat list \<Rightarrow> bytes list \<Rightarrow> bool" where
  "sent_ok w running epoch = list_all2 (\<lambda>b bs. b \<le> epoch \<and>
     (\<exists>ev. bs = enc_event w \<lparr>ev_event = Some ev\<rparr> \<and> unended running epoch b ev))"

definition push_ok :: "bool \<Rightarrow> nat \<Rightarrow> nat \<times> push_act list \<Rightarrow> bool" where
  "push_ok running epoch q \<longleftrightarrow> fst q \<le> epoch \<and>
     (\<exists>ev. snd q = push_acts ev \<or> snd q = [PutEvent ev] \<and> unended running epoch (fst q) ev)"

definition epoch_inv :: "wire \<Rightarrow> 'p system \<Rightarrow> bool" where
  "epoch_inv w y \<longleftrightarrow>
     (let running = srv_running (sys_srv y) in
      sent_ok w running (sys_epoch y) (sys_born y) (stream_sent (sys_srv y))
      \<and> list_all (push_ok running (sys_epoch y)) (sys_pushes y))"

definition outcome_ok :: "response result \<Rightarrow> bool" where
  "outcome_ok r = (case r of Inr _ \<Rightarrow> True | Inl (Remote _) \<Rightarrow> True | Inl (Nng _) \<Rightarrow> True | _ \<Rightarrow> False)"

definition calls_inv :: "u32 \<Rightarrow> 'p system \<Rightarrow> bool" where
  "calls_inv seq y \<longleftrightarrow>
     list_all outcome_ok (sys_results y) \<and> cl_seq (sys_cl y) = seq + of_nat (length (sys_results y))"

lemma outcome_ok_simps [simp]:
  "outcome_ok (Inr x)" "outcome_ok (Inl (Remote e))" "outcome_ok (Inl (Nng n))"
  by (simp_all add: outcome_ok_def)

text \<open>A change of the server that only adds to the stream.\<close>

lemma stream_inv_extends:
  assumes "stream_inv w y" and "extends w (sys_srv y) (sys_srv y')"
    and "cl_events (sys_cl y') = cl_events (sys_cl y)"
    and "sys_seen y' = sys_seen y" and "sys_arrived y' = sys_arrived y"
  shows "stream_inv w y'"
proof -
  from assms(2) obtain msgs where "stream_sent (sys_srv y') = stream_sent (sys_srv y) @ msgs"
    by (auto simp: extends_def)
  with assms(1,3-5) show ?thesis by (auto simp: stream_inv_def Let_def)
qed

lemma unended_mono:
  "unended running epoch b ev \<Longrightarrow> b \<le> epoch \<Longrightarrow>
   epoch' = epoch \<and> (running' \<longrightarrow> running) \<or> epoch < epoch' \<Longrightarrow> unended running' epoch' b ev"
  by (auto simp: unended_def)

lemma sent_ok_mono:
  "sent_ok w running epoch born sent \<Longrightarrow>
   epoch' = epoch \<and> (running' \<longrightarrow> running) \<or> epoch < epoch' \<Longrightarrow> sent_ok w running' epoch' born sent"
  unfolding sent_ok_def by (erule list_all2_mono) (auto intro: unended_mono)

lemma push_ok_mono:
  "push_ok running epoch q \<Longrightarrow>
   epoch' = epoch \<and> (running' \<longrightarrow> running) \<or> epoch < epoch' \<Longrightarrow> push_ok running' epoch' q"
  unfolding push_ok_def by (auto intro: unended_mono)

lemma sent_ok_length: "sent_ok w running epoch born sent \<Longrightarrow> length born = length sent"
  by (simp add: sent_ok_def list_all2_lengthD)

lemma sent_ok_nth:
  "sent_ok w running epoch born sent \<Longrightarrow> i < length sent \<Longrightarrow>
   \<exists>ev. sent ! i = enc_event w \<lparr>ev_event = Some ev\<rparr> \<and> unended running epoch (born ! i) ev"
  by (auto simp: sent_ok_def list_all2_conv_all_nth)

lemma sent_ok_replicate:
  "encodes w (\<lambda>ev. running \<longrightarrow> \<not> ends_capture ev) msgs \<Longrightarrow>
   sent_ok w running epoch (replicate (length msgs) epoch) msgs"
  unfolding sent_ok_def list_all2_conv_all_nth encodes_def by (auto simp: unended_def)

lemma sent_ok_append:
  "sent_ok w running epoch born sent \<Longrightarrow> sent_ok w running epoch born' sent' \<Longrightarrow>
   sent_ok w running epoch (born @ born') (sent @ sent')"
  unfolding sent_ok_def by (rule list_all2_appendI)

text \<open>A request is answered: a new epoch has begun, or what runs after it ran before.\<close>

lemma epoch_inv_answered:
  assumes "epoch_inv w y" and "extends w (sys_srv y) s'"
    and "srv_running s' \<longrightarrow> srv_running (sys_srv y) \<or> begins_capture w (sys_srv y) bs"
    and "sys_srv y' = s'" and "sys_pushes y' = sys_pushes y"
    and "sys_epoch y' = epoch_after w (sys_srv y) bs (sys_epoch y)"
    and "sys_born y' = born_after (sys_epoch y') (sys_srv y) s' (sys_born y)"
  shows "epoch_inv w y'"
proof -
  let ?old = "srv_running (sys_srv y)" and ?new = "srv_running s'"
  have mono: "sys_epoch y' = sys_epoch y \<and> (?new \<longrightarrow> ?old) \<or> sys_epoch y < sys_epoch y'"
    using assms(3,6) by (auto simp: epoch_after_def)
  from assms(2) obtain msgs where msgs: "stream_sent s' = stream_sent (sys_srv y) @ msgs"
    "encodes w (\<lambda>ev. ?new \<longrightarrow> \<not> ends_capture ev) msgs"
    by (auto simp: extends_def)
  from assms(1) have old: "sent_ok w ?old (sys_epoch y) (sys_born y) (stream_sent (sys_srv y))"
    "list_all (push_ok ?old (sys_epoch y)) (sys_pushes y)"
    by (simp_all add: epoch_inv_def Let_def)
  have "sent_ok w ?new (sys_epoch y') (sys_born y') (stream_sent s')"
    using sent_ok_append [OF sent_ok_mono [OF old(1) mono] sent_ok_replicate [OF msgs(2)]] msgs(1) assms(7)
    by (simp add: born_after_def)
  moreover have "list_all (push_ok ?new (sys_epoch y')) (sys_pushes y')"
    using old(2) assms(5) by (auto simp: list_all_iff intro: push_ok_mono [OF _ mono])
  ultimately show ?thesis by (simp add: epoch_inv_def assms(4))
qed

text \<open>One act of a push that has begun.\<close>

lemma act_srv_sent:
  "\<exists>msgs. stream_sent (act_srv w a s) = stream_sent s @ msgs
     \<and> (\<forall>bs \<in> set msgs. \<exists>ev. a = PutEvent ev \<and> bs = enc_event w \<lparr>ev_event = Some ev\<rparr>)"
proof (cases a)
  case (PutEvent ev)
  then show ?thesis
    by (cases rule: send_cases [of "enc_event w" "ev_socket (srv_events s)" "\<lparr>ev_event = Some ev\<rparr>"])
      (auto simp: act_srv_def)
qed (simp add: act_srv_def set_running_def)

lemma push_ok_act:
  assumes "push_ok running epoch (b, a # rest)" and "running' = (running \<and> a \<noteq> ClearFlag)"
  shows "list_all (push_ok running' epoch) (still b rest)"
    and "\<And>ev. a = PutEvent ev \<Longrightarrow> b \<le> epoch \<and> unended running' epoch b ev"
proof -
  from assms(1) obtain ev where ev: "b \<le> epoch"
    "a # rest = push_acts ev \<or> a # rest = [PutEvent ev] \<and> unended running epoch b ev"
    by (auto simp: push_ok_def)
  show "list_all (push_ok running' epoch) (still b rest)"
    using ev assms(2) by (auto simp: push_acts_def push_ok_def unended_def split: if_splits)
  show "b \<le> epoch \<and> unended running' epoch b ev'" if "a = PutEvent ev'" for ev'
    using ev assms(2) that by (auto simp: push_acts_def unended_def split: if_splits)
qed

lemma epoch_inv_acted:
  assumes "epoch_inv w y" and "sys_pushes y = ps @ (b, a # rest) # qs"
    and "sys_srv y' = act_srv w a (sys_srv y)" and "sys_pushes y' = ps @ still b rest @ qs"
    and "sys_epoch y' = sys_epoch y"
    and "sys_born y' = born_after b (sys_srv y) (sys_srv y') (sys_born y)"
  shows "epoch_inv w y'"
proof -
  let ?old = "srv_running (sys_srv y)" and ?new = "srv_running (sys_srv y')" and ?n = "sys_epoch y"
  have new: "?new = (?old \<and> a \<noteq> ClearFlag)" by (simp add: assms(3))
  then have mono: "?n = ?n \<and> (?new \<longrightarrow> ?old) \<or> ?n < ?n" by simp
  from assms(1,2) have old: "sent_ok w ?old ?n (sys_born y) (stream_sent (sys_srv y))"
    "list_all (push_ok ?old ?n) ps" "push_ok ?old ?n (b, a # rest)" "list_all (push_ok ?old ?n) qs"
    by (simp_all add: epoch_inv_def Let_def)
  obtain msgs where msgs: "stream_sent (sys_srv y') = stream_sent (sys_srv y) @ msgs"
    "\<forall>bs \<in> set msgs. \<exists>ev. a = PutEvent ev \<and> bs = enc_event w \<lparr>ev_event = Some ev\<rparr>"
    using act_srv_sent [of w a "sys_srv y"] assms(3) by auto
  have "sent_ok w ?new ?n (replicate (length msgs) b) msgs"
    unfolding sent_ok_def list_all2_conv_all_nth
    using msgs(2) push_ok_act(2) [OF old(3) new] by (fastforce dest: nth_mem)
  from sent_ok_append [OF sent_ok_mono [OF old(1) mono] this]
  have "sent_ok w ?new ?n (sys_born y') (stream_sent (sys_srv y'))"
    using msgs(1) assms(6) by (simp add: born_after_def)
  moreover have "list_all (push_ok ?new ?n) (sys_pushes y')"
    using old(2,4) push_ok_act(1) [OF old(3) new] assms(4)
    by (auto simp: list_all_iff intro: push_ok_mono [OF _ mono])
  ultimately show ?thesis by (simp add: epoch_inv_def assms(5))
qed

lemma client_request_frame:
  assumes "client_request w c rq = Some (c', out)"
  shows "cl_events c' = cl_events c" and "cl_seq c' = cl_seq c + 1" and "cl_child c' = cl_child c"
  using assms
  by (auto simp: client_request_def Let_def split: prod.splits sum.splits option.splits)

lemma control_inbox_simps [simp]:
  "cl_events (control_inbox c msgs) = cl_events c"
  "cl_seq (control_inbox c msgs) = cl_seq c"
  "refuses (cl_control (control_inbox c msgs)) = refuses (cl_control c)"
  "sk_inbox (cl_control (control_inbox c msgs)) = msgs"
  by (simp_all add: control_inbox_def)

lemma client_request_unsent:
  assumes "refuses (cl_control c) = Some e" and "client_request w c rq = Some (c', out)"
  shows "out = Inl (Nng e)"
proof -
  let ?m = "\<lparr>rq_seq = cl_seq c + 1, rq_request = Some rq\<rparr>"
  show ?thesis
    using assms send_snd [of "enc_request w" "cl_control c" ?m]
    by (cases rule: send_cases [of "enc_request w" "cl_control c" ?m])
      (auto simp: client_request_def Let_def)
qed

lemma client_request_given_up:
  assumes "refuses (cl_control c) = None" and "sk_inbox (cl_control c) = Inl e # rest"
    and "client_request w c rq = Some (c', out)"
  shows "out = Inl (Nng e)"
proof -
  let ?m = "\<lparr>rq_seq = cl_seq c + 1, rq_request = Some rq\<rparr>"
  show ?thesis
    using assms send_snd [of "enc_request w" "cl_control c" ?m]
    by (cases rule: send_cases [of "enc_request w" "cl_control c" ?m])
      (auto simp: client_request_def recv_def Let_def)
qed

text \<open>An answered call is the exchange of one request and its reply.\<close>

lemma answered_exchange:
  assumes "m = request_of c rq" and "dec_request w (enc_request w m) = Inr m"
    and "answer_bytes w h s (enc_request w m) = (s', r)" and "dec_response w (enc_response w r) = Inr r"
    and "client_request w (control_inbox c [Inr (enc_response w r)]) rq = Some (c', out)"
    and "refuses (cl_control c) = None"
  shows "out = remotely (snd (dispatch w h s (Some rq)))" and "s' = fst (dispatch w h s (Some rq))"
proof -
  have "exchange w h s (control_inbox c [Inr (enc_response w r)]) rq"
    using assms by (simp add: exchange_def request_of_def Let_def)
  then show "out = remotely (snd (dispatch w h s (Some rq)))"
    by (rule exchange_outcome) (use assms(5) in auto)
  show "s' = fst (dispatch w h s (Some rq))"
    using assms(1-3) by (auto simp: answer_bytes_def answer_def request_of_def split: prod.splits)
qed

lemma outcome_ok_remotely [simp]: "outcome_ok (remotely v)"
  by (simp add: remotely_def split: sum.splits)

definition sys_inv :: "wire \<Rightarrow> 'p capture_server \<Rightarrow> 'p server \<Rightarrow> u32 \<Rightarrow> 'p system \<Rightarrow> bool" where
  "sys_inv w h s0 seq y \<longleftrightarrow>
     srv_reach w h s0 (sys_srv y) \<and> stream_inv w y \<and> epoch_inv w y \<and> calls_inv seq y"

lemma srv_reach_answer:
  "srv_reach w h s0 s \<Longrightarrow> answer_bytes w h s bs = (s', r) \<Longrightarrow> srv_reach w h s0 s'"
  using answer_bytes_extends(3) srv_reach.step by metis

lemma sys_inv_server:
  assumes "sys_inv w h s0 seq y" and "answer_bytes w h (sys_srv y) bs = (s', r)"
    and "sys_srv y' = s'" and "cl_events (sys_cl y') = cl_events (sys_cl y)"
    and "sys_seen y' = sys_seen y" and "sys_arrived y' = sys_arrived y"
    and "sys_pushes y' = sys_pushes y" and "sys_epoch y' = epoch_after w (sys_srv y) bs (sys_epoch y)"
    and "sys_born y' = born_after (sys_epoch y') (sys_srv y) s' (sys_born y)" and "calls_inv seq y'"
  shows "sys_inv w h s0 seq y'"
proof -
  note ext = answer_bytes_extends [OF assms(2)]
  from assms(1) have inv: "srv_reach w h s0 (sys_srv y)" "stream_inv w y" "epoch_inv w y"
    by (simp_all add: sys_inv_def)
  have "srv_reach w h s0 (sys_srv y')"
    using srv_reach_answer [OF inv(1) assms(2)] assms(3) by simp
  moreover have "stream_inv w y'"
    using stream_inv_extends [OF inv(2)] ext(1) assms(3-6) by simp
  moreover have "epoch_inv w y'"
    by (rule epoch_inv_answered [OF inv(3) ext(1) _ assms(3,7,8,9)]) (use ext(2) in blast)
  ultimately show ?thesis using assms(10) by (simp add: sys_inv_def)
qed

lemma stream_inv_act:
  assumes "stream_inv w y" and "sys_srv y' = act_srv w a (sys_srv y)"
    and "cl_events (sys_cl y') = cl_events (sys_cl y)"
    and "sys_seen y' = sys_seen y" and "sys_arrived y' = sys_arrived y"
  shows "stream_inv w y'"
proof -
  obtain msgs where "stream_sent (sys_srv y') = stream_sent (sys_srv y) @ msgs"
    using act_srv_sent [of w a "sys_srv y"] assms(2) by auto
  with assms(1,3-5) show ?thesis by (auto simp: stream_inv_def Let_def)
qed

lemma sys_step_inv: "sys_step w h y y' \<Longrightarrow> sys_inv w h s0 seq y \<Longrightarrow> sys_inv w h s0 seq y'"
proof (induction rule: sys_step.induct)
  case (answered y m rq s' r c' out)
  note frame = client_request_frame [OF answered.hyps(6)]
  have "outcome_ok out"
    using answered_exchange(1) [OF answered.hyps(2-7)] by simp
  with answered.prems frame show ?case
    by (intro sys_inv_server [OF answered.prems answered.hyps(4)])
      (simp_all add: sys_inv_def calls_inv_def add.assoc)
next
  case (unsent y e rq c' out)
  note frame = client_request_frame [OF unsent.hyps(2)]
  have "outcome_ok out" using client_request_unsent [OF unsent.hyps] by simp
  with unsent.prems frame show ?case
    by (simp add: sys_inv_def calls_inv_def stream_inv_def epoch_inv_def add.assoc)
next
  case (given_up y m rq e c' out)
  note frame = client_request_frame [OF given_up.hyps(3)]
  have "outcome_ok out"
    using client_request_given_up [OF _ _ given_up.hyps(3), of e "[]"] given_up.hyps(1) by simp
  with given_up.prems frame show ?case
    by (simp add: sys_inv_def calls_inv_def stream_inv_def epoch_inv_def add.assoc)
next
  case (late y bs rest s' r)
  then show ?case
    by (intro sys_inv_server [OF late.prems late.hyps(2)]) (simp_all add: sys_inv_def calls_inv_def)
next
  case (pushes y ev)
  have "push_ok running (sys_epoch y) (sys_epoch y, push_acts ev)" for running
    by (auto simp: push_ok_def)
  with pushes show ?case
    by (simp add: sys_inv_def calls_inv_def stream_inv_def epoch_inv_def Let_def)
next
  case (acts y ps b a rest qs)
  from acts.prems have inv: "srv_reach w h s0 (sys_srv y)" "stream_inv w y" "epoch_inv w y" "calls_inv seq y"
    by (simp_all add: sys_inv_def)
  let ?y = "(change_srv b (act_srv w a (sys_srv y)) y)\<lparr>sys_pushes := ps @ still b rest @ qs\<rparr>"
  have "epoch_inv w ?y" by (rule epoch_inv_acted [OF inv(3) acts.hyps]) simp_all
  moreover have "stream_inv w ?y" by (rule stream_inv_act [OF inv(2)]) simp_all
  ultimately show ?case
    using inv(1,4) by (simp add: sys_inv_def calls_inv_def srv_reach.step [OF _ srv_step.act])
next
  case (arrives y)
  then show ?case
    by (auto simp: sys_inv_def calls_inv_def stream_inv_def epoch_inv_def events_arrive_def Let_def
        take_Suc_conv_app_nth)
next
  case (read y c' r)
  let ?sent = "stream_sent (sys_srv y)" and ?n = "length (sys_seen y)"
  from read.prems have inv: "?n \<le> sys_arrived y" "sys_arrived y \<le> length ?sent"
    "sk_inbox (cl_events (sys_cl y)) = map Inr (drop ?n (take (sys_arrived y) ?sent))"
    "sys_seen y = map (delivered w) (take ?n ?sent)"
    by (simp_all add: sys_inv_def stream_inv_def Let_def)
  from read.hyps inv(3) have "?n < sys_arrived y"
    by (cases "?n < sys_arrived y") (auto simp: next_event_def recv_def)
  then have n: "?n < length (take (sys_arrived y) ?sent)" using inv(2) by simp
  have "sk_inbox (cl_events (sys_cl y))
      = Inr (?sent ! ?n) # map Inr (drop (Suc ?n) (take (sys_arrived y) ?sent))"
    using inv(3) Cons_nth_drop_Suc [OF n] \<open>?n < sys_arrived y\<close> by (metis list.simps(9) nth_take)
  with read.hyps have "r = delivered w (?sent ! ?n)"
    "sk_inbox (cl_events c') = map Inr (drop (Suc ?n) (take (sys_arrived y) ?sent))"
    "cl_seq c' = cl_seq (sys_cl y)"
    by (auto simp: next_event_def recv_def delivered_def)
  moreover have "map (delivered w) (take (Suc ?n) ?sent) = sys_seen y @ [delivered w (?sent ! ?n)]"
    using inv(2,4) n by (simp add: take_Suc_conv_app_nth)
  ultimately show ?case
    using read.prems inv(2) \<open>?n < sys_arrived y\<close>
    by (simp add: sys_inv_def calls_inv_def stream_inv_def epoch_inv_def Let_def)
qed

lemma sys_reach_inv: "sys_reach w h y y' \<Longrightarrow> sys_inv w h s0 seq y \<Longrightarrow> sys_inv w h s0 seq y'"
  by (induction rule: sys_reach.induct) (auto intro: sys_step_inv)

lemma sys_inv_start:
  assumes "sk_sent stream = []" and "sk_inbox (cl_events c) = []"
  shows "sys_inv w h (new_server p stream) (cl_seq c) (sys_start p stream c)"
  using assms
  by (simp add: sys_inv_def sys_start_def stream_inv_def epoch_inv_def sent_ok_def calls_inv_def
      srv_reach.here new_server_def new_events_def)

lemmas sys_invariant = sys_reach_inv [OF _ sys_inv_start]

section \<open>Runs that push\<close>

lemma acts_srv_longer: "length (stream_sent s) \<le> length (stream_sent (acts_srv w acts s))"
proof (induction acts arbitrary: s)
  case (Cons a acts)
  obtain msgs where "stream_sent (act_srv w a s) = stream_sent s @ msgs"
    using act_srv_sent [of w a s] by blast
  then have "length (stream_sent s) \<le> length (stream_sent (act_srv w a s))" by simp
  with Cons.IH [of "act_srv w a s"] show ?case by simp
qed simp

lemma change_srv_same [simp]: "change_srv b (sys_srv y) y = y"
  by (cases y) (simp add: change_srv_def born_after_def)

lemma change_srv_acts:
  "change_srv b (acts_srv w acts' (acts_srv w acts (sys_srv y))) (change_srv b (acts_srv w acts (sys_srv y)) y)
     = change_srv b (acts_srv w acts' (acts_srv w acts (sys_srv y))) y"
  using acts_srv_longer [of "sys_srv y" w acts] acts_srv_longer [of "acts_srv w acts (sys_srv y)" w acts']
  by (simp add: change_srv_def born_after_def replicate_add [symmetric])

lemma acts_reach:
  "sys_reach w h y0 y \<Longrightarrow> sys_pushes y = ps @ still b (acts @ rest) @ qs \<Longrightarrow>
   sys_reach w h y0 ((change_srv b (acts_srv w acts (sys_srv y)) y)\<lparr>sys_pushes := ps @ still b rest @ qs\<rparr>)"
proof (induction acts arbitrary: y)
  case Nil
  then have "y\<lparr>sys_pushes := ps @ still b rest @ qs\<rparr> = y" by (intro system.equality) simp_all
  with Nil(1) show ?case by simp
next
  case (Cons a acts)
  let ?y = "(change_srv b (act_srv w a (sys_srv y)) y)\<lparr>sys_pushes := ps @ still b (acts @ rest) @ qs\<rparr>"
  have "sys_reach w h y0 ?y"
    by (rule sys_reach.sys_more [OF Cons.prems(1) sys_step.acts]) (use Cons.prems(2) in simp)
  from Cons.IH [OF this] have
    "sys_reach w h y0 ((change_srv b (acts_srv w acts (sys_srv ?y)) ?y)\<lparr>sys_pushes := ps @ still b rest @ qs\<rparr>)"
    by simp
  moreover have "(change_srv b (acts_srv w acts (sys_srv ?y)) ?y)\<lparr>sys_pushes := ps @ still b rest @ qs\<rparr>
      = (change_srv b (acts_srv w (a # acts) (sys_srv y)) y)\<lparr>sys_pushes := ps @ still b rest @ qs\<rparr>"
    using change_srv_acts [of b w acts "[a]" y] by (simp add: change_srv_def)
  ultimately show ?case by simp
qed

lemma push_reach:
  assumes "sys_reach w h y0 y"
  shows "sys_reach w h y0 (change_srv (sys_epoch y) (acts_srv w (push_acts ev) (sys_srv y)) y)"
proof -
  let ?y = "y\<lparr>sys_pushes := sys_pushes y @ [(sys_epoch y, push_acts ev)]\<rparr>"
  let ?s = "acts_srv w (push_acts ev) (sys_srv y)"
  have "sys_reach w h y0 ?y" by (rule sys_reach.sys_more [OF assms sys_step.pushes])
  from acts_reach [OF this, of "sys_pushes y" "sys_epoch y" "push_acts ev" "[]" "[]"]
  have "sys_reach w h y0 ((change_srv (sys_epoch y) ?s ?y)\<lparr>sys_pushes := sys_pushes y\<rparr>)"
    by (simp add: still_def push_acts_def)
  moreover have "(change_srv (sys_epoch y) ?s ?y)\<lparr>sys_pushes := sys_pushes y\<rparr> = change_srv (sys_epoch y) ?s y"
    by (rule system.equality) simp_all
  ultimately show ?thesis by simp
qed

section \<open>A capture, read by the frontend\<close>

primrec read_events :: "wire \<Rightarrow> nat \<Rightarrow> capture_client \<Rightarrow> (capture_client \<times> event_msg list) option" where
  "read_events w 0 c = Some (c, [])"
| "read_events w (Suc n) c =
     (case next_event w c of
        Some (c, Inr m) \<Rightarrow> map_option (\<lambda>(c, ms). (c, m # ms)) (read_events w n c)
      | _ \<Rightarrow> None)"

definition data_event :: "capture_data \<Rightarrow> event_msg" where
  "data_event d = \<lparr>ev_event = Some (Data d)\<rparr>"

lemma read_events_queue:
  "\<lbrakk>sk_inbox (cl_events c) = map (\<lambda>m. Inr (enc_event w m)) ms @ rest;
    \<forall>m \<in> set ms. dec_event w (enc_event w m) = Inr m\<rbrakk> \<Longrightarrow>
   \<exists>c'. read_events w (length ms) c = Some (c', ms) \<and> sk_inbox (cl_events c') = rest"
proof (induction ms arbitrary: c)
  case (Cons m ms)
  let ?c = "c\<lparr>cl_events := (cl_events c)\<lparr>sk_inbox := map (\<lambda>m. Inr (enc_event w m)) ms @ rest\<rparr>\<rparr>"
  have "next_event w c = Some (?c, Inr m)"
    using Cons.prems by (simp add: next_event_def recv_def)
  moreover from Cons.IH [of ?c] Cons.prems(2) obtain c' where
    "read_events w (length ms) ?c = Some (c', ms)" "sk_inbox (cl_events c') = rest" by auto
  ultimately show ?case by simp
qed simp

lemma data_msgs_events: "data_msgs enc ds = map enc (map data_event ds)"
  by (simp add: data_msgs_def data_event_def)

section \<open>The loop, counted\<close>

text \<open>The control loop cut off after \<open>n\<close> turns.\<close>

primrec serve_turns :: "nat \<Rightarrow> wire \<Rightarrow> 'p capture_server \<Rightarrow> socket \<Rightarrow> 'p server \<Rightarrow> 'p served option" where
  "serve_turns 0 w h control s = None"
| "serve_turns (Suc n) w h control s =
     (case serve_turn w h control s of
        Blocked \<Rightarrow> Some (Waiting control s)
      | Again control s \<Rightarrow> serve_turns n w h control s
      | Done control s r \<Rightarrow> Some (Returned control s r))"

lemma serve_turns_loop: "serve_turns n w h control s = Some v \<Longrightarrow> serve_loop w h control s = v"
proof (induction n arbitrary: control s)
  case (Suc n)
  then show ?case by (subst serve_loop.simps) (auto split: turn.splits)
qed simp

lemma recv_takes:
  assumes "sk_inbox control = m # rest"
  obtains c r where "recv dec control = Some (c, r)" "sk_inbox c = rest"
  using assms that by (cases m) (auto simp: recv_def)

lemma serve_turn_rest:
  assumes "sk_inbox control = m # rest" and "serve_turn w h control s = Again control' s'"
  shows "sk_inbox control' = rest"
proof -
  obtain c r where rc: "recv (dec_request w) control = Some (c, r)" "sk_inbox c = rest"
    by (rule recv_takes [OF assms(1)])
  then show ?thesis
    using assms(2) send_inbox [of "enc_response w" c]
    by (auto simp: serve_turn_def Let_def split: prod.splits sum.splits error.splits if_splits)
      (metis fst_conv)+
qed

lemma serve_turn_not_blocked:
  assumes "sk_inbox control = m # rest"
  shows "serve_turn w h control s \<noteq> Blocked"
proof -
  obtain c r where "recv (dec_request w) control = Some (c, r)"
    by (rule recv_takes [OF assms])
  then show ?thesis
    by (auto simp: serve_turn_def Let_def split: prod.splits sum.splits error.splits if_splits)
qed

lemma serve_turn_results:
  assumes "serve_turn w h control s = Done control' s' r"
  shows "r = Inr () \<or> (\<exists>e. r = Inl (Nng e))"
proof -
  from assms have "done_with (serve_turn w h control s) = Some r" by (simp add: done_with_def)
  then show ?thesis
    unfolding serve_turn_done by (auto split: list.splits sum.splits option.splits if_splits)
qed

lemma serve_turn_error: "sk_inbox control = Inl e # rest \<Longrightarrow> \<exists>r. done_with (serve_turn w h control s) = Some r"
  by (simp add: serve_turn_done)

text \<open>Each turn takes one message, and an error of the socket is the last one taken.\<close>

lemma serve_turns_return:
  "sk_inbox control = msgs @ Inl e # rest \<Longrightarrow>
   \<exists>control' s' r. serve_turns (Suc (length msgs)) w h control s = Some (Returned control' s' r)
     \<and> (r = Inr () \<or> (\<exists>e. r = Inl (Nng e)))"
proof (induction msgs arbitrary: control s)
  case Nil
  then obtain r where "done_with (serve_turn w h control s) = Some r" using serve_turn_error by force
  then obtain control' s' where t: "serve_turn w h control s = Done control' s' r"
    by (auto simp: done_with_def split: turn.splits)
  from t serve_turn_results [OF t] show ?case by simp
next
  case (Cons m msgs)
  then have box: "sk_inbox control = m # (msgs @ Inl e # rest)" by simp
  show ?case
  proof (cases "serve_turn w h control s")
    case Blocked
    with serve_turn_not_blocked [OF box] show ?thesis by blast
  next
    case (Again control' s')
    from Cons.IH [OF serve_turn_rest [OF box Again], of s'] Again show ?thesis by simp
  next
    case (Done control' s' r)
    with serve_turn_results [OF Done] show ?thesis by simp
  qed
qed

section \<open>An example run\<close>

text \<open>A wire on which a whole session can be held: \<open>tiny_wire\<close> with \<open>Hello\<close> and the end of a capture.\<close>

definition demo_hello_result :: hello_result where
  "demo_hello_result = make_hello_result (make_hello ''scope'' ''2.0'')
     \<lparr>pi_name = ''demo'', pi_version = ''1'', pi_vendor = [], pi_description = []\<rparr>
     \<lparr>cap_modes = [], cap_trigger_kinds = []\<rparr>
     \<lparr>di_vendor = [], di_model = [], di_serial = [], di_firmware_version = []\<rparr>"

definition session_wire :: wire where
  "session_wire = tiny_wire\<lparr>
     dec_request := (\<lambda>bs. case bs of
         [n, a] \<Rightarrow> if a = 10 then Inr \<lparr>rq_seq = ucast n, rq_request = Some (ReqHello (make_hello ''scope'' ''2.0''))\<rparr>
                  else dec_request tiny_wire bs
       | _ \<Rightarrow> dec_request tiny_wire bs),
     dec_response := (\<lambda>bs. case bs of
         [n, a] \<Rightarrow> if a = 10 then Inr \<lparr>rs_seq = ucast n, rs_error = None, rs_response = Some (RespHello demo_hello_result)\<rparr>
                  else dec_response tiny_wire bs
       | _ \<Rightarrow> dec_response tiny_wire bs),
     enc_event := (\<lambda>m. case ev_event m of
         None \<Rightarrow> [2] | Some ev \<Rightarrow> if ends_capture ev then [1] else [0]),
     dec_event := (\<lambda>bs. Inr \<lparr>ev_event =
         if bs = [1] then Some (CaptureEnd \<lparr>ce_capture_id = 1, ce_error = None\<rparr>) else None\<rparr>)\<rparr>"

lemma call_reaches:
  assumes "sys_reach w h y0 y" and "sys_pending y = []" and "sk_faults (cl_control (sys_cl y)) = []"
    and "m = request_of (sys_cl y) rq" and "dec_request w (enc_request w m) = Inr m"
    and "answer w h (sys_srv y) m = (s', r)" and "dec_response w (enc_response w r) = Inr r"
  shows "\<exists>y'. sys_reach w h y0 y' \<and> sys_srv y' = s' \<and> sys_pending y' = []
    \<and> sk_faults (cl_control (sys_cl y')) = [] \<and> cl_seq (sys_cl y') = cl_seq (sys_cl y) + 1
    \<and> cl_events (sys_cl y') = cl_events (sys_cl y) \<and> sys_arrived y' = sys_arrived y
    \<and> sys_seen y' = sys_seen y \<and> sys_pushes y' = sys_pushes y
    \<and> sys_epoch y' = epoch_after w (sys_srv y) (enc_request w m) (sys_epoch y)
    \<and> sys_born y' = born_after (sys_epoch y') (sys_srv y) s' (sys_born y)"
proof -
  have refuses: "refuses (cl_control (sys_cl y)) = None" using assms(3) by (simp add: refuses_def)
  let ?c = "control_inbox (sys_cl y) [Inr (enc_response w r)]"
  obtain c' out where call: "client_request w ?c rq = Some (c', out)"
    using client_request_sent [of ?c "enc_response w r" "[]" w r rq] refuses assms(7) by auto
  have faults: "sk_faults (cl_control c') = []"
    using call assms(3)
    by (auto simp: client_request_def control_inbox_def send_def sock_send_def recv_def Let_def
        split: sum.splits if_splits)
  have "answer_bytes w h (sys_srv y) (enc_request w m) = (s', r)"
    using assms(5,6) by (simp add: answer_bytes_def)
  from sys_reach.sys_more [OF assms(1) sys_step.answered [OF assms(2,4,5) this assms(7) call refuses]]
  show ?thesis
    using faults client_request_frame [OF call] assms(2)
    by (intro exI conjI) (assumption, simp_all)
qed

abbreviation first_end :: event where
  "first_end \<equiv> CaptureEnd \<lparr>ce_capture_id = 1, ce_error = None\<rparr>"

abbreviation demo_begin :: "nat system" where
  "demo_begin \<equiv> sys_start 0 quiet_socket (demo_client [])"

text \<open>The first capture runs, and nothing has been pushed.\<close>

lemma demo_capture:
  "\<exists>y. sys_reach session_wire (demo []) demo_begin y \<and> sys_srv y = (demo_server True)\<lparr>srv_plugin := 2\<rparr>
     \<and> sys_pending y = [] \<and> sk_faults (cl_control (sys_cl y)) = [] \<and> cl_seq (sys_cl y) = 2
     \<and> sk_inbox (cl_events (sys_cl y)) = [] \<and> sys_arrived y = 0 \<and> sys_seen y = []
     \<and> sys_pushes y = [] \<and> sys_epoch y = 1 \<and> sys_born y = []"
proof -
  let ?w = session_wire and ?h = "demo []" and ?y0 = demo_begin
  let ?hello = "ReqHello (make_hello ''scope'' ''2.0'')"
  obtain y1 where y1: "sys_reach ?w ?h ?y0 y1" "sys_srv y1 = demo_server False" "sys_pending y1 = []"
    "sk_faults (cl_control (sys_cl y1)) = []" "cl_seq (sys_cl y1) = 1"
    "sk_inbox (cl_events (sys_cl y1)) = []" "sys_arrived y1 = 0" "sys_seen y1 = []"
    "sys_pushes y1 = []" "sys_epoch y1 = 0" "sys_born y1 = []"
  proof -
    have "answer ?w ?h (sys_srv ?y0) (request_of (sys_cl ?y0) ?hello)
        = (demo_server False,
           \<lparr>rs_seq = 1, rs_error = None, rs_response = Some (RespHello demo_hello_result)\<rparr>)"
      by (simp add: answer_def dispatch_def call_def make_response_def request_of_def sys_start_def
          demo_client_def push_events_def demo_hello_result_def demo_defs)
    from call_reaches [OF sys_reach.sys_here _ _ refl _ this] that show thesis
      by (auto simp: sys_start_def demo_client_def quiet_socket_def request_of_def session_wire_def
          tiny_wire_def epoch_after_def begins_capture_def born_after_def demo_server_def new_server_def
          new_events_def)
  qed
  have "answer ?w ?h (sys_srv y1) (request_of (sys_cl y1) (ReqAcquireStart demo_start))
      = ((demo_server True)\<lparr>srv_plugin := 2\<rparr>,
         \<lparr>rs_seq = 2, rs_error = None, rs_response = Some RespAcquireStart\<rparr>)"
    by (simp add: answer_def dispatch_def call_def make_response_def request_of_def y1 push_events_def
        set_srv_running_def set_running_def demo_defs)
  from call_reaches [OF y1(1,3,4) refl _ this] y1 show ?thesis
    by (auto simp: request_of_def session_wire_def demo_defs epoch_after_def begins_capture_def born_after_def)
qed

lemma demo_session:
  "\<exists>y. sys_reach session_wire (demo []) demo_begin y
     \<and> sys_seen y = [Inr \<lparr>ev_event = Some first_end\<rparr>]
     \<and> sys_epoch y = 1 \<and> sys_born y = [1] \<and> srv_greeted (sys_srv y)"
proof -
  let ?w = session_wire and ?h = "demo []"
  obtain y2 where y2: "sys_reach ?w ?h demo_begin y2" "sys_srv y2 = (demo_server True)\<lparr>srv_plugin := 2\<rparr>"
    "sk_inbox (cl_events (sys_cl y2)) = []" "sys_arrived y2 = 0" "sys_seen y2 = []"
    "sys_epoch y2 = 1" "sys_born y2 = []"
    using demo_capture by blast
  let ?y3 = "change_srv 1 (acts_srv ?w (push_acts first_end) (sys_srv y2)) y2"
  have r3: "sys_reach ?w ?h demo_begin ?y3"
    using push_reach [OF y2(1), of first_end] y2(6) by simp
  have sent: "stream_sent (sys_srv ?y3) = [[1]]"
    by (simp add: y2(2) push_acts_def act_srv_def send_def sock_send_def set_running_def session_wire_def
        demo_defs)
  have born: "sys_born ?y3 = [1]"
    using sent by (simp add: born_after_def y2) (simp add: demo_defs)
  let ?y4 = "?y3\<lparr>sys_cl := events_arrive (sys_cl ?y3) (stream_sent (sys_srv ?y3) ! sys_arrived ?y3),
      sys_arrived := sys_arrived ?y3 + 1\<rparr>"
  have r4: "sys_reach ?w ?h demo_begin ?y4"
    by (rule sys_reach.sys_more [OF r3 sys_step.arrives]) (use sent y2(4) in simp)
  have "next_event ?w (sys_cl ?y4) = Some (sys_cl y2, Inr \<lparr>ev_event = Some first_end\<rparr>)"
    using y2(3,4) sent by (simp add: next_event_def recv_def events_arrive_def session_wire_def)
  from sys_reach.sys_more [OF r4 sys_step.read [OF this]]
  show ?thesis using y2 born by (intro exI conjI) (assumption, simp_all add: demo_server_def)
qed

text \<open>A start between the two accesses of the end of the capture before it is accepted.\<close>

lemma demo_overtaking:
  "\<exists>y. sys_reach session_wire (demo []) demo_begin y \<and> sys_srv y = (demo_server True)\<lparr>srv_plugin := 3\<rparr>
     \<and> sk_inbox (cl_events (sys_cl y)) = [] \<and> sys_arrived y = 0 \<and> sys_seen y = []
     \<and> sys_pushes y = [(1, [PutEvent first_end])] \<and> sys_epoch y = 2 \<and> sys_born y = []"
proof -
  let ?w = session_wire and ?h = "demo []"
  obtain y2 where y2: "sys_reach ?w ?h demo_begin y2" "sys_srv y2 = (demo_server True)\<lparr>srv_plugin := 2\<rparr>"
    "sys_pending y2 = []" "sk_faults (cl_control (sys_cl y2)) = []" "cl_seq (sys_cl y2) = 2"
    "sk_inbox (cl_events (sys_cl y2)) = []" "sys_arrived y2 = 0" "sys_seen y2 = []"
    "sys_pushes y2 = []" "sys_epoch y2 = 1" "sys_born y2 = []"
    using demo_capture by blast
  let ?y3 = "y2\<lparr>sys_pushes := [(1, push_acts first_end)]\<rparr>"
  have "sys_reach ?w ?h demo_begin ?y3"
    using sys_reach.sys_more [OF y2(1) sys_step.pushes [of ?w ?h y2 first_end]] y2(9,10) by simp
  from acts_reach [OF this, of "[]" 1 "[ClearFlag]" "[PutEvent first_end]" "[]"]
  have "sys_reach ?w ?h demo_begin
      ((change_srv 1 (act_srv ?w ClearFlag (sys_srv y2)) ?y3)\<lparr>sys_pushes := [(1, [PutEvent first_end])]\<rparr>)"
    by (simp add: push_acts_def)
  moreover have "act_srv ?w ClearFlag (sys_srv y2) = (demo_server False)\<lparr>srv_plugin := 2\<rparr>"
    by (simp add: y2(2) act_srv_def set_running_def demo_server_def new_events_def)
  moreover have "born_after 1 (sys_srv y2) ((demo_server False)\<lparr>srv_plugin := 2\<rparr>) [] = []"
    by (simp add: y2(2) born_after_def demo_server_def new_events_def)
  ultimately obtain y4 where y4: "sys_reach ?w ?h demo_begin y4"
    "sys_srv y4 = (demo_server False)\<lparr>srv_plugin := 2\<rparr>"
    "sys_cl y4 = sys_cl y2" "sys_pending y4 = []" "sys_arrived y4 = 0" "sys_seen y4 = []"
    "sys_pushes y4 = [(1, [PutEvent first_end])]" "sys_epoch y4 = 1" "sys_born y4 = []"
    using y2(3,7,8,10,11) that by force
  have "answer ?w ?h (sys_srv y4) (request_of (sys_cl y4) (ReqAcquireStart demo_start))
      = ((demo_server True)\<lparr>srv_plugin := 3\<rparr>,
         \<lparr>rs_seq = 3, rs_error = None, rs_response = Some RespAcquireStart\<rparr>)"
    by (simp add: answer_def dispatch_def call_def make_response_def request_of_def y4 y2 push_events_def
        set_srv_running_def set_running_def demo_defs)
  from call_reaches [OF y4(1,4) _ refl _ this] show ?thesis
    using y2 y4
    by (auto simp: request_of_def session_wire_def demo_defs epoch_after_def begins_capture_def born_after_def)
qed

text \<open>The frontend then reads the old end while the new capture runs.\<close>

lemma old_end_overtaken:
  "\<exists>y. sys_reach session_wire (demo []) demo_begin y
     \<and> sys_seen y = [Inr \<lparr>ev_event = Some first_end\<rparr>] \<and> sys_born y = [1] \<and> sys_epoch y = 2
     \<and> srv_running (sys_srv y)"
proof -
  let ?w = session_wire and ?h = "demo []"
  obtain y5 where y5: "sys_reach ?w ?h demo_begin y5" "sys_srv y5 = (demo_server True)\<lparr>srv_plugin := 3\<rparr>"
    "sk_inbox (cl_events (sys_cl y5)) = []" "sys_arrived y5 = 0" "sys_seen y5 = []"
    "sys_pushes y5 = [(1, [PutEvent first_end])]" "sys_epoch y5 = 2" "sys_born y5 = []"
    using demo_overtaking by blast
  let ?s6 = "act_srv ?w (PutEvent first_end) (sys_srv y5)"
  have sent: "stream_sent ?s6 = [[1]]" "stream_sent (sys_srv y5) = []"
    by (simp_all add: y5(2) act_srv_def send_def sock_send_def session_wire_def demo_server_def
        new_events_def quiet_socket_def)
  from acts_reach [OF y5(1), of "[]" 1 "[PutEvent first_end]" "[]" "[]"] y5(6)
  have "sys_reach ?w ?h demo_begin ((change_srv 1 ?s6 y5)\<lparr>sys_pushes := []\<rparr>)" by simp
  moreover have "srv_running ?s6" by (simp add: y5(2)) (simp add: demo_defs)
  ultimately obtain y6 where y6: "sys_reach ?w ?h demo_begin y6" "stream_sent (sys_srv y6) = [[1]]"
    "srv_running (sys_srv y6)" "sys_cl y6 = sys_cl y5" "sys_arrived y6 = 0" "sys_seen y6 = []"
    "sys_epoch y6 = 2" "sys_born y6 = [1]"
    using y5(4,5,7,8) sent that by (force simp: born_after_def)
  let ?y7 = "y6\<lparr>sys_cl := events_arrive (sys_cl y6) (stream_sent (sys_srv y6) ! sys_arrived y6),
      sys_arrived := sys_arrived y6 + 1\<rparr>"
  have r7: "sys_reach ?w ?h demo_begin ?y7"
    by (rule sys_reach.sys_more [OF y6(1) sys_step.arrives]) (use y6(2,5) in simp)
  have "next_event ?w (sys_cl ?y7) = Some (sys_cl y5, Inr \<lparr>ev_event = Some first_end\<rparr>)"
    using y5(3) y6(2,4,5) by (simp add: next_event_def recv_def events_arrive_def session_wire_def)
  from sys_reach.sys_more [OF r7 sys_step.read [OF this]]
  show ?thesis using y6 by (intro exI conjI) (assumption, simp_all)
qed

section \<open>Properties\<close>

text \<open>
  C2. A session of the two programs keeps in step.  With requests that are answered,
  given up and answered late, or refused by the socket, in any order, and with events
  pushed by any thread: every call ends with the handler's result, an error the
  plugin sent or an error of the transport, never with a protocol error; the calls
  are numbered consecutively; what the frontend has read from the event stream is, in
  order and without gaps, what the plugin has sent; and only a greeted plugin runs a
  capture.
\<close>

theorem calls_stay_in_step:
  assumes "sk_sent stream = []" and "sk_inbox (cl_events c) = []"
    and "sys_reach w h (sys_start p stream c) y"
  shows "list_all outcome_ok (sys_results y)
    \<and> cl_seq (sys_cl y) = cl_seq c + of_nat (length (sys_results y))
    \<and> sys_seen y = map (delivered w) (take (length (sys_seen y)) (stream_sent (sys_srv y)))
    \<and> (srv_running (sys_srv y) \<longrightarrow> srv_greeted (sys_srv y))"
proof -
  from sys_invariant [OF assms(3,1,2)]
  have inv: "srv_reach w h (new_server p stream) (sys_srv y)" "stream_inv w y" "calls_inv (cl_seq c) y"
    by (simp_all add: sys_inv_def)
  have "srv_inv (sys_srv y)" by (rule srv_reach_inv [OF inv(1)]) simp
  with inv(2,3) show ?thesis by (simp add: srv_inv_def stream_inv_def calls_inv_def Let_def)
qed

theorem calls_stay_in_step_witness:
  "\<exists>y. sys_reach session_wire (demo []) (sys_start 0 quiet_socket (demo_client [])) y
     \<and> length (sys_seen y) = 1 \<and> list_all outcome_ok (sys_results y)
     \<and> sys_seen y = map (delivered session_wire) (take 1 (stream_sent (sys_srv y)))"
proof -
  obtain y where y: "sys_reach session_wire (demo []) (sys_start 0 quiet_socket (demo_client [])) y"
    "length (sys_seen y) = 1"
    using demo_session by fastforce
  have "sk_sent quiet_socket = []" "sk_inbox (cl_events (demo_client [])) = []"
    by (simp_all add: demo_client_def quiet_socket_def)
  from calls_stay_in_step [OF this y(1)] y show ?thesis by (intro exI [of _ y]) simp
qed

text \<open>
  C7. The end of a capture can be relied upon.  Whatever threads push, cut anywhere: when
  the frontend reads a \<open>CaptureEnd\<close> or \<open>DeviceLost\<close> whose push began after the last start
  of a capture, then the plugin is no longer acquiring, and a next \<open>AcquireStart\<close> is never
  refused as busy: its reply is the handler's.  The order of the two accesses in \<open>send\<close>
  is what this rests on.  An end whose push began before the start says nothing of the
  new capture (\<open>old_end_overtaken\<close>); its capture id tells the frontend so.
\<close>

theorem seen_end_means_ready:
  assumes "sk_sent stream = []" and "sk_inbox (cl_events c) = []"
    and "sys_reach w h (sys_start p stream c) y"
    and "\<And>sent got. \<lbrakk>dec_event w (enc_event w \<lparr>ev_event = Some sent\<rparr>) = Inr \<lparr>ev_event = Some got\<rparr>;
           ends_capture got\<rbrakk> \<Longrightarrow> ends_capture sent"
    and "i < length (sys_seen y)" and "sys_born y ! i = sys_epoch y"
    and "sys_seen y ! i = Inr \<lparr>ev_event = Some ev\<rparr>" and "ends_capture ev"
  shows "\<not> srv_running (sys_srv y)
    \<and> (srv_greeted (sys_srv y) \<longrightarrow>
        snd (dispatch w h (sys_srv y) (Some (ReqAcquireStart req)))
          = map_ok (\<lambda>_. RespAcquireStart) (snd (snd (on_acquire_start h (srv_plugin (sys_srv y)) req))))"
proof -
  let ?s = "sys_srv y" and ?sent = "stream_sent (sys_srv y)"
  from sys_invariant [OF assms(3,1,2)] have inv: "stream_inv w y" "epoch_inv w y"
    by (simp_all add: sys_inv_def)
  from inv(1) have len: "length (sys_seen y) \<le> length ?sent"
    and seen: "sys_seen y = map (delivered w) (take (length (sys_seen y)) ?sent)"
    by (auto simp: stream_inv_def Let_def)
  from seen assms(5) len have "sys_seen y ! i = delivered w (?sent ! i)"
    by (metis length_map nth_map nth_take)
  with assms(7) have got: "dec_event w (?sent ! i) = Inr \<lparr>ev_event = Some ev\<rparr>"
    by (simp add: delivered_def split: sum.splits)
  from inv(2) have "sent_ok w (srv_running ?s) (sys_epoch y) (sys_born y) ?sent"
    by (simp add: epoch_inv_def Let_def)
  then obtain ev' where "?sent ! i = enc_event w \<lparr>ev_event = Some ev'\<rparr>"
    "unended (srv_running ?s) (sys_epoch y) (sys_born y ! i) ev'"
    using sent_ok_nth assms(5) len by (metis less_le_trans)
  with got assms(4) [of ev' ev] assms(6,8) have stopped: "\<not> srv_running ?s"
    by (auto simp: unended_def)
  moreover have "snd (dispatch w h ?s (Some (ReqAcquireStart req)))
      = map_ok (\<lambda>_. RespAcquireStart) (snd (snd (on_acquire_start h (srv_plugin ?s) req)))"
    if "srv_greeted ?s"
    using that stopped
    by (cases rule: call_cases [of w "set_srv_running ?s True"
          "on_acquire_start h (srv_plugin ?s) req" "\<lambda>_. RespAcquireStart"])
      (auto simp: dispatch_def)
  ultimately show ?thesis by blast
qed

theorem seen_end_means_ready_witness:
  "\<exists>y. sys_reach session_wire (demo []) demo_begin y
     \<and> length (sys_seen y) = 1 \<and> \<not> srv_running (sys_srv y)
     \<and> snd (dispatch session_wire (demo []) (sys_srv y) (Some (ReqAcquireStart demo_start)))
        = Inr RespAcquireStart"
proof -
  obtain y where y: "sys_reach session_wire (demo []) demo_begin y"
    "sys_seen y = [Inr \<lparr>ev_event = Some first_end\<rparr>]" "sys_epoch y = 1" "sys_born y = [1]"
    "srv_greeted (sys_srv y)"
    using demo_session by blast
  have start: "sk_sent quiet_socket = []" "sk_inbox (cl_events (demo_client [])) = []"
    by (simp_all add: demo_client_def quiet_socket_def)
  have ends: "ends_capture sent"
    if "dec_event session_wire (enc_event session_wire \<lparr>ev_event = Some sent\<rparr>) = Inr \<lparr>ev_event = Some got\<rparr>"
    for sent got
    using that by (simp add: session_wire_def split: if_splits)
  have at: "0 < length (sys_seen y)" "sys_born y ! 0 = sys_epoch y"
    "sys_seen y ! 0 = Inr \<lparr>ev_event = Some first_end\<rparr>" "ends_capture first_end"
    using y(2,3,4) by simp_all
  from seen_end_means_ready [OF start y(1) ends at, where req = demo_start] y(1,2,5) show ?thesis
    by (intro exI [of _ y]) (simp add: demo_def)
qed

text \<open>
  C15. What the frontend reads is what the plugin sampled.  When a \<open>StreamSender\<close> has
  sent the samples of a call without an error and the messages have come through, then
  the frontend reads, in order, as many \<open>Data\<close> events as there are chunks, nothing is
  left unread, and a receiver that checks the numbering gets back the samples.
\<close>

theorem frontend_reads_the_samples:
  assumes "sender_ok ss" and "unat (ss_unitsize ss) \<le> 2 ^ 20"
    and "whole_samples (ss_unitsize ss) packed"
    and "stream_send prof (enc_event w) ss es packed = Ret (ss', es', Inr ())"
    and "sk_inbox (cl_events c)
      = map Inr (drop (length (sk_sent (ev_socket es))) (sk_sent (ev_socket es')))"
    and "stream_chunks ss (chunks (unat (chunk_size (ss_unitsize ss))) packed) = Ret ds"
    and "list_all (\<lambda>d. dec_event w (enc_event w (data_event d)) = Inr (data_event d)) ds"
  shows "\<exists>c'. read_events w (length ds) c = Some (c', map data_event ds)
    \<and> sk_inbox (cl_events c') = []
    \<and> drain prof (ss_unitsize ss) (ss_seq ss) (ss_first_sample ss) ds = Some packed"
proof -
  let ?parts = "chunks (unat (chunk_size (ss_unitsize ss))) packed"
  from assms(1) have u: "ss_unitsize ss \<noteq> 0" by (simp add: sender_ok_def)
  note whole = chunks_whole [OF u assms(2,3)]
  have ds: "length ds = length ?parts"
    "drain prof (ss_unitsize ss) (ss_seq ss) (ss_first_sample ss) ds = Some packed"
    using stream_chunks_drain [OF assms(1) whole(1,3), of prof] whole(2) assms(6) by auto
  from assms(4) have "send_parts prof (enc_event w) ss es ?parts = Ret (ss', es', Inr ())"
    by (auto simp: stream_send_def Let_def split: if_splits)
  from send_parts_prefix [OF this assms(6)] ds(1)
  have "sk_sent (ev_socket es') = sk_sent (ev_socket es) @ data_msgs (enc_event w) ds" by auto
  with assms(5) have box: "sk_inbox (cl_events c)
      = map (\<lambda>m. Inr (enc_event w m)) (map data_event ds) @ []"
    by (simp add: data_msgs_events)
  have "\<forall>m \<in> set (map data_event ds). dec_event w (enc_event w m) = Inr m"
    using assms(7) by (auto simp: list_all_iff)
  from read_events_queue [OF box this] ds(2) show ?thesis by auto
qed

theorem frontend_reads_the_samples_witness:
  "\<exists>w c' d. read_events w 1 (demo_client []\<lparr>cl_events := quiet_socket\<lparr>sk_inbox := [Inr [9]]\<rparr>\<rparr>)
       = Some (c', [data_event d])
     \<and> drain Debug 2 5 100 [d] = Some [1, 2]"
proof -
  let ?ss = "example_sender\<lparr>ss_encoding := Packed\<rparr>"
  let ?d = "chunk_data ?ss [1, 2] [1, 2]"
  let ?w = "tiny_wire\<lparr>enc_event := \<lambda>_. [9], dec_event := \<lambda>_. Inr (data_event ?d)\<rparr>"
  let ?es = "new_events quiet_socket" and ?es' = "new_events (quiet_socket\<lparr>sk_sent := [[9]]\<rparr>)"
  let ?c = "demo_client []\<lparr>cl_events := quiet_socket\<lparr>sk_inbox := [Inr [9]]\<rparr>\<rparr>"
  have "unat (chunk_size 2) = 2 ^ 20" by (simp add: chunk_size_def MAX_PAYLOAD_def)
  then have parts: "chunks (unat (chunk_size (ss_unitsize ?ss))) [1, 2 :: u8] = [[1, 2]]"
    by (simp add: example_sender_def chunks.simps)
  have ok: "sender_ok ?ss" "unat (ss_unitsize ?ss) \<le> 2 ^ 20" "whole_samples (ss_unitsize ?ss) [1, 2]"
    by (simp_all add: sender_ok_def example_sender_def whole_samples_def isize_max_def)
  have send: "stream_send Debug (enc_event ?w) ?ss ?es [1, 2] = Ret (advance ?ss [1, 2], ?es', Inr ())"
    using parts
    by (simp add: stream_send_def Let_def part_payload_def events_send_def send_def sock_send_def
        new_events_def quiet_socket_def example_sender_def chunk_size_def MAX_PAYLOAD_def u64_add_def
        advance_def part_samples_def)
  have box: "sk_inbox (cl_events ?c)
      = map Inr (drop (length (sk_sent (ev_socket ?es))) (sk_sent (ev_socket ?es')))"
    by (simp add: new_events_def quiet_socket_def)
  have ds: "stream_chunks ?ss (chunks (unat (chunk_size (ss_unitsize ?ss))) [1, 2]) = Ret [?d]"
    unfolding parts by (simp add: part_payload_def example_sender_def)
  have dec: "list_all (\<lambda>d. dec_event ?w (enc_event ?w (data_event d)) = Inr (data_event d)) [?d]"
    by simp
  have sender: "ss_unitsize ?ss = 2" "ss_seq ?ss = 5" "ss_first_sample ?ss = 100"
    by (simp_all add: example_sender_def)
  obtain c' where "read_events ?w (length [?d]) ?c = Some (c', map data_event [?d])"
    "drain Debug 2 5 100 [?d] = Some [1, 2]"
    using frontend_reads_the_samples [OF ok send box ds dec] unfolding sender by blast
  then have "read_events ?w 1 ?c = Some (c', [data_event ?d])" "drain Debug 2 5 100 [?d] = Some [1, 2]"
    by (simp_all only: list.size list.map One_nat_def add_0)
  then show ?thesis by blast
qed

text \<open>
  C20. A plugin does not outlive its frontend.  When the control socket reports an
  error after some messages, as it does when the frontend has closed its end, the loop
  returns after at most one turn for each of these messages and one for the error,
  with success or with an error of the transport.
\<close>

theorem loop_ends_with_the_frontend:
  assumes "sk_inbox control = msgs @ Inl e # rest"
  shows "\<exists>control' s' r. serve_loop w h control s = Returned control' s' r
    \<and> serve_turns (Suc (length msgs)) w h control s = Some (Returned control' s' r)
    \<and> (r = Inr () \<or> (\<exists>e. r = Inl (Nng e)))"
  using serve_turns_return [OF assms, of w h s] by (blast dest: serve_turns_loop)

theorem loop_ends_with_the_frontend_witness:
  "\<exists>control' s' r. serve_loop tiny_wire (demo [])
       (quiet_socket\<lparr>sk_inbox := [Inr [1, 11], Inr [], Inl Closed, Inr [2, 11]]\<rparr>) (demo_server False)
     = Returned control' s' r
     \<and> (r = Inr () \<or> (\<exists>e. r = Inl (Nng e)))"
proof -
  let ?c = "quiet_socket\<lparr>sk_inbox := [Inr [1, 11], Inr [], Inl Closed, Inr [2, 11]]\<rparr>"
  have "sk_inbox ?c = [Inr [1, 11], Inr []] @ Inl Closed # [Inr [2, 11]]" by simp
  from loop_ends_with_the_frontend [OF this] show ?thesis by blast
qed

end
