(* ===== verification/OCP_Lifecycle.thy ===== *)
theory OCP_Lifecycle
  imports OCP_Prelude OCP_Proto OCP_Error OCP_Transport OCP_Events OCP_Server OCP_Client OCP_System
begin

text \<open>
  How a session ends.  The composed system of \<open>OCP_System\<close> with what it leaves out: the
  control loop returns, the frontend waits for the process or dies, and the thread of
  \<open>exit_on_stdin_eof\<close> ends the process when standard input is closed.  Every run is a run of
  the composed system, so its invariants hold here too.
\<close>

section \<open>The loop, cut where the reply to \<open>Shutdown\<close> has been sent\<close>

text \<open>
  The frontend goes on as soon as it has the reply, so the turn of \<open>serve\<close> that accepts
  \<open>Shutdown\<close> is cut between the reply and the plugin's own \<open>shutdown\<close>.
\<close>

datatype 'p loop_turn =
    NoMessage
  | NextTurn socket "'p server"
  | Accepting socket "'p server"
  | Leaving socket "'p server" "unit result"

definition turn_to_reply :: "wire \<Rightarrow> 'p capture_server \<Rightarrow> socket \<Rightarrow> 'p server \<Rightarrow> 'p loop_turn" where
  "turn_to_reply w h control s =
     (case recv (dec_request w) control of
        None \<Rightarrow> NoMessage
      | Some (control, Inl (Nng e)) \<Rightarrow>
          (if is_closed e then Leaving control s (Inr ()) else Leaving control s (Inl (Nng e)))
      | Some (control, Inl (Decode e)) \<Rightarrow>
          (case send (enc_response w) control (undecodable w e) of
             (control, Inl e) \<Rightarrow> Leaving control s (Inl e)
           | (control, Inr _) \<Rightarrow> NextTurn control s)
      | Some (control, Inl e) \<Rightarrow> Leaving control s (Inl e)
      | Some (control, Inr request) \<Rightarrow>
          (case dispatch w h s (rq_request request) of (s, outcome) \<Rightarrow>
             (let response = make_response (rq_seq request) outcome in
              case send (enc_response w) control response of
                (control, Inl e) \<Rightarrow> Leaving control s (Inl e)
              | (control, Inr _) \<Rightarrow>
                  (if is_shutdown (rq_request request) \<and> rs_error response = None
                   then Accepting control s else NextTurn control s))))"

text \<open>With the rest of the turn it is the turn of the loop.\<close>

definition finish_turn :: "wire \<Rightarrow> 'p capture_server \<Rightarrow> 'p loop_turn \<Rightarrow> 'p turn" where
  "finish_turn w h t =
     (case t of
        NoMessage \<Rightarrow> Blocked
      | NextTurn control s \<Rightarrow> Again control s
      | Accepting control s \<Rightarrow> Done control (shut_down w h s) (Inr ())
      | Leaving control s r \<Rightarrow> Done control s r)"

lemma finish_turn_simps [simp]:
  "finish_turn w h NoMessage = Blocked"
  "finish_turn w h (NextTurn control s) = Again control s"
  "finish_turn w h (Accepting control s) = Done control (shut_down w h s) (Inr ())"
  "finish_turn w h (Leaving control s r) = Done control s r"
  by (simp_all add: finish_turn_def)

lemma serve_turn_in_two: "serve_turn w h control s = finish_turn w h (turn_to_reply w h control s)"
  by (auto simp: serve_turn_def turn_to_reply_def shut_down_def Let_def
      split: option.splits prod.splits sum.splits error.splits)

section \<open>The two processes\<close>

text \<open>
  The plugin serves, has accepted \<open>Shutdown\<close>, has returned from \<open>serve\<close> with a result, or
  has been ended by its stdin watch.  The frontend may make requests, waits in
  \<open>shutdown\<close> for the process, or is gone: it has died or dropped its client.
\<close>

datatype plugin_state = Serving | Accepted | Left "unit result" | Ended

datatype frontend_state = Active | Reaping | Gone

text \<open>\<open>lc_wound_up\<close>, for the statements below: the plugin's \<open>shutdown\<close> has run.\<close>

record 'p lifecycle =
  lc_sys :: "'p system"
  lc_control :: socket
  lc_plugin :: plugin_state
  lc_frontend :: frontend_state
  lc_wound_up :: bool

text \<open>What the plugin makes of one report of its control socket.\<close>

definition take_message ::
  "wire \<Rightarrow> 'p capture_server \<Rightarrow> socket \<Rightarrow> 'p server \<Rightarrow> nng_error + bytes \<Rightarrow>
   socket \<times> 'p server \<times> plugin_state" where
  "take_message w h control s m =
     (case turn_to_reply w h (control\<lparr>sk_inbox := [m]\<rparr>) s of
        NoMessage \<Rightarrow> (control, s, Serving)
      | NextTurn control s \<Rightarrow> (control, s, Serving)
      | Accepting control s \<Rightarrow> (control, s, Accepted)
      | Leaving control s r \<Rightarrow> (control, s, Left r))"

text \<open>\<open>shutdown\<close> of the client goes on to \<open>Child::wait\<close>, which closes standard input first.\<close>

definition close_stdin :: "capture_client \<Rightarrow> capture_client" where
  "close_stdin c = c\<lparr>cl_child := (cl_child c)\<lparr>proc_stdin_open := False\<rparr>\<rparr>"

definition reap :: "capture_client \<Rightarrow> capture_client" where
  "reap c = c\<lparr>cl_child := (cl_child c)\<lparr>proc_stdin_open := False, proc_state := Reaped\<rparr>\<rparr>"

text \<open>\<open>drop\<close> kills the process; one that has left \<open>serve\<close> is past harming.\<close>

definition killed :: "plugin_state \<Rightarrow> plugin_state" where
  "killed st = (case st of Left r \<Rightarrow> Left r | _ \<Rightarrow> Ended)"

definition called :: "request \<Rightarrow> capture_client \<Rightarrow> capture_client" where
  "called rq c = (if rq = ReqShutdown then close_stdin c else c)"

definition frontend_after :: "request \<Rightarrow> frontend_state" where
  "frontend_after rq = (if rq = ReqShutdown then Reaping else Active)"

section \<open>The steps\<close>

text \<open>
  What a message makes of the plugin is \<open>take_message\<close>; \<open>answer_bytes\<close> in \<open>call\<close> only names
  the reply.  \<open>watched\<close>: the plugin has called \<open>exit_on_stdin_eof\<close>.  Event streams are read by threads
  of their own, also while the frontend waits.
\<close>

inductive life_step ::
  "wire \<Rightarrow> 'p capture_server \<Rightarrow> bool \<Rightarrow> 'p lifecycle \<Rightarrow> 'p lifecycle \<Rightarrow> bool"
  for w :: wire and h :: "'p capture_server" and watched :: bool where
  call: "\<lbrakk>lc_plugin z = Serving; lc_frontend z = Active; y = lc_sys z; sys_pending y = [];
      m = request_of (sys_cl y) rq; dec_request w (enc_request w m) = Inr m;
      r = snd (answer_bytes w h (sys_srv y) (enc_request w m));
      take_message w h (lc_control z) (sys_srv y) (Inr (enc_request w m)) = (k, s', st);
      sk_sent k = sk_sent (lc_control z) @ [enc_response w r];
      dec_response w (enc_response w r) = Inr r;
      client_request w (control_inbox (sys_cl y) [Inr (enc_response w r)]) rq = Some (c', out);
      refuses (cl_control (sys_cl y)) = None\<rbrakk> \<Longrightarrow>
    life_step w h watched z (z\<lparr>lc_sys := (answered_by w (enc_request w m) s' y)\<lparr>sys_cl := called rq c',
        sys_results := sys_results y @ [out]\<rparr>,
      lc_control := k, lc_plugin := st, lc_frontend := frontend_after rq\<rparr>)"
| call_unsent: "\<lbrakk>lc_frontend z = Active; y = lc_sys z;
      refuses (cl_control (sys_cl y)) = Some e;
      client_request w (sys_cl y) rq = Some (c', out)\<rbrakk> \<Longrightarrow>
    life_step w h watched z (z\<lparr>lc_sys := y\<lparr>sys_cl := called rq c', sys_results := sys_results y @ [out]\<rparr>,
      lc_frontend := frontend_after rq\<rparr>)"
| call_given_up: "\<lbrakk>lc_frontend z = Active; y = lc_sys z; refuses (cl_control (sys_cl y)) = None;
      m = request_of (sys_cl y) rq;
      client_request w (control_inbox (sys_cl y) [Inl e]) rq = Some (c', out)\<rbrakk> \<Longrightarrow>
    life_step w h watched z (z\<lparr>lc_sys := y\<lparr>sys_cl := called rq c',
        sys_pending := sys_pending y @ [enc_request w m], sys_results := sys_results y @ [out]\<rparr>,
      lc_frontend := frontend_after rq\<rparr>)"
| answer_late: "\<lbrakk>lc_plugin z = Serving; y = lc_sys z; sys_pending y = bs # rest;
      take_message w h (lc_control z) (sys_srv y) (Inr bs) = (k, s', st)\<rbrakk> \<Longrightarrow>
    life_step w h watched z (z\<lparr>lc_sys := (answered_by w bs s' y)\<lparr>sys_pending := rest\<rparr>,
      lc_control := k, lc_plugin := st\<rparr>)"
| hangup: "\<lbrakk>lc_plugin z = Serving;
      take_message w h (lc_control z) (sys_srv (lc_sys z)) (Inl e) = (k, s', st)\<rbrakk> \<Longrightarrow>
    life_step w h watched z (z\<lparr>lc_sys := (lc_sys z)\<lparr>sys_srv := s'\<rparr>, lc_control := k, lc_plugin := st\<rparr>)"
| wind_up: "\<lbrakk>lc_plugin z = Accepted; y = lc_sys z\<rbrakk> \<Longrightarrow>
    life_step w h watched z (z\<lparr>lc_sys := change_srv (sys_epoch y) (shut_down w h (sys_srv y)) y,
      lc_plugin := Left (Inr ()), lc_wound_up := True\<rparr>)"
| stdin_eof: "\<lbrakk>watched; lc_plugin z = Serving \<or> lc_plugin z = Accepted;
      \<not> proc_stdin_open (cl_child (sys_cl (lc_sys z)))\<rbrakk> \<Longrightarrow>
    life_step w h watched z (z\<lparr>lc_plugin := Ended\<rparr>)"
| push_begun: "\<lbrakk>lc_plugin z \<noteq> Ended; y = lc_sys z\<rbrakk> \<Longrightarrow>
    life_step w h watched z (z\<lparr>lc_sys :=
      y\<lparr>sys_pushes := sys_pushes y @ [(sys_epoch y, push_acts ev)]\<rparr>\<rparr>)"
| push_act: "\<lbrakk>lc_plugin z \<noteq> Ended; y = lc_sys z; sys_pushes y = ps @ (b, a # rest) # qs\<rbrakk> \<Longrightarrow>
    life_step w h watched z (z\<lparr>lc_sys :=
      (change_srv b (act_srv w a (sys_srv y)) y)\<lparr>sys_pushes := ps @ still b rest @ qs\<rparr>\<rparr>)"
| event_arrives: "\<lbrakk>y = lc_sys z; sys_arrived y < length (stream_sent (sys_srv y))\<rbrakk> \<Longrightarrow>
    life_step w h watched z (z\<lparr>lc_sys :=
      y\<lparr>sys_cl := events_arrive (sys_cl y) (stream_sent (sys_srv y) ! sys_arrived y),
        sys_arrived := sys_arrived y + 1\<rparr>\<rparr>)"
| read_event: "\<lbrakk>lc_frontend z \<noteq> Gone; y = lc_sys z; next_event w (sys_cl y) = Some (c', r)\<rbrakk> \<Longrightarrow>
    life_step w h watched z (z\<lparr>lc_sys := y\<lparr>sys_cl := c', sys_seen := sys_seen y @ [r]\<rparr>\<rparr>)"
| reaped: "\<lbrakk>lc_frontend z = Reaping; lc_plugin z = Ended \<or> (\<exists>r. lc_plugin z = Left r)\<rbrakk> \<Longrightarrow>
    life_step w h watched z (z\<lparr>lc_sys := (lc_sys z)\<lparr>sys_cl := reap (sys_cl (lc_sys z))\<rparr>,
      lc_frontend := Active\<rparr>)"
| dies: "life_step w h watched z (z\<lparr>lc_sys := (lc_sys z)\<lparr>sys_cl := close_stdin (sys_cl (lc_sys z))\<rparr>,
      lc_frontend := Gone\<rparr>)"
| dropped: "lc_frontend z = Active \<Longrightarrow>
    life_step w h watched z (z\<lparr>lc_sys := (lc_sys z)\<lparr>sys_cl := reap (sys_cl (lc_sys z))\<rparr>,
      lc_plugin := killed (lc_plugin z), lc_frontend := Gone\<rparr>)"

inductive life_reach ::
  "wire \<Rightarrow> 'p capture_server \<Rightarrow> bool \<Rightarrow> 'p lifecycle \<Rightarrow> 'p lifecycle \<Rightarrow> bool"
  for w :: wire and h :: "'p capture_server" and watched :: bool and z :: "'p lifecycle" where
  life_here: "life_reach w h watched z z"
| life_more: "life_reach w h watched z z' \<Longrightarrow> life_step w h watched z' z'' \<Longrightarrow> life_reach w h watched z z''"

definition life_start :: "'p \<Rightarrow> socket \<Rightarrow> socket \<Rightarrow> capture_client \<Rightarrow> 'p lifecycle" where
  "life_start p control stream c =
     \<lparr>lc_sys = sys_start p stream c, lc_control = control, lc_plugin = Serving, lc_frontend = Active,
      lc_wound_up = False\<rparr>"

section \<open>What a turn does\<close>

text \<open>A message is answered as \<open>answer_bytes\<close> says, or the reply cannot be sent and the loop ends.\<close>

lemma take_message_cases:
  assumes "take_message w h control s (Inr bs) = (k, s', st)"
  obtains (replied) r where "answer_bytes w h s bs = (s', r)"
      "sk_sent k = sk_sent control @ [enc_response w r]"
      "st = (if ends_session w s bs then Accepted else Serving)"
  | (unsent) r e where "answer_bytes w h s bs = (s', r)" "sk_sent k = sk_sent control"
      "st = Left (Inl (Nng e))"
proof (cases "dec_request w bs")
  case (Inl e)
  let ?c = "control\<lparr>sk_inbox := []\<rparr>"
  show thesis
    by (rule send_cases [of "enc_response w" ?c "undecodable w e"])
      (use assms Inl in \<open>auto simp: take_message_def turn_to_reply_def recv_def answer_bytes_def
        ends_session_def intro: replied unsent\<close>)
next
  case (Inr rq)
  let ?c = "control\<lparr>sk_inbox := []\<rparr>"
  obtain s1 out where d: "dispatch w h s (rq_request rq) = (s1, out)" by fastforce
  let ?r = "make_response (rq_seq rq) out"
  have ends: "is_shutdown (rq_request rq) \<and> rs_error ?r = None \<longleftrightarrow> ends_session w s bs"
    using d Inr by (auto simp: ends_session_def is_shutdown_def dispatch_shutdown make_response_def
        split: option.splits request.splits if_splits)
  show thesis
    by (rule send_cases [of "enc_response w" ?c ?r])
      (use assms Inr d ends in \<open>auto simp: take_message_def turn_to_reply_def recv_def answer_bytes_def
        answer_def Let_def intro: replied unsent split: if_splits\<close>)
qed

lemma take_message_answers:
  "take_message w h control s (Inr bs) = (k, s', st) \<Longrightarrow> r = snd (answer_bytes w h s bs) \<Longrightarrow>
   answer_bytes w h s bs = (s', r)"
  by (erule take_message_cases) simp_all

lemma take_message_error:
  "take_message w h control s (Inl e) = (k, s', st) \<Longrightarrow>
   s' = s \<and> sk_sent k = sk_sent control \<and> st = Left (if is_closed e then Inr () else Inl (Nng e))"
  by (auto simp: take_message_def turn_to_reply_def recv_def)

section \<open>Every run is a run of the composed system\<close>

text \<open>
  The system behind a state: with the plugin's state before its \<open>shutdown\<close>, which the
  composed system does not know, and the process as it was launched.
\<close>

definition core :: "'p \<Rightarrow> child \<Rightarrow> 'p system \<Rightarrow> 'p system" where
  "core p ch y = y\<lparr>sys_srv := (sys_srv y)\<lparr>srv_plugin := p\<rparr>, sys_cl := (sys_cl y)\<lparr>cl_child := ch\<rparr>\<rparr>"

lemma core_simps [simp]:
  "sys_pending (core p ch y) = sys_pending y" "sys_arrived (core p ch y) = sys_arrived y"
  "sys_pushes (core p ch y) = sys_pushes y" "sys_epoch (core p ch y) = sys_epoch y"
  "sys_born (core p ch y) = sys_born y" "sys_seen (core p ch y) = sys_seen y"
  "sys_results (core p ch y) = sys_results y"
  "sys_srv (core p ch y) = (sys_srv y)\<lparr>srv_plugin := p\<rparr>"
  "sys_cl (core p ch y) = (sys_cl y)\<lparr>cl_child := ch\<rparr>"
  by (simp_all add: core_def)

lemma keep_plugin [simp]: "s\<lparr>srv_plugin := srv_plugin s\<rparr> = s"
  by (cases s) simp

lemma request_of_child [simp]: "request_of (c\<lparr>cl_child := ch\<rparr>) rq = request_of c rq"
  by (simp add: request_of_def)

lemma control_inbox_child:
  "control_inbox (c\<lparr>cl_child := ch\<rparr>) msgs = (control_inbox c msgs)\<lparr>cl_child := ch\<rparr>"
  by (simp add: control_inbox_def)

lemma client_request_any_child:
  assumes "client_request w c rq = Some (c', out)"
  shows "client_request w (c\<lparr>cl_child := ch\<rparr>) rq = Some (c'\<lparr>cl_child := ch\<rparr>, out)"
  using assms
  by (auto simp: client_request_def Let_def split: prod.splits sum.splits option.splits)

lemma next_event_any_child:
  "next_event w c = Some (c', r) \<Longrightarrow> next_event w (c\<lparr>cl_child := ch\<rparr>) = Some (c'\<lparr>cl_child := ch\<rparr>, r)"
  by (auto simp: next_event_def)

lemma any_child_simps [simp]:
  "(called rq c)\<lparr>cl_child := ch\<rparr> = c\<lparr>cl_child := ch\<rparr>"
  "(close_stdin c)\<lparr>cl_child := ch\<rparr> = c\<lparr>cl_child := ch\<rparr>"
  "(reap c)\<lparr>cl_child := ch\<rparr> = c\<lparr>cl_child := ch\<rparr>"
  "(events_arrive c bs)\<lparr>cl_child := ch\<rparr> = events_arrive (c\<lparr>cl_child := ch\<rparr>) bs"
  by (simp_all add: called_def close_stdin_def reap_def events_arrive_def)

text \<open>The pushes of a plugin's \<open>shutdown\<close> are pushes of a thread.\<close>

lemma push_events_reach:
  "sys_reach w h y0 y \<Longrightarrow> sys_reach w h y0 (change_srv (sys_epoch y)
     ((sys_srv y)\<lparr>srv_events := push_events w evs (srv_events (sys_srv y))\<rparr>) y)"
proof (induction evs arbitrary: y)
  case (Cons ev evs)
  let ?s = "acts_srv w (push_acts ev) (sys_srv y)"
  let ?rest = "concat (map push_acts evs)"
  have "sys_reach w h y0 (change_srv (sys_epoch y) ?s y)" by (rule push_reach [OF Cons.prems])
  from Cons.IH [OF this] have
    "sys_reach w h y0 (change_srv (sys_epoch y) (acts_srv w ?rest ?s) (change_srv (sys_epoch y) ?s y))"
    by (simp add: push_events_acts acts_srv_def)
  then have "sys_reach w h y0 (change_srv (sys_epoch y) (acts_srv w ?rest ?s) y)"
    by (simp only: change_srv_acts)
  then show ?case by (simp add: push_events_acts acts_srv_def)
qed (simp add: push_events_def)

definition simulated :: "wire \<Rightarrow> 'p capture_server \<Rightarrow> 'p system \<Rightarrow> child \<Rightarrow> 'p lifecycle \<Rightarrow> bool" where
  "simulated w h y0 ch z \<longleftrightarrow>
     (\<exists>p. sys_reach w h y0 (core p ch (lc_sys z)) \<and> (\<not> lc_wound_up z \<longrightarrow> p = srv_plugin (sys_srv (lc_sys z))))"

section \<open>The invariant of a session\<close>

text \<open>What the state of the two processes says of the replies, the reaping and the handler.\<close>

definition told_of_shutdown :: "'p lifecycle \<Rightarrow> bool" where
  "told_of_shutdown z \<longleftrightarrow> Inr RespShutdown \<in> set (sys_results (lc_sys z))"

definition plugin_over :: "plugin_state \<Rightarrow> bool" where
  "plugin_over st \<longleftrightarrow> st = Ended \<or> (\<exists>r. st = Left r)"

definition life_inv :: "bool \<Rightarrow> 'p lifecycle \<Rightarrow> bool" where
  "life_inv watched z \<longleftrightarrow>
     (told_of_shutdown z \<longrightarrow>
        lc_plugin z = Accepted \<and> lc_frontend z \<noteq> Active
        \<or> lc_plugin z = Left (Inr ()) \<and> lc_wound_up z
        \<or> lc_plugin z = Ended \<and> watched)
     \<and> (proc_state (cl_child (sys_cl (lc_sys z))) = Reaped \<longrightarrow> plugin_over (lc_plugin z))
     \<and> (lc_wound_up z \<longrightarrow> lc_plugin z = Left (Inr ()))
     \<and> (lc_frontend z = Gone \<longrightarrow> \<not> proc_stdin_open (cl_child (sys_cl (lc_sys z))))"

lemma plugin_over_simps [simp]:
  "plugin_over Ended" "plugin_over (Left r)" "\<not> plugin_over Serving" "\<not> plugin_over Accepted"
  by (simp_all add: plugin_over_def)

lemma killed_simps [simp]:
  "killed (Left r) = Left r" "killed Serving = Ended" "killed Accepted = Ended" "killed Ended = Ended"
  "plugin_over (killed st)"
  by (simp_all add: killed_def split: plugin_state.splits)

lemma child_state_simps [simp]:
  "proc_state (cl_child (called rq c)) = proc_state (cl_child c)"
  "proc_state (cl_child (close_stdin c)) = proc_state (cl_child c)"
  "proc_state (cl_child (reap c)) = Reaped"
  "\<not> proc_stdin_open (cl_child (close_stdin c))" "\<not> proc_stdin_open (cl_child (reap c))"
  "cl_child (events_arrive c bs) = cl_child c"
  "cl_child (control_inbox c msgs) = cl_child c"
  by (simp_all add: called_def close_stdin_def reap_def events_arrive_def control_inbox_def)

lemma frontend_after_simps [simp]: "frontend_after rq \<noteq> Gone"
  by (simp add: frontend_after_def)

lemma next_event_child: "next_event w c = Some (c', r) \<Longrightarrow> cl_child c' = cl_child c"
  by (auto simp: next_event_def)

lemma told_shutdown_ends:
  assumes "dec_request w (enc_request w m) = Inr m" and "m = request_of c rq"
    and "answer_bytes w h s (enc_request w m) = (s', r)" and "dec_response w (enc_response w r) = Inr r"
    and "client_request w (control_inbox c [Inr (enc_response w r)]) rq = Some (c', Inr RespShutdown)"
    and "refuses (cl_control c) = None"
  shows "rq = ReqShutdown" and "ends_session w s (enc_request w m)"
proof -
  have "Inr RespShutdown = remotely (snd (dispatch w h s (Some rq)))"
    by (rule answered_exchange(1) [OF assms(2,1,3-6)])
  then have d: "snd (dispatch w h s (Some rq)) = Inr RespShutdown"
    by (simp add: remotely_def split: sum.splits)
  then have "dispatch w h s (Some rq) = (fst (dispatch w h s (Some rq)), Inr RespShutdown)"
    by (simp add: prod_eq_iff)
  from dispatch_arm [OF this] show rq: "rq = ReqShutdown" using request_arm_17 by simp
  from d have "srv_greeted s" by (simp add: rq dispatch_shutdown split: if_splits)
  with assms(1,2) show "ends_session w s (enc_request w m)"
    by (simp add: ends_session_def request_of_def is_shutdown_def rq)
qed

lemma given_up_not_shutdown:
  assumes "refuses (cl_control c) = None"
    and "client_request w (control_inbox c [Inl e]) rq = Some (c', out)"
  shows "out = Inl (Nng e)"
  using client_request_given_up [of "control_inbox c [Inl e]" e "[]" w rq c' out] assms by simp

lemma life_step_inv: "life_step w h watched z z' \<Longrightarrow> life_inv watched z \<Longrightarrow> life_inv watched z'"
proof (induction rule: life_step.induct)
  case (call z y m rq r k s' st c' out)
  note frame = client_request_frame [OF call.hyps(11)]
  note told = told_shutdown_ends [OF call.hyps(6,5) take_message_answers [OF call.hyps(8,7)] call.hyps(10) _
      call.hyps(12), of c']
  have st: "st = (if ends_session w (sys_srv y) (enc_request w m) then Accepted else Serving)"
    by (rule take_message_cases [OF call.hyps(8)]) (use call.hyps(9) in auto)
  show ?case
    using call.prems call.hyps(1,3,11) told frame
    by (auto simp: life_inv_def told_of_shutdown_def st frontend_after_def)
next
  case (call_unsent z y e rq c' out)
  have "out = Inl (Nng e)" by (rule client_request_unsent [OF call_unsent.hyps(3,4)])
  with call_unsent.prems client_request_frame [OF call_unsent.hyps(4)] call_unsent.hyps(1,2) show ?case
    by (auto simp: life_inv_def told_of_shutdown_def)
next
  case (call_given_up z y m rq e c' out)
  have "out = Inl (Nng e)" by (rule given_up_not_shutdown [OF call_given_up.hyps(3,5)])
  with call_given_up.prems client_request_frame [OF call_given_up.hyps(5)] call_given_up.hyps(1,2) show ?case
    by (auto simp: life_inv_def told_of_shutdown_def)
next
  case (read_event z y c' r)
  with next_event_child [OF read_event.hyps(3)] show ?case
    by (auto simp: life_inv_def told_of_shutdown_def)
qed (auto simp: life_inv_def told_of_shutdown_def)

lemma life_reach_inv: "life_reach w h watched z z' \<Longrightarrow> life_inv watched z \<Longrightarrow> life_inv watched z'"
  by (induction rule: life_reach.induct) (auto intro: life_step_inv)

lemma life_inv_start:
  "proc_state (cl_child c) \<noteq> Reaped \<Longrightarrow> life_inv watched (life_start p control stream c)"
  by (simp add: life_inv_def life_start_def sys_start_def told_of_shutdown_def)

section \<open>The simulation\<close>

lemma simulated_same_plugin:
  assumes "simulated w h y0 ch z" and "\<not> lc_wound_up z"
  shows "sys_reach w h y0 (core (srv_plugin (sys_srv (lc_sys z))) ch (lc_sys z))"
  using assms by (auto simp: simulated_def)

text \<open>A step of the composed system from the core of a state to the core of the next.\<close>

lemma simulated_step:
  assumes "sys_reach w h y0 y" and "sys_step w h y y'" and "core p ch (lc_sys z') = y'"
    and "\<not> lc_wound_up z' \<longrightarrow> p = srv_plugin (sys_srv (lc_sys z'))"
  shows "simulated w h y0 ch z'"
  using sys_reach.sys_more [OF assms(1,2)] assms(3,4) by (auto simp: simulated_def)

lemma simulatedE:
  assumes "simulated w h y0 ch z" and "lc_sys z = y"
  obtains p where "sys_reach w h y0 (core p ch y)" "\<not> lc_wound_up z \<longrightarrow> p = srv_plugin (sys_srv y)"
  using assms by (auto simp: simulated_def)

lemma life_step_simulated:
  "life_step w h watched z z' \<Longrightarrow> simulated w h y0 ch z \<Longrightarrow> life_inv watched z \<Longrightarrow> simulated w h y0 ch z'"
proof (induction rule: life_step.induct)
  case (call z y m rq r k s' st c' out)
  let ?y = "core (srv_plugin (sys_srv y)) ch y"
  have quiet: "\<not> lc_wound_up z" using call.prems(2) call.hyps(1) by (auto simp: life_inv_def)
  have "sys_step w h ?y ((answered_by w (enc_request w m) s' ?y)\<lparr>sys_cl := c'\<lparr>cl_child := ch\<rparr>,
      sys_results := sys_results ?y @ [out]\<rparr>)"
    by (rule sys_step.answered [where rq = rq and r = r])
      (use call.hyps take_message_answers [OF call.hyps(8,7)] client_request_any_child [OF call.hyps(11)]
        in \<open>simp_all add: control_inbox_child\<close>)
  then show ?case
    by (rule simulated_step [OF simulated_same_plugin [OF call.prems(1) quiet, folded call.hyps(3)],
          where p = "srv_plugin s'"])
      (rule system.equality, simp_all)
next
  case (call_unsent z y e rq c' out)
  obtain p where p: "sys_reach w h y0 (core p ch y)" "\<not> lc_wound_up z \<longrightarrow> p = srv_plugin (sys_srv y)"
    by (rule simulatedE [OF call_unsent.prems(1) call_unsent.hyps(2) [symmetric]])
  let ?y = "core p ch y"
  have "sys_step w h ?y (?y\<lparr>sys_cl := c'\<lparr>cl_child := ch\<rparr>, sys_results := sys_results ?y @ [out]\<rparr>)"
    by (rule sys_step.unsent [where rq = rq and e = e])
      (use call_unsent.hyps client_request_any_child [OF call_unsent.hyps(4)] in simp_all)
  then show ?case
    by (rule simulated_step [OF p(1), where p = p]) (rule system.equality, use p(2) in simp_all)
next
  case (call_given_up z y m rq e c' out)
  obtain p where p: "sys_reach w h y0 (core p ch y)" "\<not> lc_wound_up z \<longrightarrow> p = srv_plugin (sys_srv y)"
    by (rule simulatedE [OF call_given_up.prems(1) call_given_up.hyps(2) [symmetric]])
  let ?y = "core p ch y"
  have "sys_step w h ?y (?y\<lparr>sys_cl := c'\<lparr>cl_child := ch\<rparr>, sys_pending := sys_pending ?y @ [enc_request w m],
      sys_results := sys_results ?y @ [out]\<rparr>)"
    by (rule sys_step.given_up [where rq = rq and e = e])
      (use call_given_up.hyps client_request_any_child [OF call_given_up.hyps(5)]
        in \<open>simp_all add: control_inbox_child\<close>)
  then show ?case
    by (rule simulated_step [OF p(1), where p = p]) (rule system.equality, use p(2) in simp_all)
next
  case (answer_late z y bs rest k s' st)
  let ?y = "core (srv_plugin (sys_srv y)) ch y"
  have quiet: "\<not> lc_wound_up z" using answer_late.prems(2) answer_late.hyps(1) by (auto simp: life_inv_def)
  obtain r where "answer_bytes w h (sys_srv y) bs = (s', r)"
    by (rule take_message_cases [OF answer_late.hyps(4)])
  then have "sys_step w h ?y ((answered_by w bs s' ?y)\<lparr>sys_pending := rest\<rparr>)"
    by (intro sys_step.late) (simp_all add: answer_late.hyps(3))
  then show ?case
    by (rule simulated_step [OF simulated_same_plugin [OF answer_late.prems(1) quiet, folded answer_late.hyps(2)],
          where p = "srv_plugin s'"])
      (rule system.equality, simp_all)
next
  case (hangup z e k s' st)
  from take_message_error [OF hangup.hyps(2)] hangup.prems(1) show ?case by (simp add: simulated_def)
next
  case (wind_up z y)
  let ?s = "sys_srv y"
  have quiet: "\<not> lc_wound_up z" using wind_up.prems(2) wind_up.hyps by (auto simp: life_inv_def)
  obtain p evs where d: "on_shutdown h (srv_plugin ?s) = (p, evs)" by fastforce
  let ?y = "core (srv_plugin ?s) ch y"
  have eq: "core (srv_plugin ?s) ch (change_srv (sys_epoch y) (shut_down w h ?s) y)
      = change_srv (sys_epoch ?y) ((sys_srv ?y)\<lparr>srv_events := push_events w evs (srv_events (sys_srv ?y))\<rparr>) ?y"
    by (rule system.equality) (simp_all add: shut_down_def d born_after_def)
  have "sys_reach w h y0 (core (srv_plugin ?s) ch (change_srv (sys_epoch y) (shut_down w h ?s) y))"
    unfolding eq
    by (rule push_events_reach [OF simulated_same_plugin [OF wind_up.prems(1) quiet, folded wind_up.hyps(2)]])
  then show ?case
    unfolding simulated_def by (intro exI [of _ "srv_plugin ?s"]) simp
next
  case (push_begun z y ev)
  obtain p where p: "sys_reach w h y0 (core p ch y)" "\<not> lc_wound_up z \<longrightarrow> p = srv_plugin (sys_srv y)"
    by (rule simulatedE [OF push_begun.prems(1) push_begun.hyps(2) [symmetric]])
  from sys_step.pushes [of w h "core p ch y" ev] show ?case
    by (rule simulated_step [OF p(1), where p = p]) (rule system.equality, use p(2) in simp_all)
next
  case (push_act z y ps b a rest qs)
  obtain p where p: "sys_reach w h y0 (core p ch y)" "\<not> lc_wound_up z \<longrightarrow> p = srv_plugin (sys_srv y)"
    by (rule simulatedE [OF push_act.prems(1) push_act.hyps(2) [symmetric]])
  have "sys_pushes (core p ch y) = ps @ (b, a # rest) # qs" using push_act.hyps(3) by simp
  from sys_step.acts [OF this, of w h] show ?case
    by (rule simulated_step [OF p(1), where p = p])
      (rule system.equality, use p(2) in \<open>simp_all add: act_srv_def born_after_def\<close>)
next
  case (event_arrives y z)
  obtain p where p: "sys_reach w h y0 (core p ch y)" "\<not> lc_wound_up z \<longrightarrow> p = srv_plugin (sys_srv y)"
    by (rule simulatedE [OF event_arrives.prems(1) event_arrives.hyps(1) [symmetric]])
  have "sys_arrived (core p ch y) < length (stream_sent (sys_srv (core p ch y)))"
    using event_arrives.hyps(2) by simp
  from sys_step.arrives [OF this, of w h] show ?case
    by (rule simulated_step [OF p(1), where p = p]) (rule system.equality, use p(2) in simp_all)
next
  case (read_event z y c' r)
  obtain p where p: "sys_reach w h y0 (core p ch y)" "\<not> lc_wound_up z \<longrightarrow> p = srv_plugin (sys_srv y)"
    by (rule simulatedE [OF read_event.prems(1) read_event.hyps(2) [symmetric]])
  have "next_event w (sys_cl (core p ch y)) = Some (c'\<lparr>cl_child := ch\<rparr>, r)"
    using next_event_any_child [OF read_event.hyps(3)] by simp
  from sys_step.read [OF this, of h] show ?case
    by (rule simulated_step [OF p(1), where p = p]) (rule system.equality, use p(2) in simp_all)
qed (auto simp: simulated_def core_def)

lemma life_reach_simulated:
  "life_reach w h watched z z' \<Longrightarrow> simulated w h y0 ch z \<Longrightarrow> life_inv watched z \<Longrightarrow> simulated w h y0 ch z'"
  by (induction rule: life_reach.induct) (auto intro: life_step_simulated life_reach_inv)

lemma simulated_start: "simulated w h (sys_start p stream c) (cl_child c) (life_start p control stream c)"
proof -
  have "core p (cl_child c) (sys_start p stream c) = sys_start p stream c"
    by (simp add: core_def sys_start_def new_server_def)
  then have "sys_reach w h (sys_start p stream c) (core p (cl_child c) (sys_start p stream c))"
    by (simp add: sys_reach.sys_here)
  moreover have "srv_plugin (sys_srv (sys_start p stream c)) = p" by (simp add: sys_start_def new_server_def)
  ultimately show ?thesis by (auto simp: simulated_def life_start_def)
qed

lemma client_request_quiet:
  assumes "client_request w c rq = Some (c', out)" and "sk_faults (cl_control c) = []"
  shows "sk_faults (cl_control c') = []"
  using assms
  by (auto simp: client_request_def send_def sock_send_def recv_def Let_def
      split: sum.splits if_splits list.splits)

section \<open>After the end\<close>

lemma shut_down_greeted [simp]: "srv_greeted (shut_down w h s) = srv_greeted s"
  by (simp add: shut_down_def split: prod.splits)

text \<open>A plugin that no longer serves answers nothing and learns nothing.\<close>

definition only_errors :: "response result list \<Rightarrow> bool" where
  "only_errors rs \<longleftrightarrow> (\<forall>r \<in> set rs. \<exists>e. r = Inl (Nng e))"

definition after_the_end :: "'p lifecycle \<Rightarrow> 'p lifecycle \<Rightarrow> bool" where
  "after_the_end z z' \<longleftrightarrow>
     lc_plugin z' \<noteq> Serving \<and> sk_sent (lc_control z') = sk_sent (lc_control z)
     \<and> srv_greeted (sys_srv (lc_sys z')) = srv_greeted (sys_srv (lc_sys z))
     \<and> (\<exists>rs. sys_results (lc_sys z') = sys_results (lc_sys z) @ rs \<and> only_errors rs)"

lemma only_errors_simps [simp]:
  "only_errors []" "only_errors (rs @ rs') \<longleftrightarrow> only_errors rs \<and> only_errors rs'"
  "only_errors [Inl (Nng e)]"
  by (auto simp: only_errors_def)

lemma after_the_end_trans: "after_the_end z z' \<Longrightarrow> after_the_end z' z'' \<Longrightarrow> after_the_end z z''"
  by (auto simp: after_the_end_def)

lemma life_step_after_the_end:
  "life_step w h watched z z' \<Longrightarrow> lc_plugin z \<noteq> Serving \<Longrightarrow> after_the_end z z'"
proof (induction rule: life_step.induct)
  case (call_unsent z y e rq c' out)
  have "out = Inl (Nng e)" by (rule client_request_unsent [OF call_unsent.hyps(3,4)])
  with call_unsent show ?case by (auto simp: after_the_end_def)
next
  case (call_given_up z y m rq e c' out)
  have "out = Inl (Nng e)" by (rule given_up_not_shutdown [OF call_given_up.hyps(3,5)])
  with call_given_up show ?case by (auto simp: after_the_end_def)
qed (auto simp: after_the_end_def killed_def split: plugin_state.splits)

lemma life_reach_after_the_end:
  "life_reach w h watched z z' \<Longrightarrow> lc_plugin z \<noteq> Serving \<Longrightarrow> after_the_end z z'"
proof (induction rule: life_reach.induct)
  case (life_more z' z'')
  then show ?case
    using life_step_after_the_end [OF life_more.hyps(2)] after_the_end_trans by (auto simp: after_the_end_def)
qed (simp add: after_the_end_def)

text \<open>
  No plugin need outlive its frontend: one with a stdin watch whose frontend is gone can be
  ended at any time, and a \<open>Shutdown\<close> that its frontend has given up is still heeded.
\<close>

lemma orphans_can_be_ended:
  assumes "life_inv watched z" and "watched" and "lc_frontend z = Gone" and "\<not> plugin_over (lc_plugin z)"
  shows "life_step w h watched z (z\<lparr>lc_plugin := Ended\<rparr>)"
proof (rule life_step.stdin_eof)
  show "lc_plugin z = Serving \<or> lc_plugin z = Accepted" using assms(4) by (cases "lc_plugin z") simp_all
  show "\<not> proc_stdin_open (cl_child (sys_cl (lc_sys z)))" using assms(1,3) by (simp add: life_inv_def)
qed (rule assms(2))

section \<open>\<open>shutdown\<close> of the client, in steps\<close>

text \<open>The steps of the client's \<open>shutdown\<close>, the call and the reaping, are \<open>client_shutdown\<close>.\<close>

lemma client_shutdown_in_steps:
  assumes "client_request w c ReqShutdown = Some (c', out)" and "client_shutdown w c = Some (c'', r)"
  shows "c'' = reap (called ReqShutdown c')" and "r = Inr () \<longleftrightarrow> out = Inr RespShutdown"
proof -
  from assms show "c'' = reap (called ReqShutdown c')"
    by (auto simp: client_shutdown_def child_wait_def called_def close_stdin_def reap_def
        Let_def split: if_splits)
  from assms show "r = Inr () \<longleftrightarrow> out = Inr RespShutdown"
    by (auto simp: client_shutdown_def unexpected_def Let_def split: sum.splits response.splits)
qed

text \<open>A call between two ends that refuse nothing.\<close>

definition link_up :: "'p lifecycle \<Rightarrow> bool" where
  "link_up z \<longleftrightarrow>
     lc_plugin z = Serving \<and> lc_frontend z = Active \<and> sys_pending (lc_sys z) = []
     \<and> sk_faults (lc_control z) = [] \<and> sk_faults (cl_control (sys_cl (lc_sys z))) = []"

lemma send_faults: "sk_faults s = [] \<Longrightarrow> sk_faults (fst (send enc s m)) = []"
  by (simp add: send_def sock_send_def)

lemma take_message_quiet:
  assumes "sk_faults control = []" and "answer_bytes w h s bs = (s', r)"
  shows "\<exists>k. take_message w h control s (Inr bs)
      = (k, s', if ends_session w s bs then Accepted else Serving)
    \<and> sk_sent k = sk_sent control @ [enc_response w r] \<and> sk_faults k = []"
proof -
  obtain k s1 st where t: "take_message w h control s (Inr bs) = (k, s1, st)" by (metis prod_cases3)
  have "serve_turn w h (control\<lparr>sk_inbox := [Inr bs]\<rparr>) s =
      (let control' = control\<lparr>sk_inbox := [], sk_sent := sk_sent control @ [enc_response w r]\<rparr> in
        if ends_session w s bs then Done control' (shut_down w h s') (Inr ()) else Again control' s')"
    using serve_turn_quiet [of "control\<lparr>sk_inbox := [Inr bs]\<rparr>" bs "[]", OF _ _ assms(2)] assms(1) by simp
  with t assms show ?thesis
    by (cases rule: take_message_cases [OF t])
      (auto simp: serve_turn_in_two take_message_def finish_turn_def Let_def
        split: loop_turn.splits if_splits)
qed

lemma call_step:
  assumes "link_up z" and "m = request_of (sys_cl (lc_sys z)) rq"
    and "dec_request w (enc_request w m) = Inr m"
    and "answer w h (sys_srv (lc_sys z)) m = (s', r)" and "dec_response w (enc_response w r) = Inr r"
  shows "\<exists>z'. life_step w h watched z z' \<and> sys_srv (lc_sys z') = s' \<and> sys_pending (lc_sys z') = []
    \<and> sk_faults (lc_control z') = [] \<and> sk_faults (cl_control (sys_cl (lc_sys z'))) = []
    \<and> cl_seq (sys_cl (lc_sys z')) = cl_seq (sys_cl (lc_sys z)) + 1
    \<and> lc_plugin z' = (if ends_session w (sys_srv (lc_sys z)) (enc_request w m) then Accepted else Serving)
    \<and> lc_frontend z' = frontend_after rq \<and> lc_wound_up z' = lc_wound_up z
    \<and> (rq = ReqShutdown \<longrightarrow> \<not> proc_stdin_open (cl_child (sys_cl (lc_sys z'))))
    \<and> sys_results (lc_sys z') = sys_results (lc_sys z)
        @ [remotely (snd (dispatch w h (sys_srv (lc_sys z)) (Some rq)))]"
proof -
  let ?c = "sys_cl (lc_sys z)"
  note up = assms(1) [unfolded link_up_def]
  have refuses: "refuses (cl_control ?c) = None" using up by (simp add: refuses_def)
  obtain c' out where call: "client_request w (control_inbox ?c [Inr (enc_response w r)]) rq = Some (c', out)"
    using client_request_sent [of "control_inbox ?c [Inr (enc_response w r)]" "enc_response w r" "[]" w r rq]
      refuses assms(5) by auto
  have a: "answer_bytes w h (sys_srv (lc_sys z)) (enc_request w m) = (s', r)"
    using assms(3,4) by (simp add: answer_bytes_def)
  have "out = remotely (snd (dispatch w h (sys_srv (lc_sys z)) (Some rq)))"
    by (rule answered_exchange(1) [OF assms(2,3) a assms(5) call refuses])
  moreover obtain k where "take_message w h (lc_control z) (sys_srv (lc_sys z)) (Inr (enc_request w m))
      = (k, s', if ends_session w (sys_srv (lc_sys z)) (enc_request w m) then Accepted else Serving)"
    "sk_sent k = sk_sent (lc_control z) @ [enc_response w r]" "sk_faults k = []"
    using take_message_quiet [OF _ a] up by blast
  moreover have "sk_faults (cl_control c') = []"
    using client_request_quiet [OF call] up by (simp add: control_inbox_def)
  ultimately show ?thesis
    using life_step.call [OF _ _ refl _ assms(2,3) _ _ _ assms(5) call refuses, of h k _ _ watched] up
      client_request_frame [OF call] a
    by (intro exI conjI) (assumption | simp add: called_def close_stdin_def)+
qed

lemma late_shutdown_is_heeded:
  assumes "lc_plugin z = Serving" and "sk_faults (lc_control z) = []"
    and "sys_pending (lc_sys z) = bs # rest" and "ends_session w (sys_srv (lc_sys z)) bs"
  shows "\<exists>z'. life_step w h watched z z' \<and> lc_plugin z' = Accepted
    \<and> sys_results (lc_sys z') = sys_results (lc_sys z)"
proof -
  obtain s' r where "answer_bytes w h (sys_srv (lc_sys z)) bs = (s', r)" by fastforce
  from take_message_quiet [OF assms(2) this] assms(4) obtain k where
    "take_message w h (lc_control z) (sys_srv (lc_sys z)) (Inr bs) = (k, s', Accepted)" by auto
  from life_step.answer_late [OF assms(1) refl assms(3) this, of watched] show ?thesis
    by (intro exI conjI) (assumption, simp_all)
qed

text \<open>A frontend that can now shut its plugin down: the request and the reply are read as sent.\<close>

definition ready_to_shut_down :: "wire \<Rightarrow> 'p lifecycle \<Rightarrow> bool" where
  "ready_to_shut_down w z \<longleftrightarrow>
     link_up z \<and> srv_greeted (sys_srv (lc_sys z))
     \<and> (let m = request_of (sys_cl (lc_sys z)) ReqShutdown;
            r = make_response (rq_seq m) (Inr RespShutdown) in
        dec_request w (enc_request w m) = Inr m \<and> dec_response w (enc_response w r) = Inr r)"

lemma shutdown_call:
  assumes "ready_to_shut_down w z"
  shows "\<exists>z'. life_step w h watched z z' \<and> lc_plugin z' = Accepted \<and> lc_frontend z' = Reaping
    \<and> \<not> proc_stdin_open (cl_child (sys_cl (lc_sys z'))) \<and> lc_wound_up z' = lc_wound_up z
    \<and> sys_results (lc_sys z') = sys_results (lc_sys z) @ [Inr RespShutdown]"
proof -
  let ?m = "request_of (sys_cl (lc_sys z)) ReqShutdown"
  let ?r = "make_response (rq_seq ?m) (Inr RespShutdown)" and ?s = "sys_srv (lc_sys z)"
  from assms have up: "link_up z" "srv_greeted ?s" "dec_request w (enc_request w ?m) = Inr ?m"
    "dec_response w (enc_response w ?r) = Inr ?r"
    by (simp_all add: ready_to_shut_down_def Let_def)
  have m: "rq_request ?m = Some ReqShutdown" by (simp add: request_of_def)
  have a: "answer w h ?s ?m = (?s, ?r)"
    using up(2) by (simp add: answer_def m dispatch_shutdown)
  have e: "ends_session w ?s (enc_request w ?m)"
    using up(2,3) by (simp add: ends_session_def m is_shutdown_def)
  have o: "remotely (snd (dispatch w h ?s (Some ReqShutdown))) = Inr RespShutdown"
    using up(2) by (simp add: dispatch_shutdown remotely_def)
  show ?thesis
    using call_step [OF up(1) refl up(3) a up(4), of watched] e o
    by (auto simp: frontend_after_def)
qed

section \<open>An example run\<close>

lemma demo_greeted_run:
  "\<exists>z. life_reach session_wire (demo []) watched (life_start 0 quiet_socket quiet_socket (demo_client [])) z
     \<and> ready_to_shut_down session_wire z \<and> \<not> lc_wound_up z"
proof -
  let ?z = "life_start (0 :: nat) quiet_socket quiet_socket (demo_client [])"
  let ?hello = "ReqHello (make_hello ''scope'' ''2.0'')"
  let ?m = "request_of (sys_cl (lc_sys ?z)) ?hello"
  let ?r = "\<lparr>rs_seq = 1, rs_error = None, rs_response = Some (RespHello demo_hello_result)\<rparr>"
  have up: "link_up ?z"
    by (simp add: link_up_def life_start_def sys_start_def quiet_socket_def demo_client_def)
  have dec: "dec_request session_wire (enc_request session_wire ?m) = Inr ?m"
    "dec_response session_wire (enc_response session_wire ?r) = Inr ?r"
    by (simp_all add: request_of_def life_start_def sys_start_def demo_client_def session_wire_def
        tiny_wire_def)
  have "answer session_wire (demo []) (sys_srv (lc_sys ?z)) ?m = (demo_server False, ?r)"
    by (simp add: answer_def dispatch_def call_def make_response_def request_of_def life_start_def
        sys_start_def demo_client_def push_events_def demo_hello_result_def demo_defs)
  from call_step [OF up refl dec(1) this dec(2), of watched] obtain z where
    z: "life_step session_wire (demo []) watched ?z z" "sys_srv (lc_sys z) = demo_server False"
      "sys_pending (lc_sys z) = []" "sk_faults (lc_control z) = []"
      "sk_faults (cl_control (sys_cl (lc_sys z))) = []" "cl_seq (sys_cl (lc_sys z)) = 1"
      "lc_plugin z = Serving" "lc_frontend z = Active" "\<not> lc_wound_up z"
    using dec by (auto simp: ends_session_def is_shutdown_def frontend_after_def request_of_def
        life_start_def sys_start_def demo_client_def)
  then have "ready_to_shut_down session_wire z"
    by (simp add: ready_to_shut_down_def link_up_def request_of_def make_response_def
        session_wire_def demo_defs)
  with z(1,9) show ?thesis by (blast intro: life_reach.life_more [OF life_reach.life_here])
qed

section \<open>Properties\<close>

text \<open>
  A session with its end is a run of the composed system.  Requests that are
  answered, given up, answered late or not sent, an accepted \<open>Shutdown\<close> and the
  handler after it, hangups, the stdin watch, the reaping, the drop of the client and the
  death of the frontend, in any order: what the two ends have sent, read and returned is a
  state the composed system reaches, with the same plugin unless its own \<open>shutdown\<close> has
  run.  All that holds of the composed system holds of sessions.
\<close>

lemma lifecycle_refines_system:
  assumes "proc_state (cl_child c) \<noteq> Reaped"
    and "life_reach w h watched (life_start p control stream c) z"
  shows "\<exists>p'. sys_reach w h (sys_start p stream c) (core p' (cl_child c) (lc_sys z))
    \<and> (\<not> lc_wound_up z \<longrightarrow> p' = srv_plugin (sys_srv (lc_sys z)))"
  using life_reach_simulated [OF assms(2) simulated_start life_inv_start [OF assms(1)]]
  by (simp add: simulated_def)

lemma lifecycle_refines_system_witness:
  "\<exists>z p'. life_reach session_wire (demo []) True
       (life_start 0 quiet_socket quiet_socket (demo_client [])) z
     \<and> sys_reach session_wire (demo []) (sys_start 0 quiet_socket (demo_client []))
         (core p' (cl_child (demo_client [])) (lc_sys z))"
proof -
  obtain z where z: "life_reach session_wire (demo []) True
      (life_start 0 quiet_socket quiet_socket (demo_client [])) z"
    using demo_greeted_run by blast
  have "proc_state (cl_child (demo_client [])) \<noteq> Reaped" by (simp add: demo_client_def)
  from lifecycle_refines_system [OF this z] z show ?thesis by blast
qed

text \<open>
  C9. \<open>Shutdown\<close> is final.  A frontend that has been told so faces a plugin that has
  accepted, has left its loop with success or has been ended; and from the moment a
  plugin no longer serves, whatever happens, it sends no reply any more, and every later
  call of the frontend ends with an error of the transport.
\<close>

theorem shutdown_is_final:
  assumes "proc_state (cl_child c) \<noteq> Reaped"
    and "life_reach w h watched (life_start p control stream c) z"
    and "life_reach w h watched z z'"
  shows "(Inr RespShutdown \<in> set (sys_results (lc_sys z)) \<longrightarrow>
      lc_plugin z \<in> {Accepted, Left (Inr ()), Ended})
    \<and> (lc_plugin z \<noteq> Serving \<longrightarrow>
        lc_plugin z' \<noteq> Serving \<and> sk_sent (lc_control z') = sk_sent (lc_control z)
        \<and> (\<exists>rs. sys_results (lc_sys z') = sys_results (lc_sys z) @ rs
             \<and> (\<forall>r \<in> set rs. \<exists>e. r = Inl (Nng e))))"
proof (intro conjI impI)
  assume "Inr RespShutdown \<in> set (sys_results (lc_sys z))"
  with life_reach_inv [OF assms(2) life_inv_start [OF assms(1)]]
  show "lc_plugin z \<in> {Accepted, Left (Inr ()), Ended}"
    by (auto simp: life_inv_def told_of_shutdown_def)
next
  assume "lc_plugin z \<noteq> Serving"
  from life_reach_after_the_end [OF assms(3) this]
  show "lc_plugin z' \<noteq> Serving" "sk_sent (lc_control z') = sk_sent (lc_control z)"
    "\<exists>rs. sys_results (lc_sys z') = sys_results (lc_sys z) @ rs
      \<and> (\<forall>r \<in> set rs. \<exists>e. r = Inl (Nng e))"
    by (auto simp: after_the_end_def only_errors_def)
qed

theorem shutdown_is_final_witness:
  "\<exists>z. life_reach session_wire (demo []) False
       (life_start 0 quiet_socket quiet_socket (demo_client [])) z
     \<and> lc_plugin z \<in> {Accepted, Left (Inr ()), Ended}"
proof -
  let ?z0 = "life_start 0 quiet_socket quiet_socket (demo_client [])"
  obtain z where z: "life_reach session_wire (demo []) False ?z0 z" "ready_to_shut_down session_wire z"
    using demo_greeted_run by blast
  from shutdown_call [OF z(2)] obtain z' where
    z': "life_step session_wire (demo []) False z z'"
      "sys_results (lc_sys z') = sys_results (lc_sys z) @ [Inr RespShutdown]"
    by blast
  have r: "life_reach session_wire (demo []) False ?z0 z'" by (rule life_reach.life_more [OF z(1) z'(1)])
  have "proc_state (cl_child (demo_client [])) \<noteq> Reaped" by (simp add: demo_client_def)
  from shutdown_is_final [OF this r life_reach.life_here] z'(2) r show ?thesis by auto
qed

text \<open>
  C8. The plugin's own \<open>shutdown\<close> may never run.  Without the stdin watch a frontend
  that was told of the shutdown and has reaped the process can be sure that the handler
  has run to its end.  With \<open>exit_on_stdin_eof\<close> it cannot: the client closes the plugin's
  standard input as soon as it has the reply, and from every state in which a \<open>Shutdown\<close>
  can be exchanged the watch may end the process before the handler has run, while the
  client's \<open>shutdown\<close> reports success.
\<close>

theorem shutdown_handler_may_not_run:
  assumes "proc_state (cl_child c) \<noteq> Reaped"
    and "life_reach w h watched (life_start p control stream c) z"
  shows "(\<not> watched \<and> Inr RespShutdown \<in> set (sys_results (lc_sys z))
        \<and> proc_state (cl_child (sys_cl (lc_sys z))) = Reaped \<longrightarrow>
      lc_wound_up z \<and> lc_plugin z = Left (Inr ()))
    \<and> (watched \<and> ready_to_shut_down w z \<longrightarrow>
      (\<exists>z'. life_reach w h watched z z' \<and> lc_frontend z' = Active
         \<and> sys_results (lc_sys z') = sys_results (lc_sys z) @ [Inr RespShutdown]
         \<and> proc_state (cl_child (sys_cl (lc_sys z'))) = Reaped
         \<and> lc_plugin z' = Ended \<and> \<not> lc_wound_up z'))"
proof (intro conjI impI)
  note inv = life_reach_inv [OF assms(2) life_inv_start [OF assms(1)]]
  assume "\<not> watched \<and> Inr RespShutdown \<in> set (sys_results (lc_sys z))
      \<and> proc_state (cl_child (sys_cl (lc_sys z))) = Reaped"
  with inv show "lc_wound_up z" "lc_plugin z = Left (Inr ())"
    by (auto simp: life_inv_def told_of_shutdown_def)
next
  note inv = life_reach_inv [OF assms(2) life_inv_start [OF assms(1)]]
  assume ready: "watched \<and> ready_to_shut_down w z"
  then obtain z1 where z1: "life_step w h watched z z1" "lc_plugin z1 = Accepted"
    "lc_frontend z1 = Reaping" "\<not> proc_stdin_open (cl_child (sys_cl (lc_sys z1)))"
    "lc_wound_up z1 = lc_wound_up z" "sys_results (lc_sys z1) = sys_results (lc_sys z) @ [Inr RespShutdown]"
    using shutdown_call by blast
  let ?z2 = "z1\<lparr>lc_plugin := Ended\<rparr>"
  let ?z3 = "?z2\<lparr>lc_sys := (lc_sys ?z2)\<lparr>sys_cl := reap (sys_cl (lc_sys ?z2))\<rparr>, lc_frontend := Active\<rparr>"
  have "life_reach w h watched z z1" by (rule life_reach.life_more [OF life_reach.life_here z1(1)])
  moreover have "life_step w h watched z1 ?z2" by (rule life_step.stdin_eof) (use ready z1 in simp_all)
  moreover have "life_step w h watched ?z2 ?z3" by (rule life_step.reaped) (use z1 in simp_all)
  ultimately have "life_reach w h watched z ?z3" by (blast intro: life_reach.life_more)
  moreover have "\<not> lc_wound_up z"
    using inv ready by (auto simp: life_inv_def ready_to_shut_down_def link_up_def)
  ultimately show "\<exists>z'. life_reach w h watched z z' \<and> lc_frontend z' = Active
      \<and> sys_results (lc_sys z') = sys_results (lc_sys z) @ [Inr RespShutdown]
      \<and> proc_state (cl_child (sys_cl (lc_sys z'))) = Reaped
      \<and> lc_plugin z' = Ended \<and> \<not> lc_wound_up z'"
    using z1(5,6) by (intro exI [of _ ?z3]) simp
qed

theorem shutdown_handler_may_not_run_witness:
  "\<exists>z. life_reach session_wire (demo []) True
       (life_start 0 quiet_socket quiet_socket (demo_client [])) z
     \<and> (\<exists>z'. life_reach session_wire (demo []) True z z'
          \<and> sys_results (lc_sys z') = sys_results (lc_sys z) @ [Inr RespShutdown]
          \<and> lc_plugin z' = Ended \<and> \<not> lc_wound_up z')"
proof -
  obtain z where z: "life_reach session_wire (demo []) True
      (life_start 0 quiet_socket quiet_socket (demo_client [])) z" "ready_to_shut_down session_wire z"
    using demo_greeted_run by blast
  have "proc_state (cl_child (demo_client [])) \<noteq> Reaped" by (simp add: demo_client_def)
  from shutdown_handler_may_not_run [OF this z(1)] z show ?thesis by blast
qed

end
