(* ===== verification/OCP_Types.thy ===== *)
theory OCP_Types
  imports OCP_Prelude OCP_Proto OCP_Error OCP_Encoding OCP_Transport OCP_Events OCP_Server OCP_Client
begin

text \<open>
  The typing of what goes over the wire.  The generated module carries an enum field as
  an \<open>i32\<close> and a oneof as an option, so that the types of the language admit messages
  that mean nothing to the other end: numbers outside an enum, a reply with both a
  result and an error or neither, a length that is not the payload's.  The predicates
  below single out the messages with a meaning, and the theorems show that the crate
  produces no others.
\<close>

section \<open>Messages with a meaning\<close>

definition known_error :: "proto_error \<Rightarrow> bool" where
  "known_error e \<longleftrightarrow> error_code_try_from (err_code e) \<noteq> None"

definition known_encodings :: "i32 list \<Rightarrow> bool" where
  "known_encodings ns = list_all (\<lambda>n. sample_encoding_try_from n \<noteq> None) ns"

definition known_codecs :: "i32 list \<Rightarrow> bool" where
  "known_codecs ns = list_all (\<lambda>n. codec_try_from n \<noteq> None) ns"

definition typed_hello_result :: "hello_result \<Rightarrow> bool" where
  "typed_hello_result r \<longleftrightarrow>
     hr_protocol r = PROTOCOL_VERSION \<and> known_encodings (hr_encodings r) \<and> known_codecs (hr_codecs r)"

definition typed_response :: "response \<Rightarrow> bool" where
  "typed_response r = (case r of RespHello r \<Rightarrow> typed_hello_result r | _ \<Rightarrow> True)"

definition typed_reply :: "('r \<Rightarrow> bool) \<Rightarrow> 'r reply \<Rightarrow> bool" where
  "typed_reply P r = (case r of Inl e \<Rightarrow> known_error e | Inr x \<Rightarrow> P x)"

text \<open>A reply message: an error or a result, and never both.\<close>

definition typed_message :: "response_msg \<Rightarrow> bool" where
  "typed_message m =
     (case (rs_error m, rs_response m) of
        (Some e, None) \<Rightarrow> known_error e
      | (None, Some r) \<Rightarrow> typed_response r
      | _ \<Rightarrow> False)"

text \<open>
  A chunk: an encoding the receiver can undo, no codec, a truthful \<open>decoded_len\<close>, and
  a count of samples that is not zero and whose expansion fits \<open>MAX_PAYLOAD\<close>.
\<close>

definition typed_data :: "usize \<Rightarrow> capture_data \<Rightarrow> bool" where
  "typed_data u d \<longleftrightarrow>
     sample_encoding_try_from (cd_encoding d) \<in> {Some Packed, Some Transition}
     \<and> codec_try_from (cd_codec d) = Some CodecNone
     \<and> unat (cd_decoded_len d) = length (cd_payload d)
     \<and> 0 < unat (cd_sample_count d)
     \<and> unat (cd_sample_count d) * unat u \<le> unat MAX_PAYLOAD"

text \<open>
  The plugin's part: in every state, a handler that refuses does so with a code of the
  enum, and \<open>hello\<close> answers with the crate's version and enumerators of the two enums.
\<close>

definition typed_plugin :: "'p capture_server \<Rightarrow> bool" where
  "typed_plugin h \<longleftrightarrow> (\<forall>p.
     (\<forall>req. typed_reply typed_hello_result (snd (snd (on_hello h p req))))
     \<and> typed_reply (\<lambda>_. True) (snd (snd (on_describe h p)))
     \<and> typed_reply (\<lambda>_. True) (snd (snd (on_get_config h p)))
     \<and> (\<forall>c. typed_reply (\<lambda>_. True) (snd (snd (on_set_config h p c))))
     \<and> (\<forall>req. typed_reply (\<lambda>_. True) (snd (snd (on_acquire_start h p req))))
     \<and> (\<forall>req. typed_reply (\<lambda>_. True) (snd (snd (on_acquire_stop h p req))))
     \<and> typed_reply (\<lambda>_. True) (snd (snd (on_reset h p))))"

named_theorems typed_simps \<open>unfolding the typing predicates\<close>

lemmas [typed_simps] = known_encodings_def known_codecs_def typed_hello_result_def typed_response_def
  typed_reply_def typed_message_def

text \<open>The constructors of \<open>proto::Error\<close> write codes of the enum.\<close>

lemma known_error_new [simp]:
  "known_error (proto_error_new c m)"
  "known_error (proto_error_invalid m)" "known_error (proto_error_unsupported m)"
  "known_error (proto_error_busy m)" "known_error (proto_error_device m)"
  by (simp_all add: known_error_def proto_error_new_def proto_error_invalid_def
      proto_error_unsupported_def proto_error_busy_def proto_error_device_def
      del: error_code_i32.simps err_code_simps)

lemma known_busy [simp]: "known_error busy"
  by (simp add: busy_def)

text \<open>What negotiation picks from the crate's own lists are enumerators, whatever was asked.\<close>

lemma known_negotiated:
  "known_encodings (negotiate_encodings accept es)"
  "known_codecs (negotiate_codecs accept cs)"
proof -
  have "sample_encoding_try_from n \<noteq> None" if "n \<in> set (negotiate_encodings accept es)" for n
    using that unfolding negotiate_encodings_def set_intersect
    by (auto simp del: sample_encoding_i32.simps)
  then show "known_encodings (negotiate_encodings accept es)"
    by (simp add: known_encodings_def list_all_iff)
  have "codec_try_from n \<noteq> None" if "n \<in> set (negotiate_codecs accept cs)" for n
    using that unfolding negotiate_codecs_def set_intersect by (auto simp del: codec_i32.simps)
  then show "known_codecs (negotiate_codecs accept cs)"
    by (simp add: known_codecs_def list_all_iff)
qed

lemma typed_make_hello_result [simp]: "typed_hello_result (make_hello_result req plugin caps device)"
  by (simp add: typed_hello_result_def make_hello_result_def known_negotiated)

lemma typed_default_reset [simp]: "typed_reply P (snd (snd (default_reset p))) = P ()"
  by (simp add: default_reset_def typed_reply_def)

section \<open>Replies\<close>

lemma typed_reply_simps [simp]:
  "typed_reply P (Inl e) \<longleftrightarrow> known_error e"
  "typed_reply P (Inr x) \<longleftrightarrow> P x"
  "typed_reply P (map_ok f r) \<longleftrightarrow> typed_reply (\<lambda>x. P (f x)) r"
  by (cases r; simp add: typed_reply_def)+

lemma typed_response_simps [simp]:
  "typed_response (RespHello r) = typed_hello_result r"
  "typed_response (RespDescribe d)" "typed_response (RespGetConfig c)" "typed_response (RespSetConfig c)"
  "typed_response RespAcquireStart" "typed_response RespAcquireStop" "typed_response RespReset"
  "typed_response RespShutdown"
  by (simp_all add: typed_response_def)

lemma snd_call_cases [simp]:
  "snd (case x of (s, Inl e) \<Rightarrow> (f s, Inl e) | (s, Inr r) \<Rightarrow> (g s, Inr r)) = snd x"
  by (simp split: prod.splits sum.splits)

lemma dispatch_typed:
  assumes "typed_plugin h"
  shows "typed_reply typed_response (snd (dispatch w h s request))"
  using assms by (simp add: dispatch_def typed_plugin_def split: option.split request.split)

lemma answer_bytes_typed:
  assumes "typed_plugin h" and "answer_bytes w h s bs = (s', r)"
  shows "typed_message r"
proof (cases "dec_request w bs")
  case (Inl e)
  with assms(2) show ?thesis by (auto simp: answer_bytes_def undecodable_def typed_message_def)
next
  case (Inr rq)
  with assms dispatch_typed [OF assms(1), of w s "rq_request rq"] show ?thesis
    by (auto simp: answer_bytes_def answer_def make_response_def typed_message_def
        split: prod.splits sum.splits)
qed

lemma session_typed:
  "\<lbrakk>typed_plugin h; session w h s msgs = (s', rs, stopped)\<rbrakk> \<Longrightarrow> list_all typed_message rs"
  by (induction msgs arbitrary: s s' rs stopped)
    (auto dest: answer_bytes_typed split: prod.splits if_splits)

section \<open>Chunks\<close>

lemma typed_chunk:
  assumes "sender_ok ss" and "whole_samples (ss_unitsize ss) part" and "part \<noteq> []"
    and "length part \<le> 2 ^ 20" and "part_payload ss part = Ret payload"
  shows "typed_data (ss_unitsize ss) (chunk_data ss part payload)"
proof -
  let ?u = "unat (ss_unitsize ss)"
  have u: "0 < ?u" using assms(1) by (auto simp: sender_ok_def unat_gt_0)
  have dvd: "?u dvd length part" using assms(2) by (simp add: whole_samples_def)
  have "length payload \<le> 2 * 2 ^ 20"
    using part_payload_chunk [OF assms(1,2)] assms(4,5) by (metis outcome.inject(1))
  then have len: "unat (of_nat (length payload) :: u64) = length payload"
    by (intro unat_of_nat_u64) simp
  have "length part div ?u \<le> 2 ^ 20" by (rule order_trans [OF div_le_dividend assms(4)])
  then have n: "unat (part_samples ss part) = length part div ?u"
    unfolding part_samples_def by (intro unat_of_nat_u64) simp
  moreover have "0 < length part div ?u"
    using dvd u assms(3) by (simp add: div_greater_zero_iff dvd_imp_le)
  ultimately show ?thesis
    using assms(1,4) len dvd
    by (auto simp: typed_data_def chunk_data_def sender_ok_def unat_MAX_PAYLOAD
        simp del: sample_encoding_i32.simps codec_i32.simps)
qed

lemma stream_chunks_typed:
  "\<lbrakk>sender_ok ss; list_all (whole_samples (ss_unitsize ss)) parts; list_all (\<lambda>p. p \<noteq> []) parts;
    list_all (\<lambda>p. length p \<le> 2 ^ 20) parts; stream_chunks ss parts = Ret ds\<rbrakk> \<Longrightarrow>
   list_all (typed_data (ss_unitsize ss)) ds"
proof (induction parts arbitrary: ss ds)
  case (Cons part parts)
  then obtain payload ds' where "part_payload ss part = Ret payload"
    "stream_chunks (advance ss part) parts = Ret ds'" "ds = chunk_data ss part payload # ds'"
    by (auto simp: return_iff)
  with Cons.prems Cons.IH [of "advance ss part" ds'] typed_chunk [of ss part payload] show ?case
    by simp
qed simp

section \<open>Properties\<close>

text \<open>
  Every reply of a session has a meaning.  For a plugin that keeps to the enums,
  whatever messages arrive, undecodable ones included, each answer is either an error
  with a code of \<open>ErrorCode\<close> or a result, never both and never neither, and a result
  of \<open>Hello\<close> names the crate's version and only encodings and codecs of the two enums.
\<close>

lemma replies_are_typed:
  assumes "typed_plugin h" and "session w h s msgs = (s', rs, stopped)"
  shows "list_all typed_message rs"
  by (rule session_typed [OF assms])

lemma replies_are_typed_witness:
  "typed_message (snd (answer_bytes tiny_wire (demo []) (new_server 0 quiet_socket) [1, 11]))
   \<and> typed_message (snd (answer_bytes tiny_wire (demo []) (demo_server True) [2, 12]))"
proof -
  have typed: "typed_plugin (demo [])"
    by (simp add: typed_plugin_def demo_def)
  have one: "typed_message (snd (answer_bytes tiny_wire (demo []) s bs))" for s bs
  proof -
    obtain s1 r1 where a: "answer_bytes tiny_wire (demo []) s bs = (s1, r1)" by fastforce
    obtain s2 rs st where "session tiny_wire (demo []) s [bs] = (s2, rs, st)" "rs = [r1]"
      using a by (cases "ends_session tiny_wire s bs") simp_all
    with replies_are_typed [OF typed, of tiny_wire s "[bs]"] a show ?thesis by simp
  qed
  show ?thesis by (rule conjI; rule one)
qed

text \<open>
  C30. Every chunk a \<open>StreamSender\<close> makes of whole samples has a meaning: an encoding
  the receiver can undo, no codec, its true length, at least one sample, and an
  expansion of at most \<open>MAX_PAYLOAD\<close> bytes.
\<close>

theorem chunks_are_typed:
  assumes "sender_ok ss" and "unat (ss_unitsize ss) \<le> 2 ^ 20"
    and "whole_samples (ss_unitsize ss) packed"
    and "stream_chunks ss (chunks (unat (chunk_size (ss_unitsize ss))) packed) = Ret ds"
  shows "list_all (typed_data (ss_unitsize ss)) ds"
proof -
  from assms(1) have u: "ss_unitsize ss \<noteq> 0" by (simp add: sender_ok_def)
  have "list_all (\<lambda>p. p \<noteq> []) (chunks (unat (chunk_size (ss_unitsize ss))) packed)"
    using chunks_bound [of _ "unat (chunk_size (ss_unitsize ss))" packed]
    by (fastforce simp: list_all_iff)
  from stream_chunks_typed [OF assms(1) chunks_whole(1) [OF u assms(2,3)] this
      chunks_whole(3) [OF u assms(2,3)] assms(4)]
  show ?thesis .
qed

theorem chunks_are_typed_witness:
  "typed_data 2 (chunk_data (example_sender\<lparr>ss_encoding := Packed\<rparr>) [1, 2] [1, 2])"
proof -
  let ?ss = "example_sender\<lparr>ss_encoding := Packed\<rparr>"
  have "unat (chunk_size 2) = 2 ^ 20" by (simp add: chunk_size_def MAX_PAYLOAD_def)
  then have parts: "chunks (unat (chunk_size (ss_unitsize ?ss))) [1, 2 :: u8] = [[1, 2]]"
    by (simp add: example_sender_def chunks.simps)
  have ok: "sender_ok ?ss" "unat (ss_unitsize ?ss) \<le> 2 ^ 20" "whole_samples (ss_unitsize ?ss) [1, 2]"
    by (simp_all add: sender_ok_def example_sender_def whole_samples_def isize_max_def)
  have ds: "stream_chunks ?ss (chunks (unat (chunk_size (ss_unitsize ?ss))) [1, 2])
      = Ret [chunk_data ?ss [1, 2] [1, 2]]"
    unfolding parts by (simp add: part_payload_def example_sender_def)
  have "ss_unitsize ?ss = 2" by (simp add: example_sender_def)
  with chunks_are_typed [OF ok ds] show ?thesis by simp
qed

end
