(* ===== verification/OCP_Tests.thy ===== *)
theory OCP_Tests
  imports OCP_Prelude OCP_Proto OCP_Error OCP_Encoding OCP_Manifest OCP_Args OCP_Transport
begin

text \<open>
  The unit tests of the crate, run on the model: the test modules of \<open>encoding.rs\<close>,
  \<open>server/args.rs\<close>, \<open>manifest.rs\<close> and \<open>transport.rs\<close>.  A test is a boolean, one
  conjunct per assertion; \<open>unwrap\<close> is the branch that makes it false.  The two tests
  of \<open>parse\<close> are about the generated JSON reader, which is their parameter.
\<close>

section \<open>\<open>encoding.rs\<close>\<close>

text \<open>\<open>is_err\<close> of a call that may also panic, and of one that may not.\<close>

definition fails :: "'a result outcome \<Rightarrow> bool" where
  "fails r = (case r of Ret (Inl _) \<Rightarrow> True | _ \<Rightarrow> False)"

definition is_err :: "'a result \<Rightarrow> bool" where
  "is_err r = (case r of Inl _ \<Rightarrow> True | Inr _ \<Rightarrow> False)"

definition roundtrip :: "profile \<Rightarrow> bytes \<Rightarrow> usize \<Rightarrow> bool" where
  "roundtrip prof packed unitsize \<longleftrightarrow>
     obind (encode_transition packed unitsize)
       (\<lambda>encoded. decode_transition prof encoded unitsize (of_nat (length packed div unat unitsize)))
     = Ret (Inr packed)"

definition runs_round_trip :: "profile \<Rightarrow> bool" where
  "runs_round_trip prof \<longleftrightarrow>
     roundtrip prof [] 1 \<and> roundtrip prof [7] 1 \<and> roundtrip prof [1, 1, 1, 2, 2, 3] 1
     \<and> roundtrip prof (replicate 500 0xaa) 1 \<and> roundtrip prof [1, 2, 1, 2, 3, 4, 3, 4] 2"

definition idle_bus_collapses_to_one_run :: bool where
  "idle_bus_collapses_to_one_run \<longleftrightarrow>
     (case encode_transition (replicate 100000 0) 1 of Ret e \<Rightarrow> length e < 10 | _ \<Rightarrow> False)"

definition long_runs_use_multi_byte_varints :: "profile \<Rightarrow> bool" where
  "long_runs_use_multi_byte_varints prof \<longleftrightarrow>
     encode_transition (replicate 300 5) 1 = Ret [0xac, 0x02, 5]
     \<and> roundtrip prof (replicate 100000 5) 1"

definition a_short_count_is_an_error :: "profile \<Rightarrow> bool" where
  "a_short_count_is_an_error prof \<longleftrightarrow>
     fails (obind (encode_transition [1, 1, 2] 1) (\<lambda>encoded. decode_transition prof encoded 1 2))
     \<and> fails (decode_transition prof [3] 1 3)
     \<and> fails (decode_transition prof [0, 9] 1 1)"

definition negotiation_keeps_the_mandatory_member :: bool where
  "negotiation_keeps_the_mandatory_member \<longleftrightarrow>
     (let packed = sample_encoding_i32 Packed; transition = sample_encoding_i32 Transition in
      negotiate_encodings [packed] ENCODINGS = [packed]
      \<and> negotiate_encodings [packed, transition] ENCODINGS = [transition, packed]
      \<and> negotiate_encodings [transition] [Packed] = [packed]
      \<and> negotiate_encodings [] ENCODINGS = [packed]
      \<and> negotiate_codecs [] CODECS = [codec_i32 CodecNone])"

definition default_data :: capture_data where
  "default_data = \<lparr>cd_capture_id = 0, cd_acquisition = 0, cd_stream = 0, cd_seq = 0,
     cd_first_sample = 0, cd_sample_count = 0, cd_encoding = 0, cd_codec = 0, cd_decoded_len = 0,
     cd_payload = []\<rparr>"

definition decodes_to :: "cow result outcome \<Rightarrow> bytes \<Rightarrow> bool" where
  "decodes_to r packed = (case r of Ret (Inr c) \<Rightarrow> cow_bytes c = packed | _ \<Rightarrow> False)"

definition chunks_decode_by_their_declared_encoding :: "profile \<Rightarrow> bool" where
  "chunks_decode_by_their_declared_encoding prof \<longleftrightarrow>
     (let packed = [1, 1, 1, 2];
          data = default_data\<lparr>cd_sample_count := 4, cd_encoding := sample_encoding_i32 Packed,
            cd_codec := codec_i32 CodecNone, cd_payload := packed\<rparr> in
      (case decode_payload prof data 1 of Ret (Inr (Borrowed _)) \<Rightarrow> True | _ \<Rightarrow> False)
      \<and> decodes_to (decode_payload prof data 1) packed
      \<and> (case encode_transition packed 1 of
           Panic _ \<Rightarrow> False
         | Ret payload \<Rightarrow>
             (let data = data\<lparr>cd_encoding := sample_encoding_i32 Transition, cd_payload := payload\<rparr> in
              decodes_to (decode_payload prof data 1) packed
              \<and> fails (decode_payload prof (data\<lparr>cd_codec := codec_i32 Zstd\<rparr>) 1))))"

section \<open>\<open>args.rs\<close> and \<open>manifest.rs\<close>\<close>

definition parses_both_flag_notations :: bool where
  "parses_both_flag_notations \<longleftrightarrow>
     (case parse_args [''--device'', ''demo://0'', ''--control'', ''ipc:///t/c'', ''--events'', ''ipc:///t/e''] of
        Inl _ \<Rightarrow> False
      | Inr args \<Rightarrow> arg_device args = ''demo://0'' \<and> arg_control args = ''ipc:///t/c''
          \<and> arg_events args = ''ipc:///t/e'')
     \<and> (case parse_args [''--device=demo://0'', ''--control=ipc:///t/c'', ''--events=ipc:///t/e''] of
          Inl _ \<Rightarrow> False
        | Inr args \<Rightarrow> arg_device args = ''demo://0'')"

definition incomplete_argv_is_refused :: bool where
  "incomplete_argv_is_refused \<longleftrightarrow>
     is_err (parse_args [''--device'', ''demo://0'']) \<and> is_err (parse_args [''--device''])
     \<and> is_err (parse_args [''--wat=1''])"

definition default_manifest :: plugin_manifest where
  "default_manifest = \<lparr>pm_name = [], pm_description = [], pm_vendor = [], pm_version = [],
     pm_license = [], pm_run = [], pm_build = [], pm_usb_ids = [], pm_url_schemes = [],
     pm_palette = None\<rparr>"

definition argv_resolves_against_the_plugin_directory :: bool where
  "argv_resolves_against_the_plugin_directory \<longleftrightarrow>
     (let dir = ''/plugins/demo'';
          manifest = default_manifest\<lparr>pm_run :=
            [''{python}'', ''plugin.py'', ''--verbose'', ''/usr/bin/thing'', ''demo'']\<rparr> in
      resolve_argv manifest dir ''/usr/bin/python3.13''
        = [''/usr/bin/python3.13'', ''/plugins/demo/plugin.py'', ''--verbose'', ''/usr/bin/thing'', ''demo''])"

text \<open>
  The literals of the two tests of \<open>parse\<close>: a raw string keeps its line breaks and the
  indentation of the file.
\<close>

definition raw_lines :: "string list \<Rightarrow> string" where
  "raw_lines ls = tl (concat (map (\<lambda>l. CHR 0x0A # l) ls))"

definition canonical_json :: string where
  "canonical_json = raw_lines
     [''{\"name\": \"generic-fx2\",'',
      ''                \"description\": \"Cypress FX2 logic analyzers\",'',
      ''                \"version\": \"0.0.1\",'',
      ''                \"run\": [\"./generic-fx2\"],'',
      ''                \"urlSchemes\": [\"usb\", \"fd\"],'',
      ''                \"usbIds\": [{\"id\": \"04b4:8613\", \"needsFirmware\": true},'',
      ''                           {\"id\": \"1d50:608c\", \"note\": \"openmso\"}],'',
      ''                \"palette\": {\"analog\": [\"COLOR_YELLOW\", \"COLOR_MAGENTA\"]}}'']"

definition canonical_json_field_names_round_trip ::
  "(string \<Rightarrow> json_error + plugin_manifest) \<Rightarrow> bool" where
  "canonical_json_field_names_round_trip from_str \<longleftrightarrow>
     (case parse_manifest from_str canonical_json of
        Inl _ \<Rightarrow> False
      | Inr m \<Rightarrow>
          pm_name m = ''generic-fx2'' \<and> pm_url_schemes m = [''usb'', ''fd'']
          \<and> (case pm_usb_ids m of
               [first, second] \<Rightarrow> usb_needs_firmware first \<and> \<not> usb_needs_firmware second
             | _ \<Rightarrow> False)
          \<and> (case pm_palette m of None \<Rightarrow> False | Some p \<Rightarrow> cp_analog p = [COLOR_YELLOW, COLOR_MAGENTA])
          \<and> pm_vendor m = [])"

definition unknown_keys_are_rejected :: "(string \<Rightarrow> json_error + plugin_manifest) \<Rightarrow> bool" where
  "unknown_keys_are_rejected from_str \<longleftrightarrow>
     is_err (parse_manifest from_str ''{\"name\": \"demo\", \"runn\": [\"./demo\"]}'')"

section \<open>\<open>transport.rs\<close>\<close>

definition endpoints_are_private_and_removed_on_drop :: "env_vars \<Rightarrow> u32 \<Rightarrow> u32 \<Rightarrow> fs \<Rightarrow> bool" where
  "endpoints_are_private_and_removed_on_drop env now pid fs \<longleftrightarrow>
     (case new_endpoints env now pid fs of
        (_, Inl _) \<Rightarrow> False
      | (fs, Inr e) \<Rightarrow>
          starts_with (ep_control e) ''ipc://'' \<and> ep_control e \<noteq> ep_events e
          \<and> (case fs_dirs fs (ep_dir e) of None \<Rightarrow> False | Some mode \<Rightarrow> mode AND 0x1FF = mode_700)
          \<and> fs_dirs (drop_endpoints fs e) (ep_dir e) = None)"

definition concurrent_frontends_get_separate_directories ::
  "env_vars \<Rightarrow> u32 \<times> u32 \<Rightarrow> u32 \<times> u32 \<Rightarrow> fs \<Rightarrow> bool" where
  "concurrent_frontends_get_separate_directories env first second fs \<longleftrightarrow>
     (case new_endpoints env (fst first) (snd first) fs of
        (_, Inl _) \<Rightarrow> False
      | (fs, Inr a) \<Rightarrow>
          (case new_endpoints env (fst second) (snd second) fs of
             (_, Inl _) \<Rightarrow> False
           | (_, Inr b) \<Rightarrow> ep_control a \<noteq> ep_control b))"

definition overlong_socket_paths_are_rejected :: bool where
  "overlong_socket_paths_are_rejected \<longleftrightarrow>
     is_err (check_sun_path (path_join ''/run/user/1000'' (replicate 100 (CHR ''x''))))
     \<and> \<not> is_err (check_sun_path ''/run/user/1000/openmso/7f3a/ctl'')"

section \<open>Why they pass\<close>

lemma fails_simps [simp]: "fails (Ret (Inl e))" "\<not> fails (Ret (Inr x))" "\<not> fails (Panic p)"
  by (simp_all add: fails_def)

lemma is_err_simps [simp]: "is_err (Inl e)" "\<not> is_err (Inr x)"
  by (simp_all add: is_err_def)

lemma roundtrip_ok:
  "unitsize \<noteq> 0 \<Longrightarrow> length packed \<le> isize_max \<Longrightarrow> unat unitsize dvd length packed \<Longrightarrow>
   roundtrip prof packed unitsize"
  using decode_encoded [of unitsize packed prof] by (simp add: roundtrip_def)

lemma runs_round_trip_ok: "runs_round_trip prof"
  unfolding runs_round_trip_def by (intro conjI roundtrip_ok) (simp_all add: isize_max_def)

lemma encode_replicate:
  assumes "0 < n" and "n < 2 ^ 64"
  shows "encode_transition (replicate n x) 1 = Ret (put_varint [] (of_nat n) @ [x])"
proof -
  have "concat (replicate n [x]) = replicate n x" by (induction n) simp_all
  with idle_bus_is_one_run [of 1 "[x]" n] assms show ?thesis by simp
qed

lemma idle_ok: idle_bus_collapses_to_one_run
proof -
  have "put_varint [] (100000 :: u64) = [0xa0, 0x8d, 0x06]" by code_simp
  then show ?thesis by (simp add: idle_bus_collapses_to_one_run_def encode_replicate)
qed

lemma long_runs_ok: "long_runs_use_multi_byte_varints prof"
proof -
  have "put_varint [] (300 :: u64) = [0xac, 0x02]" by code_simp
  then have "encode_transition (replicate 300 5) 1 = Ret [0xac, 0x02, 5]"
    by (simp add: encode_replicate)
  moreover have "roundtrip prof (replicate 100000 5) 1"
    by (rule roundtrip_ok) (simp_all add: isize_max_def)
  ultimately show ?thesis by (simp add: long_runs_use_multi_byte_varints_def)
qed

lemma short_count_ok: "a_short_count_is_an_error prof"
proof -
  have replicate_two: "replicate 2 x = [x, x]" for x :: bytes by (simp add: numeral_eq_Suc)
  have varints: "get_varint [2, 1, 1, 2] = Inr (2, [1, 1, 2])" "get_varint [1, 2] = Inr (1, [2])"
    "get_varint [3] = Inr (3, [])" "get_varint [0, 9] = Inl (Protocol ZeroRun)"
    by code_simp+
  have declared: "usize_mul prof n 1 = Ret n" for n
    using unsigned_less [of n, where ?'a = nat] by (simp add: usize_mul_exact)
  have room: "vec_reserve 2 = Ret []" "vec_reserve 3 = Ret []" "vec_reserve 1 = Ret []"
    by (simp_all add: vec_reserve_def isize_max_def)
  have runs: "decode_runs 1 [] [2, 1, 1, 2] = Ret (Inr [1, 1, 2])"
    by (simp add: decode_runs.simps varints extend_run_eq isize_max_def replicate_two
        vec_extend_def)
  have "encode_transition [1, 1, 2] 1 = Ret [2, 1, 1, 2]" by code_simp
  moreover have "fails (decode_transition prof [2, 1, 1, 2] 1 2)"
    by (simp add: decode_transition_def declared room runs)
  moreover have "fails (decode_transition prof [3] 1 3)"
    by (simp add: decode_transition_def declared room decode_runs.simps varints)
  moreover have "fails (decode_transition prof [0, 9] 1 1)"
    by (simp add: decode_transition_def declared room decode_runs.simps varints)
  ultimately show ?thesis by (simp add: a_short_count_is_an_error_def)
qed

lemma negotiation_ok: negotiation_keeps_the_mandatory_member
  by code_simp

lemma chunks_ok: "chunks_decode_by_their_declared_encoding prof"
proof -
  have e: "encode_transition [1, 1, 1, 2] 1 = Ret [3, 1, 1, 2]" by code_simp
  have d: "decode_transition prof [3, 1, 1, 2] 1 4 = Ret (Inr [1, 1, 1, 2])"
    using decode_encoded [of 1 "[1, 1, 1, 2]" prof] by (simp add: e isize_max_def)
  show ?thesis
    by (simp add: chunks_decode_by_their_declared_encoding_def Let_def e d decodes_to_def
        decode_payload_def codec_try_from_def sample_encoding_try_from_def default_data_def)
qed

lemma argv_tests_ok:
  parses_both_flag_notations incomplete_argv_is_refused argv_resolves_against_the_plugin_directory
  by code_simp+

lemma paths_ok: overlong_socket_paths_are_rejected
  by code_simp

text \<open>
  A reader of canonical JSON, which takes the camel-case names of the fields, the names
  of enumerators and absent fields for their defaults, and refuses an unknown field.
\<close>

definition fx2_manifest :: plugin_manifest where
  "fx2_manifest = default_manifest\<lparr>pm_name := ''generic-fx2'',
     pm_description := ''Cypress FX2 logic analyzers'', pm_version := ''0.0.1'',
     pm_run := [''./generic-fx2''], pm_url_schemes := [''usb'', ''fd''],
     pm_usb_ids := [\<lparr>usb_id = ''04b4:8613'', usb_note = [], usb_needs_firmware = True\<rparr>,
       \<lparr>usb_id = ''1d50:608c'', usb_note = ''openmso'', usb_needs_firmware = False\<rparr>],
     pm_palette := Some \<lparr>cp_analog = [COLOR_YELLOW, COLOR_MAGENTA], cp_logic = []\<rparr>\<rparr>"

lemma json_tests_ok:
  assumes "from_str canonical_json = Inr fx2_manifest"
    and "from_str ''{\"name\": \"demo\", \"runn\": [\"./demo\"]}'' = Inl e"
  shows "canonical_json_field_names_round_trip from_str" and "unknown_keys_are_rejected from_str"
  using assms
  by (simp_all add: canonical_json_field_names_round_trip_def unknown_keys_are_rejected_def
      parse_manifest_def fx2_manifest_def default_manifest_def)

text \<open>A runtime directory in which nothing stands in the way of the tests.\<close>

definition runtime_dir_usable :: "env_vars \<Rightarrow> fs \<Rightarrow> bool" where
  "runtime_dir_usable env fs \<longleftrightarrow>
     no_faults fs \<and> fs_umask fs AND mode_700 = 0 \<and> length (runtime_base env) \<le> 94"

lemma owner_keeps_access:
  assumes "umask AND mode_700 = (0 :: u32)"
  shows "(mode_700 AND NOT umask) AND 0x1FF = mode_700"
proof -
  have "mode_700 AND NOT umask = mode_700 XOR (umask AND mode_700)"
    by (rule bit_word_eqI) (auto simp: bit_and_iff bit_xor_iff bit_not_iff)
  then have "mode_700 AND NOT umask = mode_700" by (simp add: assms)
  then have "(mode_700 AND NOT umask) AND 0x1FF = mode_700 AND 0x1FF" by (simp only:)
  then show ?thesis by simp
qed

lemma endpoints_test_ok:
  assumes "runtime_dir_usable env fs" and "fs_dirs fs (tag_dir env ((now XOR pid) AND 0xffff)) = None"
  shows "endpoints_are_private_and_removed_on_drop env now pid fs"
proof -
  let ?t = "(now XOR pid) AND 0xffff"
  from assms have "new_endpoints env now pid fs = (with_dir env fs ?t, Inr (endpoints_at env ?t))"
    by (intro new_endpoints_first) (simp_all add: runtime_dir_usable_def)
  moreover have "fs_dirs (with_dir env fs ?t) (tag_dir env ?t) = Some (mode_700 AND NOT (fs_umask fs))"
    by (simp add: with_dir_def Let_def)
  moreover have "fs_fault (with_dir env fs ?t) = (\<lambda>_ _. None)"
    using assms(1) by (simp add: with_dir_def Let_def runtime_dir_usable_def no_faults_def)
  ultimately show ?thesis
    using owner_keeps_access [of "fs_umask fs"] assms(1)
    by (simp add: endpoints_are_private_and_removed_on_drop_def endpoints_at_def starts_with_def
        path_in_tag_dir drop_endpoints_def remove_dir_all_def runtime_dir_usable_def del: and.assoc)
qed

lemma concurrent_test_ok:
  assumes "runtime_dir_usable env fs" and "\<And>t. fs_dirs fs (tag_dir env t) = None"
  shows "concurrent_frontends_get_separate_directories env first second fs"
proof -
  let ?a = "(fst first XOR snd first) AND 0xffff" and ?b = "(fst second XOR snd second) AND 0xffff"
  let ?fs = "with_dir env fs ?a"
  have usable: "no_faults fs" "length (runtime_base env) \<le> 94"
    using assms(1) by (simp_all add: runtime_dir_usable_def)
  have one: "new_endpoints env (fst first) (snd first) fs = (?fs, Inr (endpoints_at env ?a))"
    by (rule new_endpoints_first [OF usable assms(2)])
  have quiet: "no_faults ?fs" using usable(1) by (simp add: no_faults_def with_dir_def Let_def)
  have taken: "fs_dirs ?fs (tag_dir env t) = None \<longleftrightarrow> t \<noteq> ?a" for t
    using assms(2) with_base_tag [of env fs t] by (simp add: with_dir_def Let_def)
  obtain fs2 t where two: "new_endpoints env (fst second) (snd second) ?fs = (fs2, Inr (endpoints_at env t))"
    and t: "t \<noteq> ?a"
  proof (cases "?b = ?a")
    case False
    then have "fs_dirs ?fs (tag_dir env ?b) = None" by (simp add: taken)
    from new_endpoints_first [OF quiet usable(2) this] False that show thesis by blast
  next
    case True
    have next1: "next_tag ?b \<noteq> ?a" using next_tag_differs [of ?b] True by (simp add: unat_low16)
    have "\<exists>fs'. new_loop 64 env ?fs ?b = (fs', Inr (endpoints_at env ((next_tag ^^ 1) ?b)))"
      by (rule new_loop_first_free [OF quiet unat_low16 usable(2)]) (use next1 True taken in auto)
    with next1 that show thesis by (auto simp: new_endpoints_def)
  qed
  from one two t show ?thesis
    by (simp add: concurrent_frontends_get_separate_directories_def endpoints_at_def path_in_tag_dir)
qed

section \<open>Properties\<close>

text \<open>
  The unit tests of the crate hold of the model, in debug and in release builds:
  the round trips and refusals of the transition codec, the negotiation, the choice of
  the decoder by the declared encoding, the two notations of the arguments, the
  resolution of an argv, and, in a runtime directory in which no plugin runs yet and
  nothing is refused, for every clock and process id, the private and removed
  directories of the endpoints.
\<close>

lemma unit_tests_pass:
  assumes "runtime_dir_usable env fs" and "\<And>t. fs_dirs fs (tag_dir env t) = None"
  shows "runs_round_trip prof \<and> idle_bus_collapses_to_one_run
    \<and> long_runs_use_multi_byte_varints prof \<and> a_short_count_is_an_error prof
    \<and> negotiation_keeps_the_mandatory_member \<and> chunks_decode_by_their_declared_encoding prof
    \<and> parses_both_flag_notations \<and> incomplete_argv_is_refused
    \<and> argv_resolves_against_the_plugin_directory
    \<and> endpoints_are_private_and_removed_on_drop env now pid fs
    \<and> concurrent_frontends_get_separate_directories env (now, pid) (now', pid') fs
    \<and> overlong_socket_paths_are_rejected"
  by (intro conjI runs_round_trip_ok idle_ok long_runs_ok short_count_ok negotiation_ok chunks_ok
      argv_tests_ok paths_ok endpoints_test_ok concurrent_test_ok assms)

lemma unit_tests_pass_witness:
  "endpoints_are_private_and_removed_on_drop example_env 7 5 example_fs
   \<and> concurrent_frontends_get_separate_directories example_env (7, 5) (5, 7) example_fs"
proof -
  have "runtime_dir_usable example_env example_fs"
    by (simp add: runtime_dir_usable_def no_faults_def example_base) (simp add: example_fs_def)
  moreover have "fs_dirs example_fs (tag_dir example_env t) = None" for t
    by (simp add: tag_dir_form example_base example_fs_def)
  ultimately show ?thesis
    using unit_tests_pass [of example_env example_fs Debug 7 5 5 7] by blast
qed

end
