(* ===== verification/OCP_Scenarios.thy ===== *)
theory OCP_Scenarios
  imports OCP_Prelude OCP_Proto OCP_Error OCP_Encoding OCP_Transport OCP_Events OCP_Server OCP_System
    "HOL-Library.Monad_Syntax"
begin

text \<open>
  \<open>rust/openmso/tests/control_loop.rs\<close>: the integration test.  Its plugin, a stub whose
  captures run on a thread of their own, its frontend, a harness that speaks the protocol
  by hand, and its scenarios, under every interleaving of the acquisition thread with
  the requests.
\<close>

section \<open>The stub plugin\<close>

definition UNITSIZE :: usize where
  "UNITSIZE = 1"

definition SAMPLES :: nat where
  "SAMPLES = 2 ^ 20 + 5000"

text \<open>
  An acquisition thread: what it has yet to push before it looks at its stop flag, and
  whether it has pushed the end of the capture.  A stop flag is an \<open>Arc\<close> shared by
  thread and plugin: an index into the flags created so far.
\<close>

record capture_thread =
  th_capture_id :: u64
  th_continuous :: bool
  th_stop :: nat
  th_todo :: "event list"
  th_ended :: bool

record stub =
  stub_stop :: nat
  stub_flags :: "bool list"
  stub_threads :: "capture_thread list"

definition new_stub :: stub where
  "new_stub = \<lparr>stub_stop = 0, stub_flags = [False], stub_threads = []\<rparr>"

definition capture_samples :: bytes where
  "capture_samples = replicate SAMPLES 0xa5"

text \<open>
  The pushes of a thread up to the loop: \<open>CaptureBegin\<close>, with 1e6 as the bits of a
  double, and the chunks of one \<open>send\<close> of the samples, one push each.
\<close>

definition capture_chunks :: "u64 \<Rightarrow> capture_data list outcome" where
  "capture_chunks capture_id =
     obind (new_sender capture_id 0 0 UNITSIZE) (\<lambda>sender.
     stream_chunks (transition sender) (chunks (unat (chunk_size UNITSIZE)) capture_samples))"

definition thread_events :: "u64 \<Rightarrow> event list" where
  "thread_events capture_id =
     CaptureBegin \<lparr>cb_capture_id = capture_id, cb_samplerate = 0x412E848000000000, cb_streams = []\<rparr>
     # (case capture_chunks capture_id of Ret ds \<Rightarrow> map Data ds | Panic _ \<Rightarrow> [])"

definition capture_ended :: "u64 \<Rightarrow> event" where
  "capture_ended capture_id = CaptureEnd \<lparr>ce_capture_id = capture_id, ce_error = None\<rparr>"

definition default_description :: description where
  "default_description = \<lparr>desc_channels = [], desc_limits = None, desc_analog = None, desc_logic = None,
     desc_vendor_options = []\<rparr>"

definition stub_server :: "stub capture_server" where
  "stub_server =
     \<lparr>on_hello = (\<lambda>p req. (p, [], Inr (make_hello_result req
        \<lparr>pi_name = [], pi_version = [], pi_vendor = [], pi_description = []\<rparr>
        \<lparr>cap_modes = [], cap_trigger_kinds = []\<rparr>
        \<lparr>di_vendor = [], di_model = [], di_serial = [], di_firmware_version = []\<rparr>))),
      on_describe = (\<lambda>p. (p, [], Inr default_description)),
      on_get_config = (\<lambda>p. (p, [], Inr default_config)),
      on_set_config = (\<lambda>p config. (p, [], Inr config)),
      on_acquire_start = (\<lambda>p req.
        (let stop = length (stub_flags p) in
         (p\<lparr>stub_stop := stop, stub_flags := stub_flags p @ [False],
            stub_threads := stub_threads p @ [\<lparr>th_capture_id = as_capture_id req,
              th_continuous = (as_mode req = acquire_mode_i32 AcquireContinuous), th_stop = stop,
              th_todo = thread_events (as_capture_id req), th_ended = False\<rparr>]\<rparr>, [], Inr ()))),
      on_acquire_stop = (\<lambda>p _. (p\<lparr>stub_flags := (stub_flags p)[stub_stop p := True]\<rparr>, [], Inr ())),
      on_reset = default_reset,
      on_shutdown = default_shutdown\<rparr>"

text \<open>
  A step of the \<open>i\<close>-th thread: its next push, or, when all is pushed, a look at the
  stop flag (a continuous capture that is not stopped sleeps) and the end of the
  capture.
\<close>

definition push_event :: "wire \<Rightarrow> event \<Rightarrow> 'p server \<Rightarrow> 'p server" where
  "push_event w ev s = s\<lparr>srv_events := fst (events_send (enc_event w) (srv_events s) ev)\<rparr>"

definition set_thread :: "nat \<Rightarrow> capture_thread \<Rightarrow> stub server \<Rightarrow> stub server" where
  "set_thread i th s =
     s\<lparr>srv_plugin := (srv_plugin s)\<lparr>stub_threads := (stub_threads (srv_plugin s))[i := th]\<rparr>\<rparr>"

definition thread_step :: "wire \<Rightarrow> nat \<Rightarrow> stub server \<Rightarrow> stub server" where
  "thread_step w i s =
     (let p = srv_plugin s; th = stub_threads p ! i in
      if length (stub_threads p) \<le> i then s
      else (case th_todo th of
              ev # rest \<Rightarrow> push_event w ev (set_thread i (th\<lparr>th_todo := rest\<rparr>) s)
            | [] \<Rightarrow>
                if th_ended th \<or> (th_continuous th \<and> \<not> stub_flags p ! th_stop th) then s
                else push_event w (capture_ended (th_capture_id th))
                       (set_thread i (th\<lparr>th_ended := True\<rparr>) s)))"

section \<open>The harness\<close>

record harness =
  hs_server :: "stub server"
  hs_seq :: u32

definition harness_start :: "socket \<Rightarrow> harness" where
  "harness_start stream = \<lparr>hs_server = new_server new_stub stream, hs_seq = 0\<rparr>"

definition harness_send :: "wire \<Rightarrow> harness \<Rightarrow> request option \<Rightarrow> harness \<times> response_msg" where
  "harness_send w h request =
     (let seq = hs_seq h + 1 in
      case answer w stub_server (hs_server h) \<lparr>rq_seq = seq, rq_request = request\<rparr> of
        (s, response) \<Rightarrow> (\<lparr>hs_server = s, hs_seq = seq\<rparr>, response))"

text \<open>A failed assertion, an \<open>unwrap\<close> or an \<open>expect\<close> that panics is \<open>None\<close>.\<close>

definition check :: "bool \<Rightarrow> unit option" where
  "check b = (if b then Some () else None)"

definition harness_ok :: "wire \<Rightarrow> harness \<Rightarrow> request \<Rightarrow> (harness \<times> response) option" where
  "harness_ok w h request =
     (case harness_send w h (Some request) of (h, response) \<Rightarrow>
        do { check (rs_seq response = hs_seq h); check (rs_error response = None);
             r \<leftarrow> rs_response response; Some (h, r) })"

definition harness_refused :: "wire \<Rightarrow> harness \<Rightarrow> request \<Rightarrow> (harness \<times> error_code) option" where
  "harness_refused w h request =
     (case harness_send w h (Some request) of (h, response) \<Rightarrow>
        do { check (rs_seq response = hs_seq h); check (rs_response response = None);
             e \<leftarrow> rs_error response; code \<leftarrow> error_code_try_from (err_code e); Some (h, code) })"

definition send_raw_empty :: "wire \<Rightarrow> harness \<Rightarrow> harness \<times> response_msg" where
  "send_raw_empty w h = harness_send w h None"

definition harness_hello :: "wire \<Rightarrow> harness \<Rightarrow> (harness \<times> response) option" where
  "harness_hello w h =
     harness_ok w h (ReqHello \<lparr>he_protocol = PROTOCOL_VERSION, he_client_name = ''test'',
       he_client_version = [], he_accept_encodings = [], he_accept_codecs = []\<rparr>)"

text \<open>\<open>drain_capture\<close>, over the messages that come in on the event socket.\<close>

fun drain_capture :: "wire \<Rightarrow> profile \<Rightarrow> u64 \<Rightarrow> u64 \<Rightarrow> bytes list \<Rightarrow> bytes option" where
  "drain_capture w prof seq first [] = None"
| "drain_capture w prof seq first (bs # msgs) =
     (case dec_event w bs of
        Inl _ \<Rightarrow> None
      | Inr m \<Rightarrow>
          (case ev_event m of
             Some (CaptureBegin _) \<Rightarrow> drain_capture w prof seq first msgs
           | Some (Data data) \<Rightarrow>
               do { check (cd_seq data = seq); check (cd_first_sample data = first);
                    check (cd_decoded_len data = of_nat (length (cd_payload data)));
                    samples \<leftarrow> (case decode_transition prof (cd_payload data) UNITSIZE (cd_sample_count data) of
                                  Ret (Inr out) \<Rightarrow> Some out | _ \<Rightarrow> None);
                    rest \<leftarrow> drain_capture w prof (seq + 1) (first + cd_sample_count data) msgs;
                    Some (samples @ rest) }
           | Some (CaptureEnd end_of) \<Rightarrow> do { check (ce_error end_of = None); Some [] }
           | _ \<Rightarrow> None))"

section \<open>The scenarios\<close>

text \<open>
  Each takes the numbers of steps the acquisition thread makes before the requests, so
  that a statement for all numbers is one for all interleavings.
\<close>

definition let_run :: "wire \<Rightarrow> nat \<Rightarrow> harness \<Rightarrow> harness" where
  "let_run w n h = h\<lparr>hs_server := (thread_step w 0 ^^ n) (hs_server h)\<rparr>"

definition harness_events :: "harness \<Rightarrow> bytes list" where
  "harness_events h = stream_sent (hs_server h)"

definition passes :: "unit option \<Rightarrow> bool" where
  "passes t \<longleftrightarrow> t = Some ()"

definition nothing_is_answered_before_hello :: "wire \<Rightarrow> socket \<Rightarrow> bool" where
  "nothing_is_answered_before_hello w stream = passes (do {
     (h, code) \<leftarrow> harness_refused w (harness_start stream) ReqDescribe;
     check (code = ErrorInvalidRequest);
     (h, _) \<leftarrow> harness_hello w h;
     (h, _) \<leftarrow> harness_ok w h ReqDescribe;
     (h, code) \<leftarrow> harness_refused w h (ReqHello \<lparr>he_protocol = 0, he_client_name = [],
       he_client_version = [], he_accept_encodings = [], he_accept_codecs = []\<rparr>);
     check (code = ErrorInvalidRequest) })"

primrec all_busy :: "wire \<Rightarrow> harness \<Rightarrow> (nat \<times> request) list \<Rightarrow> harness option" where
  "all_busy w h [] = Some h"
| "all_busy w h (nr # rest) =
     do { (h, code) \<leftarrow> harness_refused w (let_run w (fst nr) h) (snd nr);
          check (code = ErrorBusy); all_busy w h rest }"

definition configuration_requests :: "request list" where
  "configuration_requests =
     [ReqSetConfig \<lparr>sc_config = Some default_config\<rparr>, ReqGetConfig, ReqDescribe,
      ReqAcquireStart \<lparr>as_capture_id = 8, as_mode = 2\<rparr>]"

definition a_running_capture_blocks_configuration ::
  "wire \<Rightarrow> profile \<Rightarrow> socket \<Rightarrow> nat list \<Rightarrow> nat \<Rightarrow> nat \<Rightarrow> bool" where
  "a_running_capture_blocks_configuration w prof stream ns n m = passes (do {
     (h, _) \<leftarrow> harness_hello w (harness_start stream);
     (h, _) \<leftarrow> harness_ok w h (ReqAcquireStart
       \<lparr>as_capture_id = 7, as_mode = acquire_mode_i32 AcquireContinuous\<rparr>);
     h \<leftarrow> all_busy w h (zip ns configuration_requests);
     (h, _) \<leftarrow> harness_ok w (let_run w n h) (ReqAcquireStop \<lparr>ap_capture_id = 7\<rparr>);
     samples \<leftarrow> drain_capture w prof 0 0 (harness_events (let_run w m h));
     check (samples = capture_samples);
     (h, _) \<leftarrow> harness_ok w (let_run w m h) (ReqSetConfig \<lparr>sc_config = Some default_config\<rparr>);
     Some () })"

definition a_capture_that_ends_on_its_own_returns_to_ready ::
  "wire \<Rightarrow> profile \<Rightarrow> socket \<Rightarrow> nat \<Rightarrow> nat \<Rightarrow> bool" where
  "a_capture_that_ends_on_its_own_returns_to_ready w prof stream m n = passes (do {
     (h, _) \<leftarrow> harness_hello w (harness_start stream);
     (h, _) \<leftarrow> harness_ok w h (ReqAcquireStart
       \<lparr>as_capture_id = 1, as_mode = acquire_mode_i32 AcquireSingle\<rparr>);
     _ \<leftarrow> drain_capture w prof 0 0 (harness_events (let_run w m h));
     (h, _) \<leftarrow> harness_ok w (let_run w m h) (ReqAcquireStop \<lparr>ap_capture_id = 1\<rparr>);
     (h, _) \<leftarrow> harness_ok w (let_run w n h) ReqDescribe;
     Some () })"

definition reset_returns_to_ready_from_a_running_capture :: "wire \<Rightarrow> socket \<Rightarrow> nat \<Rightarrow> nat \<Rightarrow> bool" where
  "reset_returns_to_ready_from_a_running_capture w stream n m = passes (do {
     (h, _) \<leftarrow> harness_hello w (harness_start stream);
     (h, _) \<leftarrow> harness_ok w h (ReqAcquireStart
       \<lparr>as_capture_id = 1, as_mode = acquire_mode_i32 AcquireContinuous\<rparr>);
     (h, _) \<leftarrow> harness_ok w (let_run w n h) ReqReset;
     (h, _) \<leftarrow> harness_ok w (let_run w m h) (ReqAcquireStart
       \<lparr>as_capture_id = 2, as_mode = acquire_mode_i32 AcquireSingle\<rparr>);
     Some () })"

definition a_request_with_no_arm_is_refused :: "wire \<Rightarrow> socket \<Rightarrow> bool" where
  "a_request_with_no_arm_is_refused w stream = passes (do {
     (h, _) \<leftarrow> harness_hello w (harness_start stream);
     let (h, response) = send_raw_empty w h;
     e \<leftarrow> rs_error response;
     code \<leftarrow> error_code_try_from (err_code e);
     check (code = ErrorInvalidRequest);
     (h, _) \<leftarrow> harness_ok w h ReqDescribe;
     Some () })"

definition shutdown_is_answered :: "wire \<Rightarrow> socket \<Rightarrow> bool" where
  "shutdown_is_answered w stream = passes (do {
     (h, _) \<leftarrow> harness_hello w (harness_start stream);
     (_, r) \<leftarrow> harness_ok w h ReqShutdown;
     check (r = RespShutdown) })"

section \<open>Requests of the harness\<close>

lemma check_simps [simp]: "check True = Some ()" "check False = None" "check b = Some u \<longleftrightarrow> b"
  by (simp_all add: check_def)

lemma harness_ok_dispatch:
  "dispatch w stub_server (hs_server h) (Some rq) = (s, Inr r) \<Longrightarrow>
   harness_ok w h rq = Some (\<lparr>hs_server = s, hs_seq = hs_seq h + 1\<rparr>, r)"
  by (simp add: harness_ok_def harness_send_def answer_def make_response_def Let_def)

lemma harness_refused_dispatch:
  "dispatch w stub_server (hs_server h) (Some rq) = (s, Inl (proto_error_new code text)) \<Longrightarrow>
   harness_refused w h rq = Some (\<lparr>hs_server = s, hs_seq = hs_seq h + 1\<rparr>, code)"
  by (simp add: harness_refused_def harness_send_def answer_def make_response_def Let_def
      proto_error_new_def)

section \<open>The course of a capture\<close>

abbreviation event_bytes :: "wire \<Rightarrow> event \<Rightarrow> bytes" where
  "event_bytes w ev \<equiv> enc_event w \<lparr>ev_event = Some ev\<rparr>"

definition ready :: "stub server \<Rightarrow> bool" where
  "ready s \<longleftrightarrow> srv_greeted s \<and> \<not> srv_running s \<and> sk_faults (ev_socket (srv_events s)) = []
     \<and> stream_sent s = [] \<and> srv_plugin s = new_stub"

text \<open>A capture whose thread has made \<open>k\<close> pushes, and one that has ended.\<close>

definition capturing :: "wire \<Rightarrow> u64 \<Rightarrow> bool \<Rightarrow> bool \<Rightarrow> nat \<Rightarrow> stub server \<Rightarrow> bool" where
  "capturing w cid cont stopped k s \<longleftrightarrow>
     srv_greeted s \<and> srv_running s \<and> sk_faults (ev_socket (srv_events s)) = []
     \<and> k \<le> length (thread_events cid) \<and> stream_sent s = map (event_bytes w) (take k (thread_events cid))
     \<and> srv_plugin s = \<lparr>stub_stop = 1, stub_flags = [False, stopped],
          stub_threads = [\<lparr>th_capture_id = cid, th_continuous = cont, th_stop = 1,
            th_todo = drop k (thread_events cid), th_ended = False\<rparr>]\<rparr>"

definition captured :: "wire \<Rightarrow> u64 \<Rightarrow> stub server \<Rightarrow> bool" where
  "captured w cid s \<longleftrightarrow>
     srv_greeted s \<and> \<not> srv_running s
     \<and> stream_sent s = map (event_bytes w) (thread_events cid @ [capture_ended cid])
     \<and> (\<exists>th. stub_threads (srv_plugin s) = [th] \<and> th_todo th = [] \<and> th_ended th)"

lemma push_event_simps [simp]:
  "srv_plugin (push_event w ev s) = srv_plugin s"
  "srv_greeted (push_event w ev s) = srv_greeted s"
  "srv_running (push_event w ev s) \<longleftrightarrow> srv_running s \<and> \<not> ends_capture ev"
  by (simp_all add: push_event_def flag.running_push)

lemma push_event_quiet:
  assumes "sk_faults (ev_socket (srv_events s)) = []"
  shows "stream_sent (push_event w ev s) = stream_sent s @ [event_bytes w ev]"
    and "sk_faults (ev_socket (srv_events (push_event w ev s))) = []"
  using assms
  by (simp_all add: push_event_def events_send_def send_def sock_send_def set_running_def Let_def)

lemma set_thread_simps [simp]:
  "srv_greeted (set_thread i th s) = srv_greeted s"
  "srv_events (set_thread i th s) = srv_events s"
  "srv_plugin (set_thread i th s)
     = (srv_plugin s)\<lparr>stub_threads := (stub_threads (srv_plugin s))[i := th]\<rparr>"
  by (simp_all add: set_thread_def)

lemma thread_events_go_on: "ev \<in> set (thread_events cid) \<Longrightarrow> \<not> ends_capture ev"
  by (auto simp: thread_events_def split: outcome.splits)

lemma step_pushes:
  assumes "capturing w cid cont stopped k s" and "k < length (thread_events cid)"
  shows "capturing w cid cont stopped (Suc k) (thread_step w 0 s)"
proof -
  let ?ev = "thread_events cid ! k"
  have todo: "drop k (thread_events cid) = ?ev # drop (Suc k) (thread_events cid)"
    using assms(2) by (simp add: Cons_nth_drop_Suc)
  have "\<not> ends_capture ?ev" using assms(2) thread_events_go_on [of ?ev cid] by simp
  with assms todo show ?thesis
    by (simp add: capturing_def thread_step_def push_event_quiet take_Suc_conv_app_nth)
qed

lemma step_sleeps:
  "capturing w cid True False k s \<Longrightarrow> k = length (thread_events cid) \<Longrightarrow> thread_step w 0 s = s"
  by (simp add: capturing_def thread_step_def)

lemma step_ends:
  "capturing w cid cont stopped k s \<Longrightarrow> k = length (thread_events cid) \<Longrightarrow> \<not> cont \<or> stopped \<Longrightarrow>
   captured w cid (thread_step w 0 s)"
  by (auto simp: capturing_def captured_def thread_step_def push_event_quiet capture_ended_def)

lemma step_over: "captured w cid s \<Longrightarrow> thread_step w 0 s = s"
  by (auto simp: captured_def thread_step_def)

lemma run_over: "captured w cid s \<Longrightarrow> (thread_step w 0 ^^ n) s = s"
  by (induction n) (simp_all add: step_over)

lemma run_goes_on:
  "capturing w cid True False k s \<Longrightarrow> \<exists>k'. capturing w cid True False k' ((thread_step w 0 ^^ n) s)"
proof (induction n)
  case (Suc n)
  then obtain k' where k': "capturing w cid True False k' ((thread_step w 0 ^^ n) s)" by blast
  then have "k' \<le> length (thread_events cid)" by (simp add: capturing_def)
  then consider "k' < length (thread_events cid)" | "k' = length (thread_events cid)" by linarith
  then show ?case
    by cases (use step_pushes [OF k'] step_sleeps [OF k'] k' in auto)
qed auto

lemma run_ends:
  "\<lbrakk>capturing w cid cont stopped k s; \<not> cont \<or> stopped; length (thread_events cid) - k < n\<rbrakk> \<Longrightarrow>
   captured w cid ((thread_step w 0 ^^ n) s)"
proof (induction n arbitrary: k s)
  case (Suc n)
  from Suc.prems(1) have "k \<le> length (thread_events cid)" by (simp add: capturing_def)
  then consider "k < length (thread_events cid)" | "k = length (thread_events cid)" by linarith
  then show ?case
  proof cases
    case 1
    have "captured w cid ((thread_step w 0 ^^ n) (thread_step w 0 s))"
      by (rule Suc.IH [OF step_pushes [OF Suc.prems(1) 1] Suc.prems(2)]) (use Suc.prems(3) 1 in linarith)
    then show ?thesis by (simp add: funpow_swap1)
  next
    case 2
    from step_ends [OF Suc.prems(1) this Suc.prems(2)] run_over [of w cid "thread_step w 0 s" n]
    show ?thesis by (simp add: funpow_swap1)
  qed
qed simp

lemma let_run_simps [simp]: "hs_server (let_run w n h) = (thread_step w 0 ^^ n) (hs_server h)"
  by (simp add: let_run_def)

section \<open>The requests of the scenarios\<close>

lemmas stub_dispatch = dispatch_def call_def push_events_def stub_server_def set_srv_running_def

definition quiet :: "socket \<Rightarrow> bool" where
  "quiet stream \<longleftrightarrow> sk_faults stream = [] \<and> sk_sent stream = []"

lemma hello_ready:
  assumes "quiet stream" and "hs_server h = new_server new_stub stream"
  obtains h' r where "harness_hello w h = Some (h', r)" "ready (hs_server h')"
proof -
  let ?s = "(new_server new_stub stream)\<lparr>srv_greeted := True\<rparr>"
  obtain r where "dispatch w stub_server (new_server new_stub stream) (Some (ReqHello req)) = (?s, Inr (r req))"
    for req
    by (rule that) (simp add: stub_dispatch new_server_def)
  then have "\<exists>r. harness_hello w h = Some (\<lparr>hs_server = ?s, hs_seq = hs_seq h + 1\<rparr>, r)"
    unfolding harness_hello_def by (subst harness_ok_dispatch) (auto simp: assms(2))
  moreover have "ready ?s"
    using assms(1) by (simp add: ready_def quiet_def new_server_def new_events_def is_running_def)
  ultimately show thesis using that by auto
qed

lemma harness_start_server [simp]: "hs_server (harness_start stream) = new_server new_stub stream"
  by (simp add: harness_start_def)

lemma start_capturing:
  assumes "ready (hs_server h)"
  obtains h' where "harness_ok w h (ReqAcquireStart \<lparr>as_capture_id = cid, as_mode = mode\<rparr>)
      = Some (h', RespAcquireStart)"
    "capturing w cid (mode = acquire_mode_i32 AcquireContinuous) False 0 (hs_server h')"
proof -
  let ?req = "\<lparr>as_capture_id = cid, as_mode = mode\<rparr>"
  obtain s where s: "dispatch w stub_server (hs_server h) (Some (ReqAcquireStart ?req)) = (s, Inr RespAcquireStart)"
    "s = (set_srv_running (hs_server h) True)\<lparr>srv_plugin :=
       fst (on_acquire_start stub_server (srv_plugin (hs_server h)) ?req)\<rparr>"
    using assms by (simp add: stub_dispatch ready_def Let_def)
  have "capturing w cid (mode = acquire_mode_i32 AcquireContinuous) False 0 s"
    using assms
    by (simp add: s(2) capturing_def ready_def stub_server_def new_stub_def set_srv_running_def
        set_running_def is_running_def Let_def)
  with harness_ok_dispatch [OF s(1)] that show thesis by simp
qed

lemma configuration_is_busy:
  assumes "capturing w cid cont stopped k (hs_server h)" and "rq \<in> set configuration_requests"
  obtains h' where "harness_refused w h rq = Some (h', ErrorBusy)" "hs_server h' = hs_server h"
proof -
  have "dispatch w stub_server (hs_server h) (Some rq)
      = (hs_server h, Inl (proto_error_new ErrorBusy ''acquisition in progress''))"
    using assms
    by (auto simp: dispatch_def capturing_def configuration_requests_def busy_def proto_error_busy_def)
  from harness_refused_dispatch [OF this] that show thesis by simp
qed

lemma all_busy_capturing:
  "\<lbrakk>capturing w cid True False k (hs_server h); snd ` set nrs \<subseteq> set configuration_requests\<rbrakk> \<Longrightarrow>
   \<exists>h' k'. all_busy w h nrs = Some h' \<and> capturing w cid True False k' (hs_server h')"
proof (induction nrs arbitrary: h k)
  case (Cons nr nrs)
  obtain k1 where "capturing w cid True False k1 (hs_server (let_run w (fst nr) h))"
    using run_goes_on [OF Cons.prems(1), of "fst nr"] by auto
  note c = this
  from Cons.prems(2) have "snd nr \<in> set configuration_requests" by simp
  then obtain h1 where "harness_refused w (let_run w (fst nr) h) (snd nr) = Some (h1, ErrorBusy)"
    "hs_server h1 = hs_server (let_run w (fst nr) h)"
    by (rule configuration_is_busy [OF c])
  moreover from this c Cons.IH [of k1 h1] Cons.prems(2) obtain h' k' where
    "all_busy w h1 nrs = Some h'" "capturing w cid True False k' (hs_server h')" by auto
  ultimately show ?case by auto
qed auto

lemma stop_capturing:
  assumes "capturing w cid cont False k (hs_server h)"
  obtains h' where "harness_ok w h (ReqAcquireStop \<lparr>ap_capture_id = cid\<rparr>) = Some (h', RespAcquireStop)"
    "capturing w cid cont True k (hs_server h')"
proof -
  let ?s = "(hs_server h)\<lparr>srv_plugin := fst (on_acquire_stop stub_server (srv_plugin (hs_server h))
    \<lparr>ap_capture_id = cid\<rparr>)\<rparr>"
  have "dispatch w stub_server (hs_server h) (Some (ReqAcquireStop \<lparr>ap_capture_id = cid\<rparr>))
      = (?s, Inr RespAcquireStop)"
    using assms by (simp add: stub_dispatch capturing_def)
  moreover have "capturing w cid cont True k ?s"
    using assms by (simp add: capturing_def stub_server_def)
  ultimately show thesis using harness_ok_dispatch that by fastforce
qed

section \<open>What a capture delivers\<close>

lemma capture_parts:
  "chunks (unat (chunk_size UNITSIZE)) capture_samples = [replicate (2 ^ 20) 0xa5, replicate 5000 0xa5]"
proof -
  have "unat (chunk_size UNITSIZE) = 2 ^ 20" by (simp add: chunk_size_def MAX_PAYLOAD_def UNITSIZE_def)
  moreover have "chunks (2 ^ 20) (replicate (2 ^ 20 + 5000) (0xa5 :: u8))
      = [replicate (2 ^ 20) 0xa5, replicate 5000 0xa5]"
    by (simp add: chunks.simps [of _ "replicate _ _"])
  ultimately show ?thesis by (simp only: capture_samples_def SAMPLES_def)
qed

definition capture_sender :: "u64 \<Rightarrow> stream_sender" where
  "capture_sender cid = \<lparr>ss_capture_id = cid, ss_acquisition = 0, ss_stream = 0, ss_unitsize = UNITSIZE,
     ss_encoding = Transition, ss_seq = 0, ss_first_sample = 0\<rparr>"

lemma capture_sender_whole:
  "sender_ok (capture_sender cid)"
  "list_all (whole_samples (ss_unitsize (capture_sender cid)))
     (chunks (unat (chunk_size UNITSIZE)) capture_samples)"
  by (simp_all add: sender_ok_def capture_sender_def UNITSIZE_def capture_parts [unfolded UNITSIZE_def]
      whole_samples_def isize_max_def)

lemma capture_chunks_run:
  obtains ds where "capture_chunks cid = Ret ds" "length ds = 2"
    "stream_chunks (capture_sender cid) (chunks (unat (chunk_size UNITSIZE)) capture_samples) = Ret ds"
proof -
  have "list_all (\<lambda>part. length part \<le> 2 ^ 20) (chunks (unat (chunk_size UNITSIZE)) capture_samples)"
    by (simp add: capture_parts)
  from stream_chunks_drain [OF capture_sender_whole this] obtain ds where
    ds: "stream_chunks (capture_sender cid) (chunks (unat (chunk_size UNITSIZE)) capture_samples) = Ret ds"
    "length ds = length (chunks (unat (chunk_size UNITSIZE)) capture_samples)"
    by blast
  from ds(2) have "length ds = 2" by (simp add: capture_parts)
  moreover have "capture_chunks cid = Ret ds"
    using ds(1) by (simp add: capture_chunks_def new_sender_def transition_def capture_sender_def UNITSIZE_def)
  ultimately show thesis using that ds(1) by blast
qed

lemma length_thread_events: "length (thread_events cid) = 3"
  by (rule capture_chunks_run [of cid]) (simp add: thread_events_def)

definition decodes :: "wire \<Rightarrow> event \<Rightarrow> bool" where
  "decodes w ev \<longleftrightarrow> dec_event w (event_bytes w ev) = Inr \<lparr>ev_event = Some ev\<rparr>"

lemma bind_map_Some: "Option.bind (map_option f m) (\<lambda>r. Some (g r)) = map_option (\<lambda>x. g (f x)) m"
  by (cases m) simp_all

text \<open>The thread's chunks, drained before what comes after them.\<close>

lemma drain_chunks:
  "\<lbrakk>sender_ok ss; ss_encoding ss = Transition; ss_unitsize ss = UNITSIZE;
    list_all (whole_samples UNITSIZE) parts; stream_chunks ss parts = Ret ds;
    list_all (decodes w) (map Data ds)\<rbrakk> \<Longrightarrow>
   drain_capture w prof (ss_seq ss) (ss_first_sample ss) (map (event_bytes w) (map Data ds) @ msgs)
   = map_option (append (concat parts))
       (drain_capture w prof (ss_seq ss + of_nat (length parts))
          (ss_first_sample (fold (\<lambda>p ss. advance ss p) parts ss)) msgs)"
proof (induction parts arbitrary: ss ds)
  case Nil
  then show ?case by (simp add: option.map_id0 [unfolded id_def])
next
  case (Cons part parts)
  from Cons.prems(5) obtain payload ds' where p: "part_payload ss part = Ret payload"
    and ds': "stream_chunks (advance ss part) parts = Ret ds'"
    and ds: "ds = chunk_data ss part payload # ds'"
    by (auto simp: return_iff)
  have u: "UNITSIZE \<noteq> 0" by (simp add: UNITSIZE_def)
  from Cons.prems(4) have whole: "whole_samples UNITSIZE part" by simp
  obtain payload' where "encode_transition part UNITSIZE = Ret payload'"
    "decode_transition prof payload' UNITSIZE (of_nat (length part div unat UNITSIZE)) = Ret (Inr part)"
    by (rule transition_codec.encoded [OF u whole])
  with p Cons.prems(2,3) have dec: "decode_transition prof payload UNITSIZE (part_samples ss part) = Ret (Inr part)"
    by (simp add: part_payload_def part_samples_def)
  have IH: "drain_capture w prof (ss_seq ss + 1) (ss_first_sample (advance ss part))
      (map (event_bytes w) (map Data ds') @ msgs)
    = map_option (append (concat parts))
       (drain_capture w prof (ss_seq ss + 1 + of_nat (length parts))
          (ss_first_sample (fold (\<lambda>p ss. advance ss p) parts (advance ss part))) msgs)"
    using Cons.IH [OF _ _ _ _ ds'] Cons.prems(1-4,6) ds by simp
  have first: "ss_first_sample (advance ss part) = ss_first_sample ss + part_samples ss part"
    by (simp add: advance_def)
  from Cons.prems(6) ds have "dec_event w (event_bytes w (Data (chunk_data ss part payload)))
      = Inr \<lparr>ev_event = Some (Data (chunk_data ss part payload))\<rparr>"
    by (simp add: decodes_def)
  with IH dec show ?case
    by (simp add: ds chunk_data_def first add.assoc option.map_comp comp_def bind_map_Some)
qed

lemma drain_captured:
  assumes "captured w cid (hs_server h)" and "list_all (decodes w) (thread_events cid @ [capture_ended cid])"
  shows "drain_capture w prof 0 0 (harness_events h) = Some capture_samples"
proof -
  obtain ds where ds: "capture_chunks cid = Ret ds"
    "stream_chunks (capture_sender cid) (chunks (unat (chunk_size UNITSIZE)) capture_samples) = Ret ds"
    by (rule capture_chunks_run)
  obtain b where events: "thread_events cid = CaptureBegin b # map Data ds"
    using ds(1) by (simp add: thread_events_def)
  have fin: "drain_capture w prof seq first [event_bytes w (capture_ended cid)] = Some []" for seq first
    using assms(2) by (simp add: decodes_def capture_ended_def)
  have "drain_capture w prof 0 0 (map (event_bytes w) (map Data ds) @ [event_bytes w (capture_ended cid)])
      = Some (concat (chunks (unat (chunk_size UNITSIZE)) capture_samples))"
    using drain_chunks [OF capture_sender_whole(1) _ _ _ ds(2), of w prof
        "[event_bytes w (capture_ended cid)]"] capture_sender_whole(2) [of cid] assms(2) events
    by (simp add: capture_sender_def fin del: drain_capture.simps map_map)
  moreover have "concat (chunks (unat (chunk_size UNITSIZE)) capture_samples) = capture_samples"
    by (rule concat_chunks) (simp add: chunk_size_def MAX_PAYLOAD_def UNITSIZE_def)
  ultimately show ?thesis
    using assms events by (simp add: captured_def harness_events_def decodes_def)
qed

text \<open>
  The pushes of a thread are those of the \<open>send\<close> it calls: on a socket that refuses
  nothing, \<open>send\<close> pushes its chunks one by one.
\<close>

lemma send_parts_pushes:
  "\<lbrakk>stream_chunks ss parts = Ret ds; sk_faults (ev_socket es) = [];
    counters_fit prof ss (concat parts); list_all (\<lambda>p. p \<noteq> []) parts\<rbrakk> \<Longrightarrow>
   send_parts prof enc ss es parts
   = Ret (fold (\<lambda>p ss. advance ss p) parts ss,
       fold (\<lambda>d es. fst (events_send enc es (Data d))) ds es, Inr ())"
proof (induction parts arbitrary: ss es ds)
  case (Cons part parts)
  from Cons.prems(1) obtain payload ds' where p: "part_payload ss part = Ret payload"
    and ds': "stream_chunks (advance ss part) parts = Ret ds'"
    and ds: "ds = chunk_data ss part payload # ds'"
    by (auto simp: return_iff)
  obtain es1 where e: "events_send enc es (Data (chunk_data ss part payload)) = (es1, Inr ())"
    "sk_faults (ev_socket es1) = []"
    using Cons.prems(2) by (simp add: events_send_def send_def sock_send_def)
  from Cons.prems(3,4) have "counters_fit prof ss (part @ concat parts)" "part \<noteq> []" by simp_all
  note step = counters_fit_step [OF this]
  from Cons.IH [OF ds' e(2) step(3)] Cons.prems(4) p e ds step show ?case
    by (auto simp: advance_def)
qed simp

lemma thread_sends:
  assumes "sk_faults (ev_socket es) = []"
  obtains ds ss' where "thread_events cid = hd (thread_events cid) # map Data ds"
    "stream_send prof enc (capture_sender cid) es capture_samples
       = Ret (ss', fold (\<lambda>d es. fst (events_send enc es (Data d))) ds es, Inr ())"
proof -
  let ?parts = "chunks (unat (chunk_size UNITSIZE)) capture_samples"
  obtain ds where ds: "capture_chunks cid = Ret ds" "stream_chunks (capture_sender cid) ?parts = Ret ds"
    by (rule capture_chunks_run)
  have "counters_fit prof (capture_sender cid) (concat ?parts)" "list_all (\<lambda>p. p \<noteq> []) ?parts"
    by (simp_all add: capture_parts counters_fit_def capture_sender_def)
  from send_parts_pushes [OF ds(2) assms this, of enc]
  have "stream_send prof enc (capture_sender cid) es capture_samples
      = Ret (fold (\<lambda>p ss. advance ss p) ?parts (capture_sender cid),
          fold (\<lambda>d es. fst (events_send enc es (Data d))) ds es, Inr ())"
    by (simp add: stream_send_def capture_sender_def chunk_size_def MAX_PAYLOAD_def UNITSIZE_def)
  moreover from ds(1) have "thread_events cid = hd (thread_events cid) # map Data ds"
    by (simp add: thread_events_def)
  ultimately show thesis using that by blast
qed

section \<open>Why the scenarios pass\<close>

lemma passes_Some [simp]: "passes (Some ())"
  by (simp add: passes_def)

text \<open>Requests that are answered without a handler that changes the stub.\<close>

lemma plain_requests:
  assumes "srv_greeted (hs_server h)" and "\<not> srv_running (hs_server h)"
  shows "\<exists>r. harness_ok w h ReqDescribe = Some (h\<lparr>hs_seq := hs_seq h + 1\<rparr>, r)"
    and "\<exists>r. harness_ok w h (ReqSetConfig c) = Some (h\<lparr>hs_seq := hs_seq h + 1\<rparr>, r)"
    and "\<exists>r. harness_ok w h (ReqAcquireStop a) = Some (h\<lparr>hs_seq := hs_seq h + 1\<rparr>, r)"
    and "harness_ok w h ReqShutdown = Some (h\<lparr>hs_seq := hs_seq h + 1\<rparr>, RespShutdown)"
    and "harness_refused w h (ReqHello req) = Some (h\<lparr>hs_seq := hs_seq h + 1\<rparr>, ErrorInvalidRequest)"
  using assms
  by (simp_all add: harness_ok_def harness_refused_def harness_send_def answer_def make_response_def
      stub_dispatch proto_error_invalid_def proto_error_new_def Let_def del: error_code_i32.simps)

lemma ready_plain: "ready s \<Longrightarrow> srv_greeted s \<and> \<not> srv_running s"
  by (simp add: ready_def)

lemma captured_plain: "captured w cid s \<Longrightarrow> srv_greeted s \<and> \<not> srv_running s"
  by (simp add: captured_def)

lemma hello_first_ok:
  assumes "quiet stream"
  shows "nothing_is_answered_before_hello w stream"
proof -
  let ?h = "harness_start stream"
  have "harness_refused w ?h ReqDescribe = Some (?h\<lparr>hs_seq := 1\<rparr>, ErrorInvalidRequest)"
    by (simp add: harness_refused_def harness_send_def answer_def make_response_def dispatch_def
        harness_start_def new_server_def proto_error_invalid_def proto_error_new_def Let_def
        del: error_code_i32.simps)
  moreover obtain h r where h: "harness_hello w (?h\<lparr>hs_seq := 1\<rparr>) = Some (h, r)" "ready (hs_server h)"
    by (rule hello_ready [OF assms, of "?h\<lparr>hs_seq := 1\<rparr>"]) simp_all
  moreover note plain = ready_plain [OF h(2)]
  moreover obtain r' where "harness_ok w h ReqDescribe = Some (h\<lparr>hs_seq := hs_seq h + 1\<rparr>, r')"
    using plain_requests(1) [of h w] plain by blast
  ultimately show ?thesis
    by (simp add: nothing_is_answered_before_hello_def plain_requests(5))
qed

lemma blocks_configuration_ok:
  assumes "quiet stream" and "list_all (decodes w) (thread_events 7 @ [capture_ended 7])" and "3 < m"
  shows "a_running_capture_blocks_configuration w prof stream ns n m"
proof -
  obtain h0 r0 where h0: "harness_hello w (harness_start stream) = Some (h0, r0)" "ready (hs_server h0)"
    by (rule hello_ready [OF assms(1) harness_start_server])
  obtain h1 where h1: "harness_ok w h0 (ReqAcquireStart
      \<lparr>as_capture_id = 7, as_mode = acquire_mode_i32 AcquireContinuous\<rparr>) = Some (h1, RespAcquireStart)"
    "capturing w 7 True False 0 (hs_server h1)"
    using start_capturing [OF h0(2), of w 7 "acquire_mode_i32 AcquireContinuous"] by auto
  have "snd ` set (zip ns configuration_requests) \<subseteq> set configuration_requests"
    by (auto dest: set_zip_rightD)
  then obtain h2 k2 where h2: "all_busy w h1 (zip ns configuration_requests) = Some h2"
    "capturing w 7 True False k2 (hs_server h2)"
    using all_busy_capturing [OF h1(2)] by blast
  obtain k3 where "capturing w 7 True False k3 (hs_server (let_run w n h2))"
    using run_goes_on [OF h2(2), of n] by auto
  then obtain h4 where h4: "harness_ok w (let_run w n h2) (ReqAcquireStop \<lparr>ap_capture_id = 7\<rparr>)
      = Some (h4, RespAcquireStop)" "capturing w 7 True True k3 (hs_server h4)"
    by (rule stop_capturing)
  have fin: "captured w 7 (hs_server (let_run w m h4))"
    using run_ends [OF h4(2), of m] assms(3) by (simp add: length_thread_events)
  then obtain r5 where "harness_ok w (let_run w m h4) (ReqSetConfig \<lparr>sc_config = Some default_config\<rparr>)
      = Some (let_run w m h4\<lparr>hs_seq := hs_seq (let_run w m h4) + 1\<rparr>, r5)"
    using plain_requests(2) [of "let_run w m h4" w] captured_plain by blast
  with drain_captured [OF fin assms(2)] show ?thesis
    by (simp add: a_running_capture_blocks_configuration_def h0(1) h1(1) h2(1) h4(1)
        del: acquire_mode_i32.simps let_run_simps)
qed

lemma ends_on_its_own_ok:
  assumes "quiet stream" and "list_all (decodes w) (thread_events 1 @ [capture_ended 1])" and "3 < m"
  shows "a_capture_that_ends_on_its_own_returns_to_ready w prof stream m n"
proof -
  obtain h0 r0 where h0: "harness_hello w (harness_start stream) = Some (h0, r0)" "ready (hs_server h0)"
    by (rule hello_ready [OF assms(1) harness_start_server])
  obtain h1 where h1: "harness_ok w h0 (ReqAcquireStart
      \<lparr>as_capture_id = 1, as_mode = acquire_mode_i32 AcquireSingle\<rparr>) = Some (h1, RespAcquireStart)"
    "capturing w 1 False False 0 (hs_server h1)"
    using start_capturing [OF h0(2), of w 1 "acquire_mode_i32 AcquireSingle"] by auto
  let ?h2 = "let_run w m h1"
  have fin: "captured w 1 (hs_server ?h2)"
    using run_ends [OF h1(2), of m] assms(3) by (simp add: length_thread_events)
  note plain = captured_plain [OF fin]
  obtain r3 where h3: "harness_ok w ?h2 (ReqAcquireStop \<lparr>ap_capture_id = 1\<rparr>)
      = Some (?h2\<lparr>hs_seq := hs_seq ?h2 + 1\<rparr>, r3)"
    using plain_requests(3) [of ?h2 w] plain by blast
  let ?h4 = "let_run w n (?h2\<lparr>hs_seq := hs_seq ?h2 + 1\<rparr>)"
  have "hs_server ?h4 = hs_server ?h2" using run_over [OF fin, of n] by simp
  with plain obtain r4 where "harness_ok w ?h4 ReqDescribe = Some (?h4\<lparr>hs_seq := hs_seq ?h4 + 1\<rparr>, r4)"
    using plain_requests(1) [of ?h4 w] by metis
  with drain_captured [OF fin assms(2)] show ?thesis
    by (simp add: a_capture_that_ends_on_its_own_returns_to_ready_def h0(1) h1(1) h3
        del: acquire_mode_i32.simps let_run_simps)
qed

text \<open>No thread greets or starts a capture.\<close>

lemma thread_step_flags:
  "srv_greeted (thread_step w i s) = srv_greeted s"
  "srv_running (thread_step w i s) \<Longrightarrow> srv_running s"
  by (auto simp: thread_step_def Let_def split: list.splits if_splits)

lemma run_flags:
  "srv_greeted ((thread_step w i ^^ n) s) = srv_greeted s"
  "srv_running ((thread_step w i ^^ n) s) \<Longrightarrow> srv_running s"
  by (induction n) (auto simp: thread_step_flags(1) dest: thread_step_flags(2))

lemma reset_ok:
  assumes "quiet stream"
  shows "reset_returns_to_ready_from_a_running_capture w stream n m"
proof -
  obtain h0 r0 where h0: "harness_hello w (harness_start stream) = Some (h0, r0)" "ready (hs_server h0)"
    by (rule hello_ready [OF assms(1) harness_start_server])
  obtain h1 where h1: "harness_ok w h0 (ReqAcquireStart
      \<lparr>as_capture_id = 1, as_mode = acquire_mode_i32 AcquireContinuous\<rparr>) = Some (h1, RespAcquireStart)"
    "capturing w 1 True False 0 (hs_server h1)"
    using start_capturing [OF h0(2), of w 1 "acquire_mode_i32 AcquireContinuous"] by auto
  let ?h2 = "let_run w n h1" and ?start = "\<lparr>as_capture_id = 2, as_mode = acquire_mode_i32 AcquireSingle\<rparr>"
  have greeted: "srv_greeted (hs_server ?h2)"
    using h1(2) by (simp add: capturing_def run_flags(1))
  let ?s3 = "set_srv_running (hs_server ?h2) False"
  let ?h3 = "\<lparr>hs_server = ?s3, hs_seq = hs_seq ?h2 + 1\<rparr>"
  have "dispatch w stub_server (hs_server ?h2) (Some ReqReset) = (?s3, Inr RespReset)"
    using greeted by (simp add: stub_dispatch default_reset_def del: let_run_simps)
  from harness_ok_dispatch [OF this] have h3: "harness_ok w ?h2 ReqReset = Some (?h3, RespReset)" .
  let ?h4 = "let_run w m ?h3"
  have "srv_greeted (hs_server ?h4)" "\<not> srv_running (hs_server ?h4)"
    using greeted run_flags(2) [where w = w and n = m and s = ?s3] by (auto simp: run_flags(1))
  then have "\<exists>s. dispatch w stub_server (hs_server ?h4) (Some (ReqAcquireStart ?start)) = (s, Inr RespAcquireStart)"
    by (simp add: stub_dispatch Let_def del: let_run_simps)
  then obtain h5 where "harness_ok w ?h4 (ReqAcquireStart ?start) = Some (h5, RespAcquireStart)"
    using harness_ok_dispatch by blast
  with h0(1) h1(1) h3 show ?thesis
    by (simp add: reset_returns_to_ready_from_a_running_capture_def
        del: acquire_mode_i32.simps let_run_simps)
qed

lemma no_arm_ok:
  assumes "quiet stream"
  shows "a_request_with_no_arm_is_refused w stream"
proof -
  obtain h r where h: "harness_hello w (harness_start stream) = Some (h, r)" "ready (hs_server h)"
    by (rule hello_ready [OF assms(1) harness_start_server])
  let ?h = "h\<lparr>hs_seq := hs_seq h + 1\<rparr>"
  have none: "send_raw_empty w h = (?h, \<lparr>rs_seq = hs_seq h + 1,
      rs_error = Some (proto_error_new ErrorInvalidRequest ''request carries no payload''), rs_response = None\<rparr>)"
    by (simp add: send_raw_empty_def harness_send_def answer_def dispatch_def make_response_def proto_error_invalid_def Let_def)
  obtain r' where "harness_ok w ?h ReqDescribe = Some (?h\<lparr>hs_seq := hs_seq ?h + 1\<rparr>, r')"
    using plain_requests(1) [of ?h w] ready_plain [OF h(2)] by auto
  with h(1) none show ?thesis
    by (simp add: a_request_with_no_arm_is_refused_def proto_error_new_def del: error_code_i32.simps)
qed

lemma shutdown_ok:
  assumes "quiet stream"
  shows "shutdown_is_answered w stream"
proof -
  obtain h r where h: "harness_hello w (harness_start stream) = Some (h, r)" "ready (hs_server h)"
    by (rule hello_ready [OF assms(1) harness_start_server])
  with plain_requests(4) [of h w] ready_plain [OF h(2)] show ?thesis
    by (simp add: shutdown_is_answered_def)
qed

section \<open>Properties\<close>

text \<open>
  C21. The integration test passes under every interleaving.  With a stream socket that
  refuses nothing and a codec that reads back the events of the captures, and whatever
  number of steps the acquisition thread makes before each request, as long as it is
  given the four it needs to finish where the test waits for the end of the capture:
  nothing but \<open>Hello\<close> is answered first, a running capture answers every configuration
  request as busy, the frontend drains exactly the samples of the stub, in debug and in
  release builds, the plugin is ready afterwards, a capture that has ended can still be
  stopped, a reset returns to ready, a request without an arm is refused, and \<open>Shutdown\<close>
  is answered.
\<close>

theorem integration_test_passes:
  assumes "quiet stream" and "3 < m"
    and "list_all (decodes w) (thread_events 7 @ [capture_ended 7])"
    and "list_all (decodes w) (thread_events 1 @ [capture_ended 1])"
  shows "nothing_is_answered_before_hello w stream
    \<and> a_running_capture_blocks_configuration w prof stream ns n m
    \<and> a_capture_that_ends_on_its_own_returns_to_ready w prof stream m n
    \<and> reset_returns_to_ready_from_a_running_capture w stream n k
    \<and> a_request_with_no_arm_is_refused w stream
    \<and> shutdown_is_answered w stream"
  by (intro conjI hello_first_ok blocks_configuration_ok ends_on_its_own_ok reset_ok no_arm_ok
      shutdown_ok assms)

text \<open>A wire that carries the events of the captures: the capture id, the kind and the number of a chunk.\<close>

definition capture_wire :: wire where
  "capture_wire = tiny_wire\<lparr>
     enc_event := (\<lambda>m. case ev_event m of
         Some (CaptureBegin b) \<Rightarrow> [ucast (cb_capture_id b), 0]
       | Some (Data d) \<Rightarrow> [ucast (cd_capture_id d), 1 + ucast (cd_seq d)]
       | Some (CaptureEnd e) \<Rightarrow> [ucast (ce_capture_id e)]
       | _ \<Rightarrow> []),
     dec_event := (\<lambda>bs. case bs of
         [c] \<Rightarrow> Inr \<lparr>ev_event = Some (capture_ended (ucast c))\<rparr>
       | [c, n] \<Rightarrow> Inr \<lparr>ev_event = Some (thread_events (ucast c) ! unat n)\<rparr>
       | _ \<Rightarrow> Inl (DecodeError ''bad length''))\<rparr>"

lemma capture_wire_decodes:
  assumes "ucast (ucast cid :: u8) = cid"
  shows "list_all (decodes capture_wire) (thread_events cid @ [capture_ended cid])"
proof -
  obtain ds where ds: "capture_chunks cid = Ret ds"
    "stream_chunks (capture_sender cid) (chunks (unat (chunk_size UNITSIZE)) capture_samples) = Ret ds"
    by (rule capture_chunks_run)
  from ds(2) obtain p0 p1 where "ds = [chunk_data (capture_sender cid) (replicate (2 ^ 20) 0xa5) p0,
      chunk_data (advance (capture_sender cid) (replicate (2 ^ 20) 0xa5)) (replicate 5000 0xa5) p1]"
    unfolding capture_parts by (auto simp: return_iff)
  with ds(1) have "thread_events cid = [CaptureBegin \<lparr>cb_capture_id = cid,
      cb_samplerate = 0x412E848000000000, cb_streams = []\<rparr>,
      Data (chunk_data (capture_sender cid) (replicate (2 ^ 20) 0xa5) p0),
      Data (chunk_data (advance (capture_sender cid) (replicate (2 ^ 20) 0xa5)) (replicate 5000 0xa5) p1)]"
    by (simp add: thread_events_def)
  with assms show ?thesis
    by (simp add: decodes_def capture_wire_def capture_ended_def chunk_data_def capture_sender_def)
qed

theorem integration_test_passes_witness:
  "a_running_capture_blocks_configuration capture_wire Debug quiet_socket [0, 1, 2, 5] 0 4
   \<and> a_capture_that_ends_on_its_own_returns_to_ready capture_wire Debug quiet_socket 4 0"
proof -
  have "quiet quiet_socket" "3 < (4 :: nat)" by (simp_all add: quiet_def quiet_socket_def)
  moreover have "list_all (decodes capture_wire) (thread_events 7 @ [capture_ended 7])"
    by (rule capture_wire_decodes) simp
  moreover have "list_all (decodes capture_wire) (thread_events 1 @ [capture_ended 1])"
    by (rule capture_wire_decodes) simp
  ultimately show ?thesis
    using integration_test_passes [of quiet_socket 4 capture_wire Debug "[0, 1, 2, 5]" 0] by blast
qed

end
