(* ===== verification/OCP_Build.thy ===== *)
theory OCP_Build
  imports OCP_Prelude OCP_Error
begin

text \<open>
  \<open>rust/openmso/build.rs\<close>, which runs the two code generators before the crate is
  compiled.  What it does to its surroundings is a list of effects in the order the code
  has them; the generators and the operating system are parameters.
\<close>

text \<open>
  The errors the \<open>?\<close> operators box: of the operating system and \<open>compile_protos\<close>, of
  the environment, and of decoding the descriptors.
\<close>

datatype build_error = BuildIo io_error | BuildVar string | BuildDescriptors string

record build_env =
  be_manifest_dir :: string
  be_canonicalize :: "string \<Rightarrow> io_error + string"
  be_var :: "string \<Rightarrow> string option"
  be_protoc :: "string list \<Rightarrow> string list \<Rightarrow> io_error option"
  be_read :: "string \<Rightarrow> io_error + bytes"
  be_register :: "bytes \<Rightarrow> string option"
  be_serde :: "bytes \<Rightarrow> string list \<Rightarrow> io_error option"

text \<open>
  A line on the standard output; the message types, generated with the descriptors they
  are written to and the fields that alias the buffer they are read from; and the JSON code.
\<close>

datatype build_effect =
    Print string
  | Compiled (com_descriptors: string) (com_bytes: "string list") (com_files: "string list")
      (com_includes: "string list")
  | Serde (ser_descriptors: bytes) (ser_prefixes: "string list")

definition proto_names :: "string list" where
  "proto_names = [''capture.proto'', ''common.proto'', ''device.proto'', ''manifest.proto'', ''stream.proto'']"

definition rerun_line :: "string \<Rightarrow> string" where
  "rerun_line f = ''cargo:rerun-if-changed='' @ f"

definition build_main :: "build_env \<Rightarrow> build_effect list \<times> (build_error + unit)" where
  "build_main be =
     (case be_canonicalize be (path_join (be_manifest_dir be) ''../../proto/omso/capture/v1'') of
        Inl e \<Rightarrow> ([], Inl (BuildIo e))
      | Inr proto_dir \<Rightarrow>
     (let files = map (path_join proto_dir) proto_names; out = map (Print \<circ> rerun_line) files in
      case be_var be ''OUT_DIR'' of
        None \<Rightarrow> (out, Inl (BuildVar ''OUT_DIR''))
      | Some out_dir \<Rightarrow>
     (let descriptors = path_join out_dir ''descriptors.bin'' in
      case be_protoc be files [proto_dir] of
        Some e \<Rightarrow> (out, Inl (BuildIo e))
      | None \<Rightarrow>
     (let out = out @ [Compiled descriptors [''.omso.capture.v1.CaptureData.payload''] files [proto_dir]] in
      case be_read be descriptors of
        Inl e \<Rightarrow> (out, Inl (BuildIo e))
      | Inr bytes \<Rightarrow>
     (case be_register be bytes of
        Some e \<Rightarrow> (out, Inl (BuildDescriptors e))
      | None \<Rightarrow>
     (case be_serde be bytes [''.omso.capture.v1''] of
        Some e \<Rightarrow> (out, Inl (BuildIo e))
      | None \<Rightarrow> (out @ [Serde bytes [''.omso.capture.v1'']], Inr ())))))))"

text \<open>
  Cargo is told to run the script again for exactly the files that are compiled, and a
  build that succeeds has made the JSON code from the descriptors of this very run.
\<close>

lemma build_main_success:
  assumes "build_main be = (effects, Inr ())"
  obtains proto_dir out_dir bytes where
    "effects = map (Print \<circ> rerun_line) (map (path_join proto_dir) proto_names)
       @ [Compiled (path_join out_dir ''descriptors.bin'') [''.omso.capture.v1.CaptureData.payload'']
            (map (path_join proto_dir) proto_names) [proto_dir], Serde bytes [''.omso.capture.v1'']]"
    "be_read be (path_join out_dir ''descriptors.bin'') = Inr bytes"
    "be_var be ''OUT_DIR'' = Some out_dir"
  using assms unfolding build_main_def
  by (auto simp: Let_def split: sum.splits option.splits)

text \<open>A build that fails has not made the JSON code, and has compiled nothing if the failure came before.\<close>

lemma build_main_failure:
  assumes "build_main be = (effects, Inl e)"
  shows "\<forall>x \<in> set effects. \<nexists>bs ps. x = Serde bs ps"
    and "be_protoc be = (\<lambda>_ _. Some err) \<Longrightarrow> \<forall>x \<in> set effects. \<exists>l. x = Print l"
  using assms unfolding build_main_def
  by (auto simp: Let_def split: sum.splits option.splits)

end
