(* ===== verification/OCP_CppError.thy ===== *)
theory OCP_CppError
  imports OCP_Prelude OCP_Proto OCP_Error
begin

text \<open>
  \<open>cpp/src/error.cpp\<close>: the exceptions of the C++ binding, their texts, and the
  constructors of the wire error; and when an exception of the binding is the same
  error as one of the Rust crate.
\<close>

section \<open>Exceptions\<close>

datatype error_kind = KindNng | KindDecode | KindIo | KindJson | KindProtocol | KindRemote

text \<open>\<open>class Error\<close>: \<open>kind_\<close>, the text of \<open>std::runtime_error\<close>, and \<open>error_\<close>.\<close>

record cpp_error =
  ce_kind :: error_kind
  ce_what :: string
  ce_pb :: proto_error

text \<open>
  What a call can throw besides: \<open>std::length_error\<close>, from a \<open>std::string\<close> that
  would outgrow \<open>max_size()\<close>.
\<close>

datatype exn = Thrown cpp_error | LengthError

type_synonym 'a throws = "exn + 'a"

text \<open>
  The texts of foreign libraries: \<open>nng_strerror\<close>, \<open>std::strerror\<close>, and protobuf's
  names of enumerators, which are looked up by number.
\<close>

record texts =
  nng_strerror :: "nng_error \<Rightarrow> string"
  os_strerror :: "io_error \<Rightarrow> string"
  ErrorCode_Name :: "i32 \<Rightarrow> string"
  Codec_Name :: "i32 \<Rightarrow> string"

text \<open>A default-constructed \<open>pb::Error\<close>.\<close>

definition pb_Error :: proto_error where
  "pb_Error = \<lparr>err_code = 0, err_message = ''''\<rparr>"

definition Error_nng :: "texts \<Rightarrow> nng_error \<Rightarrow> string \<Rightarrow> cpp_error" where
  "Error_nng tx rv ctx =
     \<lparr>ce_kind = KindNng, ce_what = ''nng: '' @ ctx @ '': '' @ nng_strerror tx rv, ce_pb = pb_Error\<rparr>"

definition Error_decode :: "string \<Rightarrow> cpp_error" where
  "Error_decode w =
     \<lparr>ce_kind = KindDecode, ce_what = ''malformed message: '' @ w, ce_pb = pb_Error\<rparr>"

definition Error_io :: "texts \<Rightarrow> io_error \<Rightarrow> string \<Rightarrow> cpp_error" where
  "Error_io tx errno ctx =
     \<lparr>ce_kind = KindIo, ce_what = ctx @ '': '' @ os_strerror tx errno, ce_pb = pb_Error\<rparr>"

definition Error_json :: "string \<Rightarrow> cpp_error" where
  "Error_json w = \<lparr>ce_kind = KindJson, ce_what = ''bad manifest JSON: '' @ w, ce_pb = pb_Error\<rparr>"

definition Error_protocol :: "string \<Rightarrow> cpp_error" where
  "Error_protocol w =
     \<lparr>ce_kind = KindProtocol, ce_what = ''protocol error: '' @ w, ce_pb = pb_Error\<rparr>"

definition Error_remote :: "texts \<Rightarrow> proto_error \<Rightarrow> cpp_error" where
  "Error_remote tx e =
     \<lparr>ce_kind = KindRemote, ce_what = ErrorCode_Name tx (err_code e) @ '': '' @ err_message e,
      ce_pb = e\<rparr>"

abbreviation throw_protocol :: "string \<Rightarrow> 'a throws" where
  "throw_protocol w \<equiv> Inl (Thrown (Error_protocol w))"

section \<open>Wire errors\<close>

definition makeError :: "error_code \<Rightarrow> string \<Rightarrow> proto_error" where
  "makeError code message = pb_Error\<lparr>err_code := error_code_i32 code, err_message := message\<rparr>"

definition invalidRequest :: "string \<Rightarrow> proto_error" where
  "invalidRequest message = makeError ErrorInvalidRequest message"

definition unsupported_cpp :: "string \<Rightarrow> proto_error" where
  "unsupported_cpp message = makeError ErrorUnsupported message"

definition busy_cpp :: "string \<Rightarrow> proto_error" where
  "busy_cpp message = makeError ErrorBusy message"

definition deviceError :: "string \<Rightarrow> proto_error" where
  "deviceError message = makeError ErrorDevice message"

lemma wire_errors_agree:
  "makeError = proto_error_new" "invalidRequest = proto_error_invalid"
  "unsupported_cpp = proto_error_unsupported" "busy_cpp = proto_error_busy"
  "deviceError = proto_error_device"
  by (auto simp: fun_eq_iff makeError_def pb_Error_def proto_error_new_def invalidRequest_def
      unsupported_cpp_def busy_cpp_def deviceError_def proto_error_invalid_def
      proto_error_unsupported_def proto_error_busy_def proto_error_device_def)

section \<open>The same error in both languages\<close>

text \<open>
  The enumerators the \<open>.proto\<close> files name are named alike in C++.  The name of a
  number outside the enum is left to protobuf.
\<close>

definition names_enums :: "texts \<Rightarrow> bool" where
  "names_enums tx \<longleftrightarrow> (\<forall>c. ErrorCode_Name tx (error_code_i32 c) = error_code_name c)
     \<and> (\<forall>c. Codec_Name tx (codec_i32 c) = codec_name c)"

text \<open>
  Errors of the protocol carry the same text; a refusal of the far end is handed over
  as it came; the errors of nng, of the operating system and of the decoders agree in
  what failed and differ in the text, which C++ extends by a context.
\<close>

fun same_error :: "texts \<Rightarrow> error \<Rightarrow> exn \<Rightarrow> bool" where
  "same_error tx (Protocol m) x \<longleftrightarrow> (\<forall>dbg. x = Thrown (Error_protocol (protocol_text dbg m)))"
| "same_error tx (Remote e) x \<longleftrightarrow> x = Thrown (Error_remote tx e)"
| "same_error tx (Nng e) x \<longleftrightarrow> (\<exists>ctx. x = Thrown (Error_nng tx e ctx))"
| "same_error tx (Decode e) x \<longleftrightarrow> (\<exists>w. x = Thrown (Error_decode w))"
| "same_error tx (Io e) x \<longleftrightarrow> (\<exists>ctx. x = Thrown (Error_io tx e ctx))"
| "same_error tx (Json e) x \<longleftrightarrow> (\<exists>w. x = Thrown (Error_json w))"

definition same_result :: "texts \<Rightarrow> ('a \<Rightarrow> 'b \<Rightarrow> bool) \<Rightarrow> 'a result \<Rightarrow> 'b throws \<Rightarrow> bool" where
  "same_result tx R r x = rel_sum (same_error tx) R r x"

lemma same_result_simps [simp]:
  "same_result tx R (Inl e) (Inl x) = same_error tx e x"
  "same_result tx R (Inr a) (Inr b) = R a b"
  "\<not> same_result tx R (Inl e) (Inr b)"
  "\<not> same_result tx R (Inr a) (Inl x)"
  by (simp_all add: same_result_def)

lemma same_result_iff:
  "same_result tx R r (Inl x) \<longleftrightarrow> (\<exists>e. r = Inl e \<and> same_error tx e x)"
  "same_result tx R r (Inr b) \<longleftrightarrow> (\<exists>a. r = Inr a \<and> R a b)"
  by (cases r; simp)+

lemma same_result_cases [consumes 1]:
  assumes "same_result tx R r x"
  obtains (error) e y where "r = Inl e" "x = Inl y" "same_error tx e y"
  | (ok) a b where "r = Inr a" "x = Inr b" "R a b"
  using assms by (cases r; cases x) auto

text \<open>
  What the user reads is the same for protocol errors and for refusals with a known
  code; for an unknown code, Rust prints \<open>ERROR_CODE_UNSPECIFIED\<close> and C++ what
  protobuf calls a number without a name.
\<close>

lemma same_error_text:
  assumes "names_enums tx" and "same_error tx e x"
    and "case e of Protocol m \<Rightarrow> True | Remote p \<Rightarrow> error_code_try_from (err_code p) \<noteq> None | _ \<Rightarrow> False"
  shows "\<exists>err. x = Thrown err
    \<and> ce_what err = display_error dbg show_nng show_decode show_io show_json e"
proof (cases e)
  case (Remote p)
  with assms(3) obtain c where "error_code_try_from (err_code p) = Some c" by auto
  moreover from this have "err_code p = error_code_i32 c"
    by (auto simp: error_code_try_from_def split: if_splits)
  ultimately show ?thesis
    using assms(1,2) Remote by (simp add: display_error_def Error_remote_def names_enums_def)
qed (use assms in \<open>auto simp: display_error_def Error_protocol_def\<close>)

section \<open>Directories as C++ writes them\<close>

text \<open>
  The binding puts a slash between a directory and a name, whatever the directory; the
  Rust crate joins paths.  The two agree for a directory that is not empty and does not
  end in a slash.
\<close>

definition plain_dir :: "string \<Rightarrow> bool" where
  "plain_dir dir \<longleftrightarrow> dir \<noteq> [] \<and> last dir \<noteq> CHR ''/''"

lemma path_join_plain:
  "plain_dir dir \<Longrightarrow> \<not> is_absolute p \<Longrightarrow> path_join dir p = dir @ ''/'' @ p"
  by (simp add: path_join_def plain_dir_def)

text \<open>Texts that a library might give.\<close>

definition example_texts :: texts where
  "example_texts = \<lparr>nng_strerror = (\<lambda>_. ''error''), os_strerror = io_text,
     ErrorCode_Name = (\<lambda>n. case error_code_try_from n of Some c \<Rightarrow> error_code_name c | None \<Rightarrow> []),
     Codec_Name = (\<lambda>n. case codec_try_from n of Some c \<Rightarrow> codec_name c | None \<Rightarrow> [])\<rparr>"

lemma example_texts_names: "names_enums example_texts"
  by (simp add: names_enums_def example_texts_def)

end
