(* ===== verification/OCP_CppEncoding.thy ===== *)
theory OCP_CppEncoding
  imports OCP_Encoding OCP_CppError
begin

text \<open>
  \<open>cpp/src/encoding.cpp\<close>: the C++ binding's own negotiation, varints, transition
  codec and chunk decoding, written with positions in a string where the Rust crate
  takes slices apart; and the proof that both decode the same chunks to the same
  samples.
\<close>

section \<open>Strings as buffers\<close>

text \<open>
  A \<open>std::string\<close> is its bytes.  Positions are natural numbers: none of the sums and
  products below exceeds the size of a string, but for the one written with words.
  \<open>substr s pos n\<close> is the part of a string that the overloads of \<open>append\<close> and
  \<open>compare\<close> with a position and a count mean.
\<close>

definition substr :: "bytes \<Rightarrow> nat \<Rightarrow> nat \<Rightarrow> bytes" where
  "substr s pos n = take n (drop pos s)"

text \<open>
  \<open>reserve\<close> and \<open>append\<close> beyond \<open>max_size()\<close>, a constant \<open>ms\<close> of the standard
  library, throw \<open>std::length_error\<close>.
\<close>

definition str_reserve :: "nat \<Rightarrow> usize \<Rightarrow> unit throws" where
  "str_reserve ms n = (if ms < unat n then Inl LengthError else Inr ())"

definition str_append :: "nat \<Rightarrow> bytes \<Rightarrow> bytes \<Rightarrow> bytes throws" where
  "str_append ms out xs = (if ms < length out + length xs then Inl LengthError else Inr (out @ xs))"

section \<open>Varints\<close>

function putVarint :: "bytes \<Rightarrow> u64 \<Rightarrow> bytes" where
  "putVarint out value =
     (if 0x80 \<le> value then putVarint (out @ [ucast (value OR 0x80)]) (drop_bit 7 value)
      else out @ [ucast value])"
  by pat_completeness auto
termination
  by (relation "measure (\<lambda>(out, value). unat value)") (auto simp: unat_drop7 word_le_nat_alt)

declare putVarint.simps [simp del]

text \<open>The result is the new position and what goes into \<open>out\<close>.\<close>

function getVarint_loop :: "bytes \<Rightarrow> nat \<Rightarrow> nat \<Rightarrow> u64 \<Rightarrow> (nat \<times> u64) throws" where
  "getVarint_loop buf pos i value =
     (if i < 10 \<and> pos + i < length buf
      then let byte = buf ! (pos + i);
               value = value OR push_bit (i * 7) (ucast (byte AND 0x7f))
           in if byte AND 0x80 = 0
              then if value = 0 then throw_protocol ''transition run length of 0''
                   else Inr (pos + i + 1, value)
              else getVarint_loop buf pos (i + 1) value
      else throw_protocol ''truncated or oversized varint'')"
  by pat_completeness auto
termination
  by (relation "measure (\<lambda>(buf, pos, i, value). 10 - i)") auto

declare getVarint_loop.simps [simp del]

definition getVarint :: "bytes \<Rightarrow> nat \<Rightarrow> (nat \<times> u64) throws" where
  "getVarint buf pos = getVarint_loop buf pos 0 0"

section \<open>Negotiation\<close>

definition intersect_cpp :: "i32 list \<Rightarrow> i32 list \<Rightarrow> i32 \<Rightarrow> i32 list" where
  "intersect_cpp accept supported mandatory =
     (if accept = [] then [mandatory]
      else let out = foldl (\<lambda>out s. if s \<in> set accept then out @ [s] else out) [] supported
           in if mandatory \<in> set out then out else out @ [mandatory])"

definition supportedEncodings :: "sample_encoding list" where
  "supportedEncodings = [Transition, Packed]"

definition supportedCodecs :: "codec list" where
  "supportedCodecs = [CodecNone]"

definition negotiateEncodings :: "i32 list \<Rightarrow> sample_encoding list \<Rightarrow> i32 list" where
  "negotiateEncodings accept supported =
     intersect_cpp accept (map sample_encoding_i32 supported) (sample_encoding_i32 Packed)"

definition negotiateCodecs :: "i32 list \<Rightarrow> codec list \<Rightarrow> i32 list" where
  "negotiateCodecs accept supported =
     intersect_cpp accept (map codec_i32 supported) (codec_i32 CodecNone)"

definition accepts_cpp :: "i32 list \<Rightarrow> sample_encoding \<Rightarrow> bool" where
  "accepts_cpp negotiated e = (sample_encoding_i32 e \<in> set negotiated)"

section \<open>The transition codec\<close>

text \<open>
  The \<open>for\<close> loop over sample numbers; a run is the number of its first sample and its
  length so far.
\<close>

function encode_from :: "bytes \<Rightarrow> nat \<Rightarrow> nat \<Rightarrow> nat \<Rightarrow> nat \<Rightarrow> u64 \<Rightarrow> bytes \<Rightarrow> bytes" where
  "encode_from packed unitsize samples i runStart run out =
     (if i < samples
      then if substr packed (i * unitsize) unitsize = substr packed (runStart * unitsize) unitsize
           then encode_from packed unitsize samples (i + 1) runStart (run + 1) out
           else encode_from packed unitsize samples (i + 1) i 1
                  (putVarint out run @ substr packed (runStart * unitsize) unitsize)
      else putVarint out run @ substr packed (runStart * unitsize) unitsize)"
  by pat_completeness auto
termination
  by (relation "measure (\<lambda>(packed, unitsize, samples, i, runStart, run, out). samples - i)") auto

declare encode_from.simps [simp del]

definition encodeTransition :: "bytes \<Rightarrow> usize \<Rightarrow> bytes throws" where
  "encodeTransition packed unitsize =
     (if unitsize = 0 then throw_protocol ''unitsize must be positive''
      else let samples = length packed div unat unitsize
           in if samples = 0 then Inr []
              else Inr (encode_from packed (unat unitsize) samples 1 0 1 []))"

text \<open>\<open>for (i = 0; i < run; ++i) out.append(payload, pos, unitsize)\<close>\<close>

primrec append_run :: "nat \<Rightarrow> nat \<Rightarrow> bytes \<Rightarrow> bytes \<Rightarrow> bytes throws" where
  "append_run ms 0 val out = Inr out"
| "append_run ms (Suc n) val out = rbind (str_append ms out val) (append_run ms n val)"

lemma getVarint_loop_advances: "getVarint_loop buf pos i acc = Inr (pos', v) \<Longrightarrow> pos < pos'"
proof (induction buf pos i acc rule: getVarint_loop.induct)
  case (1 buf pos i acc)
  then show ?case
    by (simp add: getVarint_loop.simps [of buf pos i acc] Let_def split: if_splits)
qed

function decode_from :: "nat \<Rightarrow> bytes \<Rightarrow> nat \<Rightarrow> bytes \<Rightarrow> nat \<Rightarrow> bytes throws" where
  "decode_from ms payload unitsize out pos =
     (if pos < length payload
      then case getVarint payload pos of
             Inl x \<Rightarrow> Inl x
           | Inr (pos, run) \<Rightarrow>
               if length payload - pos < unitsize
               then throw_protocol ''transition run is missing its value''
               else rbind (append_run ms (unat run) (substr payload pos unitsize) out)
                      (\<lambda>out. decode_from ms payload unitsize out (pos + unitsize))
      else Inr out)"
  by pat_completeness auto
termination
  by (relation "measure (\<lambda>(ms, payload, unitsize, out, pos). length payload - pos)")
    (auto simp: getVarint_def dest!: getVarint_loop_advances)

declare decode_from.simps [simp del]

definition decodeTransition :: "nat \<Rightarrow> bytes \<Rightarrow> usize \<Rightarrow> usize \<Rightarrow> bytes throws" where
  "decodeTransition ms payload unitsize samples =
     (if unitsize = 0 then throw_protocol ''logic stream declared unitsize 0''
      else rbind (str_reserve ms (samples * unitsize)) (\<lambda>_.
           rbind (decode_from ms payload (unat unitsize) [] 0) (\<lambda>out.
             if of_nat (length out) \<noteq> samples * unitsize
             then throw_protocol (''transition payload expands to ''
                    @ show_dec (length out div unat unitsize) @ '' samples, not the ''
                    @ show_dec (unat samples) @ '' declared'')
             else Inr out)))"

text \<open>
  \<open>decodePayload\<close> returns the caller's \<open>scratch\<close> as it leaves it, and a view into the
  message (\<open>Borrowed\<close>) or into \<open>scratch\<close> (\<open>Owned\<close>).  An enum off the wire is the
  number it came as, so that a number outside the enum takes the \<open>default\<close> label.
\<close>

definition decodePayload ::
  "texts \<Rightarrow> nat \<Rightarrow> capture_data \<Rightarrow> usize \<Rightarrow> bytes \<Rightarrow> bytes \<times> cow throws" where
  "decodePayload tx ms data unitsize scratch =
     (if cd_codec data \<noteq> codec_i32 CodecNone \<and> cd_codec data \<noteq> codec_i32 CodecUnspecified
      then (scratch, throw_protocol (Codec_Name tx (cd_codec data) @ '' is not decodable here''))
      else if cd_encoding data = sample_encoding_i32 Transition
      then case decodeTransition ms (cd_payload data) unitsize (cd_sample_count data) of
             Inl x \<Rightarrow> (scratch, Inl x)
           | Inr out \<Rightarrow> (out, Inr (Owned out))
      else (scratch, Inr (Borrowed (cd_payload data))))"

section \<open>The parts agree with the Rust crate\<close>

lemma putVarint_eq: "putVarint out v = put_varint out v"
proof (induction out v rule: putVarint.induct)
  case (1 out v)
  have "(ucast (v OR 0x80) :: u8) = ucast v OR 0x80"
    by (rule bit_eqI) (simp add: bit_simps bit_0x80)
  with 1 show ?case by (simp add: putVarint.simps [of out v] put_varint.simps [of out v])
qed

lemma getVarint_loop_eq:
  "i \<le> 10 \<Longrightarrow> same_result tx (\<lambda>(v, tail) (pos', v'). v' = v \<and> tail = drop pos' buf \<and> pos' \<le> length buf)
     (get_varint_loop (drop pos buf) i (drop i (take 10 (drop pos buf))) acc)
     (getVarint_loop buf pos i acc)"
proof (induction buf pos i acc rule: getVarint_loop.induct)
  case (1 buf pos i acc)
  show ?case
  proof (cases "i < 10 \<and> pos + i < length buf")
    case True
    then have "drop i (take 10 (drop pos buf)) = buf ! (pos + i) # drop (Suc i) (take 10 (drop pos buf))"
      by (subst Cons_nth_drop_Suc [symmetric]) (auto simp: min_def)
    with True 1 show ?thesis
      by (auto simp: getVarint_loop.simps [of buf pos i acc] Let_def add.commute add.left_commute)
  next
    case False
    then have "drop i (take 10 (drop pos buf)) = []" using "1.prems" by auto
    moreover from False have "getVarint_loop buf pos i acc
        = throw_protocol ''truncated or oversized varint''"
      by (auto simp: getVarint_loop.simps [of buf pos i acc])
    ultimately show ?thesis by simp
  qed
qed

lemma getVarint_eq:
  "same_result tx (\<lambda>(v, tail) (pos', v'). v' = v \<and> tail = drop pos' buf \<and> pos' \<le> length buf)
     (get_varint (drop pos buf)) (getVarint buf pos)"
  using getVarint_loop_eq [of 0 tx buf pos 0] by (simp add: get_varint_def getVarint_def)

lemma intersect_cpp_eq: "intersect_cpp = intersect"
proof -
  have "foldl (\<lambda>out s. if s \<in> set accept then out @ [s] else out) acc supported
      = acc @ filter (\<lambda>s. s \<in> set accept) supported" for acc accept supported :: "i32 list"
    by (induction supported arbitrary: acc) auto
  then show ?thesis by (auto simp: fun_eq_iff intersect_cpp_def intersect_def Let_def)
qed

lemma negotiation_eq:
  "negotiateEncodings = negotiate_encodings" "negotiateCodecs = negotiate_codecs"
  "accepts_cpp = accepts" "supportedEncodings = ENCODINGS" "supportedCodecs = CODECS"
  by (simp_all add: fun_eq_iff negotiateEncodings_def negotiate_encodings_def negotiateCodecs_def
      negotiate_codecs_def accepts_cpp_def accepts_def supportedEncodings_def ENCODINGS_def
      supportedCodecs_def CODECS_def intersect_cpp_eq)


lemma nth_chunks_exact:
  "n \<noteq> 0 \<Longrightarrow> i < length xs div n \<Longrightarrow> chunks_exact n xs ! i = take n (drop (i * n) xs)"
proof (induction n xs arbitrary: i rule: chunks_exact.induct)
  case (1 n xs)
  have long: "\<not> length xs < n" using "1.prems" by (auto dest: div_less)
  show ?case
  proof (cases i)
    case 0
    then show ?thesis using "1.prems" long by (simp add: chunks_exact.simps [of n xs])
  next
    case (Suc j)
    have "j < length (drop n xs) div n" using "1.prems" long Suc by (simp add: le_div_geq)
    with "1.IH" [of j] "1.prems" long Suc show ?thesis
      by (simp add: chunks_exact.simps [of n xs] add.commute)
  qed
qed

lemma encode_from_eq:
  assumes "u \<noteq> 0" and "cs = chunks_exact u packed"
  shows "rs < i \<Longrightarrow> i \<le> length cs \<Longrightarrow>
    encode_from packed u (length cs) i rs run out = encode_runs out (cs ! rs) run (drop i cs)"
proof (induction "length cs - i" arbitrary: i rs run out)
  case 0
  then have "rs < length packed div u" using assms by (simp add: length_chunks_exact)
  then have "cs ! rs = substr packed (rs * u) u"
    using assms by (simp add: substr_def nth_chunks_exact)
  moreover have "\<not> i < length cs" "drop i cs = []" using 0 by simp_all
  ultimately show ?case
    by (simp add: encode_from.simps [of packed u "length cs" i] putVarint_eq)
next
  case (Suc n)
  then have i: "i < length cs" and "rs < length cs" by simp_all
  then have nth: "cs ! i = substr packed (i * u) u" "cs ! rs = substr packed (rs * u) u"
    using assms by (simp_all add: substr_def nth_chunks_exact length_chunks_exact)
  have "drop i cs = cs ! i # drop (i + 1) cs" using i by (simp add: Cons_nth_drop_Suc)
  moreover have "encode_from packed u (length cs) (i + 1) j r o' = encode_runs o' (cs ! j) r (drop (i + 1) cs)"
    if "j \<le> i" for j r o'
    using Suc(1) [of "i + 1" j r o'] Suc(2) i that by simp
  ultimately show ?case
    using i Suc.prems nth by (simp add: encode_from.simps [of packed u "length cs" i rs] putVarint_eq)
qed

lemma encodeTransition_eq:
  "encodeTransition packed unitsize =
     (if unitsize = 0 then throw_protocol ''unitsize must be positive''
      else Inr (returned (encode_transition packed unitsize)))"
proof (cases "unitsize = 0")
  case False
  let ?u = "unat unitsize" and ?cs = "chunks_exact (unat unitsize) packed"
  from False have u: "?u \<noteq> 0" by (simp add: unat_eq_0)
  note len = length_chunks_exact [OF u, of packed]
  show ?thesis
  proof (cases ?cs)
    case Nil
    with len have "length packed div ?u = 0" by simp
    with Nil False show ?thesis by (simp add: encodeTransition_def encode_transition_def)
  next
    case (Cons c cs)
    then have "encode_from packed ?u (length ?cs) 1 0 1 [] = encode_runs [] c 1 cs"
      using encode_from_eq [OF u refl, of 0 1 packed 1 "[]"] by simp
    moreover have "length packed div ?u \<noteq> 0" using Cons len by auto
    ultimately show ?thesis
      using False Cons len by (simp add: encodeTransition_def encode_transition_def Let_def)
  qed
qed (simp add: encodeTransition_def)

lemma append_run_eq:
  "length out \<le> ms \<Longrightarrow>
   append_run ms n val out =
     (if length out + n * length val \<le> ms then Inr (out @ concat (replicate n val))
      else Inl LengthError)"
proof (induction n arbitrary: out)
  case (Suc n)
  show ?case
  proof (cases "length out + length val \<le> ms")
    case True
    with Suc.IH [of "out @ val"] show ?thesis by (simp add: str_append_def add.assoc)
  next
    case False
    then show ?thesis by (simp add: str_append_def)
  qed
qed simp

text \<open>
  A Rust outcome and a C++ result agree up to the limit \<open>ms\<close> on the size of a string:
  beyond the limit C++ throws \<open>LengthError\<close>, and then Rust does not return a result
  that is within the limit; short of it both return, the same or the same error.
\<close>

definition agree_upto ::
  "texts \<Rightarrow> nat \<Rightarrow> ('b \<Rightarrow> nat) \<Rightarrow> ('b \<Rightarrow> 'a \<Rightarrow> bool) \<Rightarrow> 'b result outcome \<Rightarrow> 'a throws \<Rightarrow> bool" where
  "agree_upto tx ms sz R out x \<longleftrightarrow>
     (if x = Inl LengthError then (\<forall>b. out = Ret (Inr b) \<longrightarrow> ms < sz b)
      else (\<exists>r. out = Ret r \<and> same_result tx R r x))"

lemma same_error_not_length: "same_error tx e x \<Longrightarrow> x \<noteq> LengthError"
  by (cases e) auto

lemma agree_upto_simps [simp]:
  "agree_upto tx ms sz R (Ret (Inr b)) (Inr a) = R b a"
  "agree_upto tx ms sz R (Ret (Inl e)) (Inl y) \<longleftrightarrow> y = LengthError \<or> same_error tx e y"
  "agree_upto tx ms sz R out (Inl LengthError) \<longleftrightarrow> (\<forall>b. out = Ret (Inr b) \<longrightarrow> ms < sz b)"
  by (auto simp: agree_upto_def dest: same_error_not_length)

lemma decode_runs_grows:
  "decode_runs unitsize out payload = Ret (Inr res) \<Longrightarrow> length out \<le> isize_max \<Longrightarrow>
   length out \<le> length res"
  by (drule (1) decode_runs_sound) auto

lemma decode_from_agrees:
  "\<lbrakk>length out \<le> ms; ms \<le> isize_max; pos \<le> length payload; u = unat unitsize\<rbrakk> \<Longrightarrow>
   agree_upto tx ms length (=) (decode_runs unitsize out (drop pos payload))
     (decode_from ms payload u out pos)"
proof (induction ms payload u out pos rule: decode_from.induct)
  case (1 ms payload u out pos)
  show ?case
  proof (cases "pos < length payload")
    case False
    then have "decode_from ms payload u out pos = Inr out"
      by (simp add: decode_from.simps [of ms payload u out pos])
    with False show ?thesis by (simp add: decode_runs.simps)
  next
    case True
    note unfold = decode_from.simps [of ms payload "unat unitsize" out pos]
      decode_runs.simps [of unitsize out "drop pos payload"]
    from getVarint_eq [of tx payload pos] show ?thesis
    proof (cases rule: same_result_cases)
      case (error e y)
      with True "1.prems" show ?thesis by (simp add: unfold)
    next
      case (ok a b)
      then obtain run pos' where g: "get_varint (drop pos payload) = Inr (run, drop pos' payload)"
        "getVarint payload pos = Inr (pos', run)" "pos' \<le> length payload"
        by (cases a; cases b) auto
      let ?val = "substr payload pos' u"
      let ?out = "out @ concat (replicate (unat run) ?val)"
      show ?thesis
      proof (cases "length payload - pos' < u")
        case True
        with g \<open>pos < length payload\<close> "1.prems" show ?thesis by (simp add: unfold)
      next
        case False
        with g(3) have val: "length ?val = u" by (simp add: substr_def)
        note step = g True False "1.prems" val
        show ?thesis
        proof (cases "length out + unat run * u \<le> ms")
          case True
          have "agree_upto tx ms length (=) (decode_runs unitsize ?out (drop (pos' + u) payload))
              (decode_from ms payload u ?out (pos' + u))"
            by (rule "1.IH" [OF \<open>pos < length payload\<close> g(2) refl False])
              (use step True in \<open>auto simp: append_run_eq\<close>)
          with step True show ?thesis
            by (simp add: unfold append_run_eq extend_run_eq substr_def [symmetric] drop_drop add.commute)
        next
          case over: False
          have "ms < length b" if "decode_runs unitsize ?out (drop (pos' + u) payload) = Ret (Inr b)"
            "length ?out \<le> isize_max" for b
            using decode_runs_grows [OF that] over val by simp
          with step over show ?thesis
            by (auto simp: unfold append_run_eq extend_run_eq substr_def [symmetric] drop_drop add.commute)
        qed
      qed
    qed
  qed
qed

lemma decodeTransition_agrees:
  assumes "ms \<le> isize_max"
  shows "agree_upto tx ms length (=) (decode_transition Release payload unitsize samples)
    (decodeTransition ms payload unitsize samples)"
proof (cases "unitsize = 0 \<or> ms < unat (samples * unitsize)")
  case True
  have size: "unat (samples * unitsize) = length res"
    if "length res \<le> isize_max" "of_nat (length res) = samples * unitsize" for res :: bytes
    using that(2) unat_of_nat_u64 [OF isize_max_less [OF that(1)]] by simp
  from True show ?thesis
    by (auto simp: decode_transition_def decodeTransition_def str_reserve_def usize_mul_def
        return_iff vec_reserve_def size dest!: decode_runs_sound split: if_splits)
next
  case False
  let ?x = "decode_from ms payload (unat unitsize) [] 0"
  have step: "agree_upto tx ms length (=) (decode_runs unitsize [] payload) ?x"
    using decode_from_agrees [of "[]" ms 0 payload "unat unitsize" unitsize tx] assms by simp
  have out: "decode_transition Release payload unitsize samples
      = obind (decode_runs unitsize [] payload) (\<lambda>expanded. Ret (rbind expanded (\<lambda>out.
          if of_nat (length out) \<noteq> samples * unitsize
          then Inl (Protocol (WrongSampleCount (of_nat (length out div unat unitsize)) samples))
          else Inr out)))"
    using False assms
    by (simp add: decode_transition_def usize_mul_def vec_reserve_def)
  show ?thesis
  proof (cases ?x)
    case (Inl y)
    with step False show ?thesis
      by (cases y) (auto simp: out decodeTransition_def str_reserve_def agree_upto_def return_iff
          same_result_iff split: if_splits)
  next
    case (Inr res)
    with step have runs: "decode_runs unitsize [] payload = Ret (Inr res)"
      by (auto simp: agree_upto_def same_result_iff)
    from decode_runs_sound [OF this] have "length res \<le> isize_max" by auto
    then have "length res div unat unitsize \<le> isize_max" by (meson div_le_dividend order_trans)
    then have "unat (of_nat (length res div unat unitsize) :: usize) = length res div unat unitsize"
      by (intro unat_of_nat_u64 isize_max_less)
    with runs Inr False show ?thesis
      by (simp add: out decodeTransition_def str_reserve_def)
  qed
qed

lemma uncompressed_agrees:
  assumes "ms \<le> isize_max" and "cd_codec data = codec_i32 c" and "c \<in> {CodecNone, CodecUnspecified}"
  shows "agree_upto tx ms (\<lambda>c. length (cow_bytes c)) (=) (decode_payload Release data unitsize)
    (snd (decodePayload tx ms data unitsize scratch))"
proof (cases "cd_encoding data = sample_encoding_i32 Transition")
  case True
  let ?d = "decodeTransition ms (cd_payload data) unitsize (cd_sample_count data)"
  have "agree_upto tx ms (\<lambda>c. length (cow_bytes c)) (=)
      (obind (decode_transition Release (cd_payload data) unitsize (cd_sample_count data))
         (\<lambda>r. Ret (map_ok Owned r)))
      (case ?d of Inl x \<Rightarrow> Inl x | Inr out \<Rightarrow> Inr (Owned out))"
    using decodeTransition_agrees [OF assms(1), of tx "cd_payload data" unitsize "cd_sample_count data"]
    by (cases ?d) (auto simp: agree_upto_def return_iff same_result_iff split: if_splits)
  then show ?thesis
    using True assms(2,3)
    by (cases ?d) (auto simp: decodePayload_def decode_payload_def
        simp del: codec_i32.simps sample_encoding_i32.simps)
next
  case False
  then have "sample_encoding_try_from (cd_encoding data) \<noteq> Some Transition"
    by (auto simp: sample_encoding_try_from_def split: if_splits)
  then show ?thesis
    using False assms(2,3)
    by (cases "sample_encoding_try_from (cd_encoding data)")
      (auto simp: decodePayload_def decode_payload_def split: sample_encoding.splits
        simp del: codec_i32.simps sample_encoding_i32.simps)
qed

section \<open>Properties\<close>

text \<open>
  C18. The C++ binding and the Rust crate read and write the same bytes.  Both
  encode samples alike; both decode a payload to the same bytes or refuse it with the
  same text, up to the size of the largest string, where C++ throws
  \<open>length_error\<close>; so what a Rust plugin encodes a C++ frontend decodes to the samples
  that went in; and both negotiate alike.
\<close>

theorem codecs_agree:
  assumes "ms \<le> isize_max" and "unitsize \<noteq> 0"
  shows "encodeTransition packed unitsize = Inr (returned (encode_transition packed unitsize))
    \<and> agree_upto tx ms length (=) (decode_transition Release payload unitsize samples)
        (decodeTransition ms payload unitsize samples)
    \<and> (length packed \<le> ms \<and> unat unitsize dvd length packed \<longrightarrow>
        decodeTransition ms (returned (encode_transition packed unitsize)) unitsize
          (of_nat (length packed div unat unitsize)) = Inr packed)
    \<and> negotiateEncodings accept supportedEncodings = negotiate_encodings accept ENCODINGS
    \<and> negotiateCodecs accept supportedCodecs = negotiate_codecs accept CODECS"
proof (intro conjI impI)
  show "encodeTransition packed unitsize = Inr (returned (encode_transition packed unitsize))"
    using assms(2) by (simp add: encodeTransition_eq)
  assume fits: "length packed \<le> ms \<and> unat unitsize dvd length packed"
  obtain e where e: "encode_transition packed unitsize = Ret e"
    using encode_transition_runs [OF assms(2), of packed] fits assms(1) by (metis order_trans)
  let ?x = "decodeTransition ms e unitsize (of_nat (length packed div unat unitsize))"
  have "decode_transition Release e unitsize (of_nat (length packed div unat unitsize))
      = Ret (Inr packed)"
    using decode_encoded [OF assms(2), of packed Release] fits assms(1) e by simp
  with decodeTransition_agrees [OF assms(1), of tx e unitsize] fits
  have "agree_upto tx ms length (=) (Ret (Inr packed)) ?x" by metis
  with fits have "?x = Inr packed"
    by (cases ?x) (auto simp: agree_upto_def split: if_splits)
  then show "decodeTransition ms (returned (encode_transition packed unitsize)) unitsize
      (of_nat (length packed div unat unitsize)) = Inr packed" by (simp add: e)
qed (simp_all add: decodeTransition_agrees [OF assms(1)] negotiation_eq)

text \<open>The largest string of a common implementation.\<close>

definition libstdcxx_max :: nat where
  "libstdcxx_max = 2 ^ 62 - 1"

theorem codecs_agree_witness:
  "decodeTransition libstdcxx_max [3, 7, 1, 9] 1 4 = Inr [7, 7, 7, 9]
   \<and> encodeTransition [7, 7, 7, 9] 1 = Inr [3, 7, 1, 9]"
proof -
  have "libstdcxx_max \<le> isize_max" "(1 :: usize) \<noteq> 0"
    by (simp_all add: libstdcxx_max_def isize_max_def)
  note agree = codecs_agree [OF this, of "[7, 7, 7, 9]"]
  have "encode_transition [7, 7, 7, 9] 1 = Ret [3, 7, 1, 9]" by code_simp
  then show ?thesis using agree by (simp add: libstdcxx_max_def)
qed

text \<open>
  C40. The two decoders of a chunk part ways on a codec number outside the enum: the C++
  binding refuses it, and the Rust crate takes it for no codec at all, in debug and in
  release builds, so that a packed payload is handed on as it is and a transition payload
  is decoded as runs.  On every other chunk the release build of the crate and the C++
  binding agree, up to the largest string of C++: the same bytes, borrowed or copied, or
  the same error text.
\<close>

theorem decoders_differ_on_unknown_codecs:
  assumes "ms \<le> isize_max" and "names_enums tx"
  shows "if codec_try_from (cd_codec data) = None
    then snd (decodePayload tx ms data unitsize scratch)
          = throw_protocol (Codec_Name tx (cd_codec data) @ '' is not decodable here'')
      \<and> decode_payload prof (data\<lparr>cd_codec := codec_i32 CodecNone\<rparr>) unitsize
          = decode_payload prof data unitsize
      \<and> (cd_encoding data = sample_encoding_i32 Packed \<longrightarrow>
          decode_payload prof data unitsize = Ret (Inr (Borrowed (cd_payload data))))
      \<and> (cd_encoding data = sample_encoding_i32 Transition \<longrightarrow>
          decode_payload prof data unitsize
            = obind (decode_transition prof (cd_payload data) unitsize (cd_sample_count data))
                (\<lambda>r. Ret (map_ok Owned r)))
    else agree_upto tx ms (\<lambda>c. length (cow_bytes c)) (=) (decode_payload Release data unitsize)
          (snd (decodePayload tx ms data unitsize scratch))"
proof (cases "codec_try_from (cd_codec data)")
  case None
  then have "cd_codec data \<noteq> codec_i32 CodecNone" "cd_codec data \<noteq> codec_i32 CodecUnspecified"
    by (auto simp del: codec_i32.simps)
  moreover have "codec_try_from (codec_i32 CodecNone) = Some CodecNone" by (simp add: codec_try_from_def)
  ultimately show ?thesis
    using None
    by (auto simp: decodePayload_def decode_payload_def simp del: codec_i32.simps sample_encoding_i32.simps
        split: sample_encoding.split)
next
  case (Some c)
  then have c: "cd_codec data = codec_i32 c"
    by (auto simp: codec_try_from_def split: if_splits)
  show ?thesis
  proof (cases "c \<in> {CodecNone, CodecUnspecified}")
    case False
    with c Some assms(2) show ?thesis
      by (simp add: decodePayload_def decode_payload_def names_enums_def del: codec_i32.simps)
  next
    case True
    show ?thesis using uncompressed_agrees [OF assms(1) c True] Some by simp
  qed
qed

theorem decoders_differ_on_unknown_codecs_witness:
  "snd (decodePayload example_texts libstdcxx_max (example_data\<lparr>cd_codec := 4, cd_encoding := 1\<rparr>) 1 [])
     = throw_protocol '' is not decodable here''
   \<and> decode_payload Debug (example_data\<lparr>cd_codec := 4, cd_encoding := 1\<rparr>) 1 = Ret (Inr (Borrowed []))"
proof -
  let ?data = "example_data\<lparr>cd_codec := 4, cd_encoding := 1\<rparr>"
  have "codec_try_from (cd_codec ?data) = None" "Codec_Name example_texts 4 = []"
    "cd_payload ?data = []" "cd_encoding ?data = sample_encoding_i32 Packed"
    by (simp_all add: codec_try_from_def example_texts_def example_data_def)
  moreover have "libstdcxx_max \<le> isize_max" by (simp add: libstdcxx_max_def isize_max_def)
  moreover note decoders_differ_on_unknown_codecs [OF this example_texts_names, of ?data 1 "[]" Debug]
  ultimately have "snd (decodePayload example_texts libstdcxx_max ?data 1 [])
      = throw_protocol (Codec_Name example_texts 4 @ '' is not decodable here'')
    \<and> decode_payload Debug ?data 1 = Ret (Inr (Borrowed (cd_payload ?data)))"
    by simp
  with \<open>Codec_Name example_texts 4 = []\<close> \<open>cd_payload ?data = []\<close> show ?thesis by simp
qed

end
