(* ===== verification/OCP_CppManifest.thy ===== *)
theory OCP_CppManifest
  imports OCP_Manifest OCP_CppError
begin

text \<open>
  \<open>cpp/src/manifest.cpp\<close>: loading \<open>plugin.json\<close> and expanding its \<open>run\<close> line, in the
  C++ binding, and its agreement with the Rust crate.  Protobuf's JSON reader is a
  parameter, and so is what each path names on the disk; each binding reads a file in the
  way of its own standard library.
\<close>

section \<open>Reading a file\<close>

text \<open>
  A path that is opened: it may be refused, and otherwise yields bytes until the file ends
  or a read fails.
\<close>

record opened_file =
  fl_open :: "io_error option"
  fl_bytes :: string
  fl_fault :: "io_error option"

text \<open>The encodings of Unicode's scalar values.\<close>

definition continues :: "nat \<Rightarrow> bool" where
  "continues b \<longleftrightarrow> 0x80 \<le> b \<and> b < 0xC0"

fun utf8_ok :: "nat list \<Rightarrow> bool" where
  "utf8_ok [] = True"
| "utf8_ok (b # bs) =
     (if b < 0x80 then utf8_ok bs
      else if 0xC2 \<le> b \<and> b \<le> 0xDF then
        (case bs of c # rest \<Rightarrow> continues c \<and> utf8_ok rest | _ \<Rightarrow> False)
      else if 0xE0 \<le> b \<and> b \<le> 0xEF then
        (case bs of c # d # rest \<Rightarrow> continues c \<and> continues d \<and> (b = 0xE0 \<longrightarrow> 0xA0 \<le> c)
            \<and> (b = 0xED \<longrightarrow> c < 0xA0) \<and> utf8_ok rest
         | _ \<Rightarrow> False)
      else if 0xF0 \<le> b \<and> b \<le> 0xF4 then
        (case bs of c # d # e # rest \<Rightarrow> continues c \<and> continues d \<and> continues e
            \<and> (b = 0xF0 \<longrightarrow> 0x90 \<le> c) \<and> (b = 0xF4 \<longrightarrow> c < 0x90) \<and> utf8_ok rest
         | _ \<Rightarrow> False)
      else False)"

definition is_utf8 :: "string \<Rightarrow> bool" where
  "is_utf8 s \<longleftrightarrow> utf8_ok (map of_char s)"

definition invalid_data :: io_error where
  "invalid_data = \<lparr>io_kind = OtherKind 84, io_text = ''stream did not contain valid UTF-8''\<rparr>"

text \<open>
  \<open>std::fs::read_to_string\<close> reports a read that fails and insists on UTF-8.
  \<open>std::ifstream\<close> tells its user whether the file was opened, and \<open>operator<<\<close> on its
  buffer copies what can be read.
\<close>

definition read_to_string :: "(string \<Rightarrow> opened_file) \<Rightarrow> string \<Rightarrow> io_error + string" where
  "read_to_string disk path =
     (let f = disk path in
      case fl_open f of
        Some e \<Rightarrow> Inl e
      | None \<Rightarrow>
          (case fl_fault f of
             Some e \<Rightarrow> Inl e
           | None \<Rightarrow> if is_utf8 (fl_bytes f) then Inr (fl_bytes f) else Inl invalid_data))"

definition ifstream_copy :: "(string \<Rightarrow> opened_file) \<Rightarrow> string \<Rightarrow> io_error + string" where
  "ifstream_copy disk path =
     (case fl_open (disk path) of Some e \<Rightarrow> Inl e | None \<Rightarrow> Inr (fl_bytes (disk path)))"

section \<open>The code\<close>

definition parse_cpp :: "(string \<Rightarrow> string + plugin_manifest) \<Rightarrow> string \<Rightarrow> plugin_manifest throws" where
  "parse_cpp json_to_message json =
     (case json_to_message json of
        Inl message \<Rightarrow> Inl (Thrown (Error_json message))
      | Inr manifest \<Rightarrow> Inr manifest)"

definition load_cpp ::
  "texts \<Rightarrow> (string \<Rightarrow> opened_file) \<Rightarrow> (string \<Rightarrow> string + plugin_manifest) \<Rightarrow>
   string \<Rightarrow> plugin_manifest throws" where
  "load_cpp tx disk json_to_message pluginDir =
     (let path = pluginDir @ ''/'' @ FILENAME in
      case ifstream_copy disk path of
        Inl errno \<Rightarrow> Inl (Thrown (Error_io tx errno (''open '' @ path)))
      | Inr buf \<Rightarrow> parse_cpp json_to_message buf)"

text \<open>
  \<open>looksLikePath\<close>, with \<open>compare\<close> on the last three characters, and one turn of the
  loop over \<open>run\<close>.  \<open>front()\<close> is reached only for a word that looks like a path, which
  is not empty.
\<close>

definition looksLikePath :: "string \<Rightarrow> bool" where
  "looksLikePath token \<longleftrightarrow>
     CHR ''/'' \<in> set token \<or> 3 \<le> length token \<and> take 3 (drop (length token - 3) token) = ''.py''"

definition push_token :: "string \<Rightarrow> string \<Rightarrow> string list \<Rightarrow> string \<Rightarrow> string list" where
  "push_token pluginDir python argv token =
     (if token = ''{python}'' then argv @ [python]
      else if \<not> looksLikePath token \<or> hd token = CHR ''/'' then argv @ [token]
      else argv @ [pluginDir @ ''/'' @ token])"

definition resolveArgv :: "plugin_manifest \<Rightarrow> string \<Rightarrow> string \<Rightarrow> string list" where
  "resolveArgv manifest pluginDir python = foldl (push_token pluginDir python) [] (pm_run manifest)"

section \<open>Agreement\<close>

lemma looksLikePath_eq: "looksLikePath = looks_like_path"
  by (auto simp: fun_eq_iff looksLikePath_def looks_like_path_def ends_with_def numeral_3_eq_3)

lemma looks_like_path_nonempty: "looks_like_path token \<Longrightarrow> token \<noteq> []"
  by (auto simp: looks_like_path_def ends_with_def)

lemma push_token_eq:
  "push_token dir python argv token = argv @ [if plain_dir dir then resolve_token dir python token
     else if token = ''{python}'' then python
     else if \<not> looks_like_path token \<or> is_absolute token then token else dir @ ''/'' @ token]"
proof (cases "looks_like_path token")
  case True
  then obtain c cs where "token = c # cs" using looks_like_path_nonempty by (cases token) auto
  then show ?thesis
    by (simp add: push_token_def resolve_token_def looksLikePath_eq path_join_def plain_dir_def)
qed (simp add: push_token_def resolve_token_def looksLikePath_eq)

lemma resolveArgv_eq: "plain_dir dir \<Longrightarrow> resolveArgv m dir python = resolve_argv m dir python"
proof -
  assume "plain_dir dir"
  then have "foldl (push_token dir python) acc ts = acc @ map (resolve_token dir python) ts" for acc ts
    by (induction ts arbitrary: acc) (simp_all add: push_token_eq)
  then show ?thesis by (simp add: resolveArgv_def resolve_argv_def)
qed

lemma manifest_path: "plain_dir dir \<Longrightarrow> path_join dir FILENAME = dir @ ''/'' @ FILENAME"
  by (simp add: path_join_def FILENAME_def plain_dir_def)

text \<open>
  A file that can be read to its end and holds UTF-8 gives both bindings the same text, so
  that they agree if their JSON readers do on this text.
\<close>

lemma load_agrees:
  assumes "plain_dir dir" and "fl_fault (disk (dir @ ''/'' @ FILENAME)) = None"
    and "is_utf8 (fl_bytes (disk (dir @ ''/'' @ FILENAME)))"
    and "rel_sum (\<lambda>_ _. True) (=) (from_str (fl_bytes (disk (dir @ ''/'' @ FILENAME))))
      (json_to_message (fl_bytes (disk (dir @ ''/'' @ FILENAME))))"
  shows "same_result tx (=) (load_manifest (read_to_string disk) from_str dir)
    (load_cpp tx disk json_to_message dir)"
  using assms(2-4)
  by (auto simp: load_manifest_def load_cpp_def manifest_path [OF assms(1)] read_to_string_def
      ifstream_copy_def parse_manifest_def parse_cpp_def Let_def split: option.splits elim!: rel_sum.cases)

section \<open>Properties\<close>

text \<open>
  C37. Both bindings look for the manifest in the same place and start the same program.
  For a plugin directory that is not empty and does not end in a slash they open the same
  file, and fail with the same error if it cannot be opened; if it can be read to its end
  and holds UTF-8, each hands the same text to its JSON reader.  Otherwise they differ:
  Rust fails over I/O, and C++ parses what it could read.  \<open>run\<close> expands to the same argv,
  word for word; if the directory is absolute too, every word of it is the interpreter
  that was asked for, an absolute path or a word that does not look like a path.
\<close>

theorem manifests_agree:
  assumes "plain_dir dir"
  shows "(let f = disk (dir @ ''/'' @ FILENAME);
          rust = load_manifest (read_to_string disk) from_str dir;
          cpp = load_cpp tx disk json_to_message dir in
        case fl_open f of
          Some e \<Rightarrow> rust = Inl (Io e) \<and> same_result tx (=) rust cpp
        | None \<Rightarrow> cpp = parse_cpp json_to_message (fl_bytes f)
            \<and> (if fl_fault f = None \<and> is_utf8 (fl_bytes f)
               then rust = parse_manifest from_str (fl_bytes f) else \<exists>e. rust = Inl (Io e)))
    \<and> resolveArgv m dir python = resolve_argv m dir python
    \<and> length (resolve_argv m dir python) = length (pm_run m)
    \<and> (is_absolute dir \<longrightarrow>
        (\<forall>t \<in> set (resolve_argv m dir python). t = python \<or> is_absolute t \<or> \<not> looks_like_path t))"
proof (intro conjI)
  show "length (resolve_argv m dir python) = length (pm_run m)" by (simp add: resolve_argv_def)
  show "is_absolute dir \<longrightarrow>
      (\<forall>t \<in> set (resolve_argv m dir python). t = python \<or> is_absolute t \<or> \<not> looks_like_path t)"
    using resolve_argv_anchored by blast
qed (auto simp: resolveArgv_eq [OF assms] load_manifest_def load_cpp_def manifest_path [OF assms]
    read_to_string_def ifstream_copy_def error_from_io_def Let_def split: option.splits)

text \<open>A manifest in Latin-1.\<close>

definition latin1_disk :: "string \<Rightarrow> opened_file" where
  "latin1_disk _ = \<lparr>fl_open = None, fl_bytes = [CHR 0xE9], fl_fault = None\<rparr>"

theorem manifests_agree_witness:
  "resolveArgv example_manifest ''/plugins/demo'' ''/usr/bin/python3''
     = [''/usr/bin/python3'', ''/plugins/demo/plugin.py'', ''--verbose'', ''/usr/bin/thing'', ''demo'']
   \<and> load_cpp example_texts latin1_disk (\<lambda>_. Inr example_manifest) ''/plugins/demo'' = Inr example_manifest
   \<and> (\<exists>e. load_manifest (read_to_string latin1_disk) (\<lambda>_. Inr example_manifest) ''/plugins/demo'' = Inl (Io e))"
proof -
  have dir: "plain_dir ''/plugins/demo''" by (simp add: plain_dir_def)
  have argv: "resolve_argv example_manifest ''/plugins/demo'' ''/usr/bin/python3''
     = [''/usr/bin/python3'', ''/plugins/demo/plugin.py'', ''--verbose'', ''/usr/bin/thing'', ''demo'']"
    by code_simp
  have "\<not> is_utf8 [CHR 0xE9]" by code_simp
  with manifests_agree [OF dir, of latin1_disk "\<lambda>_. Inr example_manifest" example_texts
      "\<lambda>_. Inr example_manifest" example_manifest "''/usr/bin/python3''"] argv
  show ?thesis by (simp add: latin1_disk_def parse_cpp_def Let_def)
qed

text \<open>
  A trailing slash is doubled in C++ and an empty directory makes the word absolute,
  where the Rust crate joins paths.
\<close>

lemma argv_differs_on_trailing_slash:
  "resolveArgv (example_manifest\<lparr>pm_run := [''./demo'']\<rparr>) ''/plugins/'' python = [''/plugins//./demo'']
   \<and> resolve_argv (example_manifest\<lparr>pm_run := [''./demo'']\<rparr>) ''/plugins/'' python = [''/plugins/./demo'']
   \<and> resolveArgv (example_manifest\<lparr>pm_run := [''./demo'']\<rparr>) [] python = [''/./demo'']
   \<and> resolve_argv (example_manifest\<lparr>pm_run := [''./demo'']\<rparr>) [] python = [''./demo'']"
  by (simp add: resolveArgv_def push_token_def looksLikePath_def resolve_argv_def resolve_token_def
      looks_like_path_def path_join_def)

end
