(* ===== verification/OCP_CppTransport.thy ===== *)
theory OCP_CppTransport
  imports OCP_Transport OCP_CppError
begin

text \<open>
  \<open>cpp/src/transport.cpp\<close>: the sockets of the C++ binding as owners of nng handles,
  and its \<open>Endpoints\<close> over a file system of directories and files, with the proof that
  it makes the same directory and URLs as the Rust crate.
\<close>

section \<open>nng as C sees it\<close>

text \<open>
  Options are integers in the C interface: sizes, milliseconds (\<open>nng_duration\<close>, -1 for
  no limit) and a mode.  What each call returns is a parameter, \<open>None\<close> for 0.
\<close>

datatype c_option =
    OPT_RECVMAXSZ usize
  | OPT_SENDTIMEO i32
  | OPT_RECVTIMEO i32
  | OPT_REQ_RESENDTIME i32
  | OPT_IPC_PERMISSIONS i32

record nng_lib =
  lib_open :: "nng_protocol \<Rightarrow> nng_error option"
  lib_set :: "nng_protocol \<Rightarrow> c_option \<Rightarrow> nng_error option"
  lib_listener_create :: "nng_protocol \<Rightarrow> string \<Rightarrow> nng_error option"
  lib_listener_set :: "nng_protocol \<Rightarrow> c_option \<Rightarrow> nng_error option"
  lib_listener_start :: "nng_protocol \<Rightarrow> string \<Rightarrow> nng_error option"
  lib_dial :: "nng_protocol \<Rightarrow> string \<Rightarrow> nng_error option"

text \<open>
  The library's own state: the open sockets with their protocol and the options set on
  them, and the listeners created and not closed, each with its socket, its URL, its
  options and whether it was started.  Closing a socket closes its listeners.
\<close>

record listener =
  li_id :: nat
  li_socket :: nat
  li_url :: string
  li_opts :: "c_option list"
  li_started :: bool

record nng_state =
  ns_next :: nat
  ns_sockets :: "(nat \<times> nng_protocol \<times> c_option list) list"
  ns_listeners :: "listener list"

definition nng_close :: "nng_state \<Rightarrow> nat \<Rightarrow> nng_state" where
  "nng_close ns h = ns\<lparr>ns_sockets := filter (\<lambda>(h', _). h' \<noteq> h) (ns_sockets ns),
     ns_listeners := filter (\<lambda>l. li_socket l \<noteq> h) (ns_listeners ns)\<rparr>"

definition nng_listener_close :: "nng_state \<Rightarrow> nat \<Rightarrow> nng_state" where
  "nng_listener_close ns i = ns\<lparr>ns_listeners := filter (\<lambda>l. li_id l \<noteq> i) (ns_listeners ns)\<rparr>"

text \<open>Changing one listener, which the calls name by its number.\<close>

definition on_listener :: "nat \<Rightarrow> (listener \<Rightarrow> listener) \<Rightarrow> nng_state \<Rightarrow> nng_state" where
  "on_listener i f ns =
     ns\<lparr>ns_listeners := map (\<lambda>l. if li_id l = i then f l else l) (ns_listeners ns)\<rparr>"

definition check_nng :: "texts \<Rightarrow> nng_error option \<Rightarrow> string \<Rightarrow> unit throws" where
  "check_nng tx rv ctx = (case rv of None \<Rightarrow> Inr () | Some e \<Rightarrow> Inl (Thrown (Error_nng tx e ctx)))"

section \<open>Sockets\<close>

text \<open>\<open>class Socket\<close>: a handle and whether it owns it.\<close>

record cpp_socket =
  so_handle :: nat
  so_open :: bool

definition Socket_empty :: cpp_socket where
  "Socket_empty = \<lparr>so_handle = 0, so_open = False\<rparr>"

definition Socket_close :: "nng_state \<Rightarrow> cpp_socket \<Rightarrow> nng_state \<times> cpp_socket" where
  "Socket_close ns s =
     (if so_open s then (nng_close ns (so_handle s), s\<lparr>so_open := False\<rparr>) else (ns, s))"

text \<open>
  An option set on an open socket; a call that fails sets nothing.
\<close>

definition set_option ::
  "nng_lib \<Rightarrow> texts \<Rightarrow> nng_protocol \<Rightarrow> nat \<Rightarrow> c_option \<Rightarrow> string \<Rightarrow> nng_state \<Rightarrow> nng_state \<times> unit throws" where
  "set_option lib tx p h opt ctx ns =
     (case check_nng tx (lib_set lib p opt) ctx of
        Inl x \<Rightarrow> (ns, Inl x)
      | Inr _ \<Rightarrow> (ns\<lparr>ns_sockets := map (\<lambda>(h', q, opts). if h' = h then (h', q, opts @ [opt])
                     else (h', q, opts)) (ns_sockets ns)\<rparr>, Inr ()))"

definition st_bind :: "'s \<times> 'a throws \<Rightarrow> ('s \<Rightarrow> 'a \<Rightarrow> 's \<times> 'b throws) \<Rightarrow> 's \<times> 'b throws" where
  "st_bind m f = (case m of (s, Inl x) \<Rightarrow> (s, Inl x) | (s, Inr a) \<Rightarrow> f s a)"

lemma st_bind_simps [simp]:
  "st_bind (s, Inl x) f = (s, Inl x)"
  "st_bind (s, Inr a) f = f s a"
  by (simp_all add: st_bind_def)

definition SEND_TIMEOUT_MS :: i32 where
  "SEND_TIMEOUT_MS = 30000"

text \<open>
  The constructor.  The \<open>catch (...)\<close> closes the handle, since no destructor runs for
  an object whose constructor throws.
\<close>

definition socket_options_cpp :: "nng_protocol \<Rightarrow> (c_option \<times> string) list" where
  "socket_options_cpp p =
     [(OPT_RECVMAXSZ RECV_MAX_SIZE, ''set recv-size-max''),
      (OPT_SENDTIMEO SEND_TIMEOUT_MS, ''set send-timeout'')]
     @ (if p = Req0 then [(OPT_REQ_RESENDTIME 0, ''set req:resend-time'')] else [])"

fun set_options ::
  "nng_lib \<Rightarrow> texts \<Rightarrow> nng_protocol \<Rightarrow> nat \<Rightarrow> (c_option \<times> string) list \<Rightarrow> nng_state \<Rightarrow>
   nng_state \<times> unit throws" where
  "set_options lib tx p h [] ns = (ns, Inr ())"
| "set_options lib tx p h ((opt, ctx) # opts) ns =
     st_bind (set_option lib tx p h opt ctx ns) (\<lambda>ns _. set_options lib tx p h opts ns)"

definition Socket_ctor :: "nng_lib \<Rightarrow> texts \<Rightarrow> nng_protocol \<Rightarrow> nng_state \<Rightarrow> nng_state \<times> cpp_socket throws" where
  "Socket_ctor lib tx p ns =
     (case check_nng tx (lib_open lib p) ''open'' of
        Inl x \<Rightarrow> (ns, Inl x)
      | Inr _ \<Rightarrow>
     (let h = ns_next ns; s = \<lparr>so_handle = h, so_open = True\<rparr>;
          ns = ns\<lparr>ns_next := h + 1, ns_sockets := ns_sockets ns @ [(h, p, [])]\<rparr> in
      case set_options lib tx p h (socket_options_cpp p) ns of
        (ns, Inl x) \<Rightarrow> (fst (Socket_close ns s), Inl x)
      | (ns, Inr _) \<Rightarrow> (ns, Inr s)))"

text \<open>The move constructor and the move assignment leave the source closed.\<close>

definition Socket_move :: "cpp_socket \<Rightarrow> cpp_socket \<times> cpp_socket" where
  "Socket_move other = (other, other\<lparr>so_open := False\<rparr>)"

definition Socket_assign :: "nng_state \<Rightarrow> cpp_socket \<Rightarrow> cpp_socket \<Rightarrow> nng_state \<times> cpp_socket \<times> cpp_socket" where
  "Socket_assign ns this other =
     (let (ns, _) = Socket_close ns this in (ns, other, other\<lparr>so_open := False\<rparr>))"

text \<open>\<open>Socket::listen\<close>: a listener that cannot be configured or started is closed.\<close>

definition Socket_listen ::
  "nng_lib \<Rightarrow> texts \<Rightarrow> nng_protocol \<Rightarrow> cpp_socket \<Rightarrow> string \<Rightarrow> nng_state \<Rightarrow> nng_state \<times> unit throws" where
  "Socket_listen lib tx p s url ns =
     (case check_nng tx (lib_listener_create lib p url) ''listener create'' of
        Inl x \<Rightarrow> (ns, Inl x)
      | Inr _ \<Rightarrow>
     (let i = ns_next ns;
          ns = ns\<lparr>ns_next := i + 1, ns_listeners := ns_listeners ns
            @ [\<lparr>li_id = i, li_socket = so_handle s, li_url = url, li_opts = [], li_started = False\<rparr>]\<rparr>;
          ipc = (take 6 url = ''ipc://'');
          perms = OPT_IPC_PERMISSIONS 0x180 in
      case (if ipc then lib_listener_set lib p perms else None) of
        Some rv \<Rightarrow> (nng_listener_close ns i, Inl (Thrown (Error_nng tx rv ''set ipc:permissions'')))
      | None \<Rightarrow>
     (let ns = (if ipc then on_listener i (\<lambda>l. l\<lparr>li_opts := [perms]\<rparr>) ns else ns) in
      case lib_listener_start lib p url of
        Some rv \<Rightarrow> (nng_listener_close ns i, Inl (Thrown (Error_nng tx rv (''listen on '' @ url))))
      | None \<Rightarrow> (on_listener i (\<lambda>l. l\<lparr>li_started := True\<rparr>) ns, Inr ()))))"

definition Socket_dial :: "nng_lib \<Rightarrow> texts \<Rightarrow> nng_protocol \<Rightarrow> string \<Rightarrow> unit throws" where
  "Socket_dial lib tx p url = check_nng tx (lib_dial lib p url) (''dial '' @ url)"

text \<open>
  A timeout is a count of milliseconds that the cast to \<open>nng_duration\<close> cuts to 32 bits.
\<close>

definition nng_ms :: "int option \<Rightarrow> i32" where
  "nng_ms timeout = (case timeout of None \<Rightarrow> - 1 | Some count \<Rightarrow> word_of_int count)"

definition setRecvTimeout ::
  "nng_lib \<Rightarrow> texts \<Rightarrow> nng_protocol \<Rightarrow> cpp_socket \<Rightarrow> int option \<Rightarrow> nng_state \<Rightarrow> nng_state \<times> unit throws" where
  "setRecvTimeout lib tx p s timeout ns =
     set_option lib tx p (so_handle s) (OPT_RECVTIMEO (nng_ms timeout)) ''set recv-timeout'' ns"

text \<open>
  Messages.  The traffic of a socket is the record \<open>socket\<close> of the Rust model;
  \<open>SerializeToString\<close> and \<open>ParseFromArray\<close> report failure by \<open>None\<close>, and \<open>ty\<close> is
  the type's name.  \<open>None\<close> is a receive that blocks.
\<close>

definition Socket_send :: "texts \<Rightarrow> ('m \<Rightarrow> bytes option) \<Rightarrow> string \<Rightarrow> socket \<Rightarrow> 'm \<Rightarrow> socket \<times> unit throws" where
  "Socket_send tx ser ty s message =
     (case ser message of
        None \<Rightarrow> (s, throw_protocol (''could not serialize '' @ ty))
      | Some buf \<Rightarrow>
          (case sk_faults s of
             Some rv # rvs \<Rightarrow> (s\<lparr>sk_faults := rvs\<rparr>, Inl (Thrown (Error_nng tx rv ''send'')))
           | rvs \<Rightarrow> (s\<lparr>sk_faults := tl rvs, sk_sent := sk_sent s @ [buf]\<rparr>, Inr ())))"

definition Socket_recv ::
  "texts \<Rightarrow> (bytes \<Rightarrow> 'm option) \<Rightarrow> string \<Rightarrow> string \<Rightarrow> socket \<Rightarrow> (socket \<times> 'm throws) option" where
  "Socket_recv tx parse ctx ty s =
     (case sk_inbox s of
        [] \<Rightarrow> None
      | Inl rv # rest \<Rightarrow> Some (s\<lparr>sk_inbox := rest\<rparr>, Inl (Thrown (Error_nng tx rv ctx)))
      | Inr buf # rest \<Rightarrow>
          Some (s\<lparr>sk_inbox := rest\<rparr>,
            (case parse buf of
               None \<Rightarrow> Inl (Thrown (Error_decode (''could not parse '' @ ty)))
             | Some m \<Rightarrow> Inr m)))"

section \<open>The runtime directory\<close>

text \<open>
  The disk as the binding sees it: directories with their modes, the other files, the
  umask, and what the operating system refuses.  A system call returns its errno, which
  stands for itself: \<open>None\<close> is success.
\<close>

record disk =
  dk_dirs :: "(string \<times> u32) list"
  dk_files :: "string list"
  dk_umask :: u32
  dk_fault :: "io_op \<Rightarrow> string \<Rightarrow> io_error option"

definition not_a_directory :: io_error where
  "not_a_directory = \<lparr>io_kind = OtherKind 20, io_text = ''Not a directory''\<rparr>"

definition disk_map :: "disk \<Rightarrow> string \<rightharpoonup> u32" where
  "disk_map d = map_of (dk_dirs d)"

text \<open>\<open>mkdir\<close> makes one directory in a directory that exists.\<close>

definition sys_mkdir :: "disk \<Rightarrow> string \<Rightarrow> u32 \<Rightarrow> disk \<times> io_error option" where
  "sys_mkdir d path mode =
     (case dk_fault d Mkdir path of
        Some e \<Rightarrow> (d, Some e)
      | None \<Rightarrow>
          if path \<in> set (map fst (dk_dirs d)) \<or> path \<in> set (dk_files d) then (d, Some already_exists)
          else if \<not> dir_known (disk_map d) (parent_dir path)
          then (d, Some (if parent_dir path \<in> set (dk_files d) then not_a_directory else no_entry))
          else (d\<lparr>dk_dirs := (path, mode AND NOT (dk_umask d)) # dk_dirs d\<rparr>, None))"

definition sys_chmod :: "disk \<Rightarrow> string \<Rightarrow> u32 \<Rightarrow> disk \<times> io_error option" where
  "sys_chmod d path mode =
     (case dk_fault d Chmod path of
        Some e \<Rightarrow> (d, Some e)
      | None \<Rightarrow>
          if path \<in> set (map fst (dk_dirs d))
          then (d\<lparr>dk_dirs := map (\<lambda>(p, m). if p = path then (p, mode) else (p, m)) (dk_dirs d)\<rparr>, None)
          else if path \<in> set (dk_files d) then (d, None)
          else (d, Some no_entry))"

text \<open>
  \<open>rmdir\<close> removes an empty directory only, and may be refused; the code ignores what it
  returns.
\<close>

definition sys_rmdir :: "disk \<Rightarrow> string \<Rightarrow> disk" where
  "sys_rmdir d path =
     (if dk_fault d RemoveAll path \<noteq> None
         \<or> (\<exists>p \<in> set (map fst (dk_dirs d) @ dk_files d). starts_with p (path @ ''/'')) then d
      else d\<lparr>dk_dirs := filter (\<lambda>(p, _). p \<noteq> path) (dk_dirs d)\<rparr>)"

definition sys_unlink :: "disk \<Rightarrow> string \<Rightarrow> disk" where
  "sys_unlink d path = d\<lparr>dk_files := filter (\<lambda>p. p \<noteq> path) (dk_files d)\<rparr>"

record cpp_vars =
  XDG_RUNTIME_DIR :: "string option"
  TMPDIR :: "string option"

definition base_cpp :: "cpp_vars \<Rightarrow> string" where
  "base_cpp vars =
     (case XDG_RUNTIME_DIR vars of
        Some runtime \<Rightarrow> runtime
      | None \<Rightarrow> (case TMPDIR vars of Some tmp \<Rightarrow> tmp | None \<Rightarrow> ''/tmp'')) @ ''/openmso''"

definition checkSunPath :: "string \<Rightarrow> unit throws" where
  "checkSunPath path =
     (if 103 < length path
      then throw_protocol (''socket path is '' @ show_dec (length path) @ '' bytes, over the ''
             @ show_dec 103 @ ''-byte limit: '' @ path)
      else Inr ())"

text \<open>The loop over the tags, \<open>n\<close> attempts left; the catch removes the directory.\<close>

primrec attempt_dirs :: "texts \<Rightarrow> nat \<Rightarrow> string \<Rightarrow> disk \<Rightarrow> u32 \<Rightarrow> disk \<times> endpoints throws" where
  "attempt_dirs tx 0 base d tag = (d, throw_protocol ''no free runtime directory'')"
| "attempt_dirs tx (Suc n) base d tag =
     (let dir = base @ ''/'' @ show_04x (unat tag) in
      case sys_mkdir d dir mode_700 of
        (d, Some e) \<Rightarrow>
          if io_kind e = AlreadyExists then attempt_dirs tx n base d ((tag + 1) AND 0xffff)
          else (d, Inl (Thrown (Error_io tx e (''create '' @ dir))))
      | (d, None) \<Rightarrow>
          (let control = dir @ ''/ctl'' in
           case checkSunPath control of
             Inl x \<Rightarrow> (sys_rmdir d dir, Inl x)
           | Inr _ \<Rightarrow> (d, Inr \<lparr>ep_control = ''ipc://'' @ control,
                             ep_events = ''ipc://'' @ dir @ ''/evt'', ep_dir = dir\<rparr>)))"

definition refused :: "io_error option \<Rightarrow> bool" where
  "refused rv = (case rv of None \<Rightarrow> False | Some e \<Rightarrow> io_kind e \<noteq> AlreadyExists)"

definition Endpoints_ctor ::
  "texts \<Rightarrow> cpp_vars \<Rightarrow> u32 \<Rightarrow> u32 \<Rightarrow> disk \<Rightarrow> disk \<times> endpoints throws" where
  "Endpoints_ctor tx vars nsec pid d =
     (let tag = (nsec XOR pid) AND 0xffff; base = base_cpp vars in
      case sys_mkdir d base mode_700 of
        (d, rv) \<Rightarrow>
          if refused rv then (d, Inl (Thrown (Error_io tx (the rv) (''create '' @ base))))
          else (case sys_chmod d base mode_700 of
                  (d, Some e) \<Rightarrow> (d, Inl (Thrown (Error_io tx e (''chmod '' @ base))))
                | (d, None) \<Rightarrow> attempt_dirs tx 64 base d tag))"

text \<open>The destructor; an object that was never built has no directory.\<close>

definition Endpoints_dtor :: "disk \<Rightarrow> endpoints \<Rightarrow> disk" where
  "Endpoints_dtor d e =
     (if ep_dir e = [] then d
      else sys_rmdir (sys_unlink (sys_unlink d (ep_dir e @ ''/ctl'')) (ep_dir e @ ''/evt'')) (ep_dir e))"

section \<open>Sockets: agreement with the Rust crate\<close>

definition ms_of :: "duration option \<Rightarrow> i32" where
  "ms_of d = (case d of None \<Rightarrow> - 1 | Some ns \<Rightarrow> of_nat (ns div 1000000))"

fun c_opt :: "sockopt \<Rightarrow> c_option" where
  "c_opt (RecvMaxSize n) = OPT_RECVMAXSZ n"
| "c_opt (SendTimeout d) = OPT_SENDTIMEO (ms_of d)"
| "c_opt (RecvTimeout d) = OPT_RECVTIMEO (ms_of d)"
| "c_opt (ResendTime d) = OPT_REQ_RESENDTIME (ms_of d)"
| "c_opt (Permissions m) = OPT_IPC_PERMISSIONS m"

text \<open>Both bindings call the same library.\<close>

definition same_lib :: "nng_env \<Rightarrow> nng_lib \<Rightarrow> bool" where
  "same_lib nng lib \<longleftrightarrow> lib_open lib = nng_open nng \<and> lib_dial lib = nng_dial nng
     \<and> lib_listener_create lib = nng_listener nng \<and> lib_listener_start lib = nng_start nng
     \<and> (\<forall>p opt. lib_set lib p (c_opt opt) = nng_set_opt nng p opt)
     \<and> (\<forall>p opt. lib_listener_set lib p (c_opt opt) = nng_listener_opt nng p opt)"

definition nng_ok :: "nng_state \<Rightarrow> bool" where
  "nng_ok ns \<longleftrightarrow> (\<forall>(h, _) \<in> set (ns_sockets ns). h < ns_next ns)
     \<and> (\<forall>l \<in> set (ns_listeners ns). li_id l < ns_next ns \<and> li_socket l < ns_next ns)"

lemma map_other: "\<forall>x \<in> set xs. f x = x \<Longrightarrow> map f xs = xs"
  by (induction xs) auto

lemma set_options_agree:
  assumes "same_lib nng lib" and "\<forall>(h', _) \<in> set ss. h' \<noteq> h"
  shows "\<lbrakk>map fst os = map c_opt opts; ns_sockets ns = ss @ [(h, p, old)]\<rbrakk> \<Longrightarrow>
    \<exists>ns' x new. set_options lib tx p h os ns = (ns', x)
      \<and> same_result tx (=) (set_opts nng p opts) x
      \<and> ns' = ns\<lparr>ns_sockets := ss @ [(h, p, new)]\<rparr>
      \<and> (\<forall>u. x = Inr u \<longrightarrow> new = old @ map c_opt opts)"
proof (induction opts arbitrary: os ns old)
  case Nil
  then show ?case by (cases ns) simp
next
  case (Cons opt opts)
  then obtain ctx os' where os: "os = (c_opt opt, ctx) # os'" "map fst os' = map c_opt opts"
    by (cases os) auto
  show ?case
  proof (cases "nng_set_opt nng p opt")
    case (Some e)
    then have "set_options lib tx p h os ns = (ns, Inl (Thrown (Error_nng tx e ctx)))"
      using assms(1) by (simp add: os set_option_def check_nng_def same_lib_def)
    moreover have "ns = ns\<lparr>ns_sockets := ss @ [(h, p, old)]\<rparr>" using Cons.prems(2) by (cases ns) simp
    ultimately show ?thesis using Some by (auto simp: try_nng_def)
  next
    case None
    let ?ns = "ns\<lparr>ns_sockets := ss @ [(h, p, old @ [c_opt opt])]\<rparr>"
    have "map (\<lambda>(h', q, opts). if h' = h then (h', q, opts @ [c_opt opt]) else (h', q, opts)) ss = ss"
      by (rule map_other) (use assms(2) in auto)
    then have step: "set_options lib tx p h os ns = set_options lib tx p h os' ?ns"
      using None Cons.prems(2) assms(1) by (simp add: os set_option_def check_nng_def same_lib_def)
    have "ns_sockets ?ns = ss @ [(h, p, old @ [c_opt opt])]" by simp
    from Cons.IH [OF os(2) this] None show ?thesis by (auto simp: step try_nng_def)
  qed
qed

lemma rust_socket_options:
  "map fst (socket_options_cpp p) = map c_opt ([RecvMaxSize RECV_MAX_SIZE,
     SendTimeout (Some (from_secs 30))] @ (if p = Req0 then [ResendTime (Some 0)] else []))"
  by (simp add: socket_options_cpp_def ms_of_def from_secs_def SEND_TIMEOUT_MS_def)

text \<open>
  Building a socket: the same error, and then no open handle; or a new handle with the
  Rust crate's options.
\<close>

lemma Socket_ctor_agrees:
  assumes "same_lib nng lib" and "nng_ok ns"
  shows "\<exists>ns' x. Socket_ctor lib tx p ns = (ns', x)
    \<and> same_result tx (\<lambda>opts s. so_open s \<and> so_handle s = ns_next ns
         \<and> ns_sockets ns' = ns_sockets ns @ [(ns_next ns, p, map c_opt opts)]) (build_socket nng p) x
    \<and> ns_listeners ns' = ns_listeners ns \<and> ns_next ns \<le> ns_next ns'
    \<and> (\<forall>e. x = Inl e \<longrightarrow> ns_sockets ns' = ns_sockets ns)"
proof (cases "nng_open nng p")
  case (Some e)
  with assms(1) show ?thesis
    by (auto simp: Socket_ctor_def check_nng_def build_socket_def try_nng_def same_lib_def)
next
  case None
  let ?h = "ns_next ns" and ?opts = "[RecvMaxSize RECV_MAX_SIZE, SendTimeout (Some (from_secs 30))]
    @ (if p = Req0 then [ResendTime (Some 0)] else [])"
  let ?ns = "ns\<lparr>ns_next := ?h + 1, ns_sockets := ns_sockets ns @ [(?h, p, [])]\<rparr>"
  have fresh: "\<forall>(h', _) \<in> set (ns_sockets ns). h' \<noteq> ?h"
    using assms(2) by (auto simp: nng_ok_def)
  have "ns_sockets ?ns = ns_sockets ns @ [(?h, p, [])]" by simp
  from set_options_agree [OF assms(1) fresh rust_socket_options this]
  obtain ns' x new where run: "set_options lib tx p ?h (socket_options_cpp p) ?ns = (ns', x)"
    "same_result tx (=) (set_opts nng p ?opts) x"
    "ns' = ?ns\<lparr>ns_sockets := ns_sockets ns @ [(?h, p, new)]\<rparr>"
    "\<forall>u. x = Inr u \<longrightarrow> new = [] @ map c_opt ?opts" by blast
  have "filter (\<lambda>(h', _). h' \<noteq> ?h) (ns_sockets ns) = ns_sockets ns"
    using fresh by (auto simp: filter_id_conv)
  moreover have "filter (\<lambda>l. li_socket l \<noteq> ?h) (ns_listeners ns) = ns_listeners ns"
    using assms(2) by (auto simp: filter_id_conv nng_ok_def)
  ultimately show ?thesis
    using run None assms(1)
    by (cases x) (auto simp: Socket_ctor_def check_nng_def build_socket_def try_nng_def same_lib_def
        Socket_close_def nng_close_def same_result_iff Let_def)
qed

lemma starts_with_ipc: "starts_with url ''ipc://'' \<longleftrightarrow> take 6 url = ''ipc://''"
proof -
  have "length ''ipc://'' = 6" by simp
  then show ?thesis by (simp only: starts_with_def)
qed

text \<open>Listening: the same error, and then no listener; or one, started, with the same options.\<close>

lemma Socket_listen_agrees:
  assumes "same_lib nng lib" and "nng_ok ns"
  shows "\<exists>ns' x. Socket_listen lib tx p s url ns = (ns', x)
    \<and> same_result tx (\<lambda>opts _. ns_listeners ns' = ns_listeners ns
        @ [\<lparr>li_id = ns_next ns, li_socket = so_handle s, li_url = url, li_opts = map c_opt opts,
            li_started = True\<rparr>]) (listen nng p url) x
    \<and> ns_sockets ns' = ns_sockets ns \<and> ns_next ns \<le> ns_next ns'
    \<and> (\<forall>e. x = Inl e \<longrightarrow> ns_listeners ns' = ns_listeners ns)"
proof -
  have old: "filter (\<lambda>l. li_id l \<noteq> ns_next ns) (ns_listeners ns) = ns_listeners ns"
    "map (\<lambda>l. if li_id l = ns_next ns then f l else l) (ns_listeners ns) = ns_listeners ns" for f
    using assms(2) by (auto simp: filter_id_conv nng_ok_def intro!: map_other)
  have set: "lib_listener_set lib p (OPT_IPC_PERMISSIONS m) = nng_listener_opt nng p (Permissions m)" for m
    using assms(1) by (simp add: same_lib_def flip: c_opt.simps(5))
  show ?thesis
    using assms(1)
    by (auto simp: Socket_listen_def listen_def check_nng_def try_nng_def same_lib_def starts_with_ipc
        set old nng_listener_close_def on_listener_def Let_def split: option.splits)
qed

section \<open>Endpoints: agreement with the Rust crate\<close>

text \<open>
  The file system of the Rust model, of which a disk is a refinement; and the
  environment of the same process, with a runtime directory that is not empty and does
  not end in a slash.
\<close>

definition disk_fs :: "disk \<Rightarrow> fs" where
  "disk_fs d = \<lparr>fs_dirs = map_of (dk_dirs d), fs_umask = dk_umask d, fs_fault = dk_fault d\<rparr>"

definition same_vars :: "env_vars \<Rightarrow> cpp_vars \<Rightarrow> bool" where
  "same_vars env vars \<longleftrightarrow> xdg_runtime_dir env = XDG_RUNTIME_DIR vars
     \<and> temp_dir env = (case TMPDIR vars of Some tmp \<Rightarrow> tmp | None \<Rightarrow> ''/tmp'')
     \<and> plain_dir (unwrap_or (xdg_runtime_dir env) (temp_dir env))"

lemma base_cpp_eq: "same_vars env vars \<Longrightarrow> base_cpp vars = runtime_base env"
  by (auto simp: same_vars_def base_cpp_def runtime_base_def path_join_plain split: option.splits)

text \<open>
  A tidy disk: the operating system refuses nothing, none of the directories in
  question is a file, and what lies inside one of them lies inside a directory that
  exists.
\<close>

definition tidy :: "env_vars \<Rightarrow> disk \<Rightarrow> bool" where
  "tidy env d \<longleftrightarrow> dk_fault d = (\<lambda>_ _. None) \<and> runtime_base env \<notin> set (dk_files d)
     \<and> (\<forall>t. tag_dir env t \<notin> set (dk_files d))
     \<and> (\<forall>p \<in> set (map fst (dk_dirs d) @ dk_files d). \<forall>t. starts_with p (tag_dir env t @ ''/'') \<longrightarrow>
          tag_dir env t \<in> set (map fst (dk_dirs d)))"

lemma map_of_chmod:
  "map_of (map (\<lambda>(p, m). if p = path then (p, mode) else (p, m)) ds)
     = (if path \<in> fst ` set ds then (map_of ds)(path \<mapsto> mode) else map_of ds)"
  by (induction ds) (auto simp: fun_eq_iff)

lemma map_of_remove: "map_of (filter (\<lambda>(p, _). p \<noteq> path) ds) = (map_of ds)(path := None)"
  by (induction ds) (auto simp: fun_eq_iff)

lemma checkSunPath_agrees: "same_result tx (=) (check_sun_path p) (checkSunPath p)"
  by (simp add: check_sun_path_def checkSunPath_def SUN_PATH_LIMIT_def)

text \<open>What the two system calls on the base directory leave.\<close>

definition disk_based :: "env_vars \<Rightarrow> disk \<Rightarrow> disk \<Rightarrow> bool" where
  "disk_based env d0 d \<longleftrightarrow> disk_fs d = with_base env (disk_fs d0) \<and> dk_files d = dk_files d0"

lemma based_dirs:
  "disk_based env d0 d \<Longrightarrow> base_ready env (disk_fs d0) \<Longrightarrow>
   p \<in> fst ` set (dk_dirs d) \<longleftrightarrow> p = runtime_base env \<or> p \<in> fst ` set (dk_dirs d0)"
proof -
  assume "disk_based env d0 d" "base_ready env (disk_fs d0)"
  then have "map_of (dk_dirs d) = (map_of (dk_dirs d0))(runtime_base env \<mapsto> mode_700)"
    by (simp add: disk_based_def with_base_ready) (simp add: disk_fs_def)
  then have "dom (map_of (dk_dirs d)) = insert (runtime_base env) (dom (map_of (dk_dirs d0)))" by simp
  then show ?thesis by (simp add: dom_map_of_conv_image_fst)
qed

lemma disk_based_simps:
  assumes "disk_based env d0 d"
  shows "dk_umask d = dk_umask d0" "dk_fault d = dk_fault d0" "dk_files d = dk_files d0"
    "map_of (dk_dirs d) = fs_dirs (with_base env (disk_fs d0))"
proof -
  have parts: "fs_dirs (disk_fs e) = map_of (dk_dirs e)" "fs_umask (disk_fs e) = dk_umask e"
    "fs_fault (disk_fs e) = dk_fault e" for e
    by (simp_all add: disk_fs_def)
  from assms have eq: "disk_fs d = with_base env (disk_fs d0)" by (simp add: disk_based_def)
  show "dk_umask d = dk_umask d0" using arg_cong [OF eq, of fs_umask] by (simp add: parts)
  show "dk_fault d = dk_fault d0" using arg_cong [OF eq, of fs_fault] by (simp add: parts)
  show "dk_files d = dk_files d0" using assms by (simp add: disk_based_def)
  show "map_of (dk_dirs d) = fs_dirs (with_base env (disk_fs d0))"
    using arg_cong [OF eq, of fs_dirs] by (simp add: parts)
qed

lemma tag_not_below_base: "\<not> starts_with (runtime_base env) (tag_dir env t @ ''/'')"
  by (auto simp: tag_dir_form dest!: starts_with_length)

lemma with_base_with_dir: "with_base env (with_dir env fs t) = with_dir env fs t"
proof -
  have "fs_dirs (with_dir env fs t) (runtime_base env) = Some mode_700"
    by (simp add: with_dir_def Let_def) (simp add: with_base_def)
  then show ?thesis by (simp add: with_base_present fun_upd_idem)
qed

lemma attempt_dirs_agrees:
  assumes "tidy env d0" and base: "base = runtime_base env" and ready: "base_ready env (disk_fs d0)"
  shows "disk_based env d0 d \<Longrightarrow> fs = disk_fs d0 \<or> fs = with_base env (disk_fs d0) \<Longrightarrow>
    \<exists>fs' r d' x. new_loop n env fs tag = (fs', r) \<and> attempt_dirs tx n base d tag = (d', x)
      \<and> same_result tx (=) r x \<and> dk_files d' = dk_files d0
      \<and> disk_fs d' = (if too_long r then with_base env (disk_fs d0) else with_base env fs')
      \<and> (too_long r \<longrightarrow> (\<exists>t. fs_dirs (disk_fs d0) (tag_dir env t) = None \<and> fs_dirs fs' (tag_dir env t) \<noteq> None))"
proof (induction n arbitrary: fs tag)
  case 0
  then show ?case by (auto simp: disk_based_def too_long_def)
next
  case (Suc n)
  let ?dir = "tag_dir env tag" and ?base = "with_base env (disk_fs d0)"
  have dir: "base @ ''/'' @ show_04x (unat tag) = ?dir" by (simp add: base tag_dir_form)
  have ctl: "path_join ?dir ''ctl'' = ?dir @ ''/ctl''" by (simp add: path_in_tag_dir)
  have faults: "dk_fault d = (\<lambda>_ _. None)" "no_faults fs"
    and files: "?dir \<notin> set (dk_files d)"
    using assms(1) Suc.prems disk_based_simps [OF Suc.prems(1)]
    by (auto simp: tidy_def no_faults_def) (auto simp: disk_fs_def)
  have "fs_dirs (disk_fs d0) = map_of (dk_dirs d0)" "fs_umask (disk_fs d0) = dk_umask d0"
    by (simp_all add: disk_fs_def)
  then have eqs: "fs_dirs fs ?dir = map_of (dk_dirs d0) ?dir" "with_base env fs = ?base"
    "fs_umask fs = dk_umask d0" "dk_umask d = dk_umask d0"
    using Suc.prems(2) disk_based_simps(1) [OF Suc.prems(1)] by auto
  have parent: "dir_known (disk_map d) (parent_dir ?dir)"
    using disk_based_simps(4) [OF Suc.prems(1)] by (simp add: dir_known_def disk_map_def) (simp add: with_base_def)
  note rust = create_endpoints_run [OF faults(2), of env tag]
  have exists: "?dir \<in> fst ` set (dk_dirs d) \<longleftrightarrow> map_of (dk_dirs d0) ?dir \<noteq> None"
    using based_dirs [OF Suc.prems(1) ready, of ?dir] by (simp add: map_of_eq_None_iff)
  show ?case
  proof (cases "map_of (dk_dirs d0) ?dir")
    case (Some m)
    then have "new_loop (Suc n) env fs tag = new_loop n env ?base ((tag + 1) AND 0xffff)"
      using rust eqs by (simp add: already_exists_def)
    moreover have "attempt_dirs tx (Suc n) base d tag = attempt_dirs tx n base d ((tag + 1) AND 0xffff)"
      using Some exists faults dir by (simp add: sys_mkdir_def already_exists_def Let_def)
    ultimately show ?thesis using Suc.IH [OF Suc.prems(1), of ?base] by simp
  next
    case None
    have made: "create_endpoints env fs tag = (with_dir env fs tag,
        rbind (check_sun_path (?dir @ ''/ctl'')) (\<lambda>_. Inr (endpoints_at env tag)))"
      using rust eqs None ctl by simp
    let ?d = "d\<lparr>dk_dirs := (?dir, mode_700 AND NOT (dk_umask d)) # dk_dirs d\<rparr>"
    have mk: "sys_mkdir d ?dir mode_700 = (?d, None)"
      using None exists faults files parent by (simp add: sys_mkdir_def)
    have d': "disk_fs ?d = with_dir env fs tag"
      using Suc.prems(1) eqs disk_based_simps [OF Suc.prems(1)]
      by (simp add: disk_based_def with_dir_def Let_def) (simp add: disk_fs_def with_base_def)
    have again: "with_base env (with_dir env fs tag) = with_dir env fs tag"
      by (rule with_base_with_dir)
    show ?thesis
    proof (cases "103 < length (?dir @ ''/ctl'')")
      case True
      have "\<not> starts_with p (?dir @ ''/'')" if "p \<in> set (map fst (dk_dirs ?d) @ dk_files ?d)" for p
      proof
        assume inside: "starts_with p (?dir @ ''/'')"
        from that Suc.prems(1) have "p = ?dir \<or> p = runtime_base env \<or> p \<in> set (map fst (dk_dirs d0) @ dk_files d0)"
          using based_dirs [OF Suc.prems(1) ready, of p] by (auto simp: disk_based_def)
        moreover have "p \<noteq> ?dir" using inside by (auto dest!: starts_with_length)
        moreover have "p \<noteq> runtime_base env" using inside tag_not_below_base by blast
        ultimately have "?dir \<in> set (map fst (dk_dirs d0))"
          using assms(1) inside by (auto simp: tidy_def)
        with None show False by (simp add: map_of_eq_None_iff)
      qed
      then have "sys_rmdir ?d ?dir = ?d\<lparr>dk_dirs := filter (\<lambda>(p, _). p \<noteq> ?dir) (dk_dirs ?d)\<rparr>"
        using faults(1) by (simp add: sys_rmdir_def del: append_Cons)
      moreover have "filter (\<lambda>(p, _). p \<noteq> ?dir) (dk_dirs d) = dk_dirs d"
        using None exists by (auto simp: filter_id_conv image_iff)
      ultimately have rm: "sys_rmdir ?d ?dir = d" by simp
      let ?e = "Protocol (SocketPathTooLong (length (?dir @ ''/ctl'')) (?dir @ ''/ctl''))"
      have rust_err: "check_sun_path (?dir @ ''/ctl'') = Inl ?e"
        using True by (simp add: check_sun_path_def SUN_PATH_LIMIT_def)
      then obtain y where cpp_err: "checkSunPath (?dir @ ''/ctl'') = Inl y" "same_error tx ?e y"
        using checkSunPath_agrees [of tx "?dir @ ''/ctl''"]
        by (cases "checkSunPath (?dir @ ''/ctl'')") (simp_all only: same_result_simps)
      have rl: "new_loop (Suc n) env fs tag = (with_dir env fs tag, Inl ?e)"
        by (simp only: new_loop.simps made rust_err rbind.simps) simp
      have cl: "attempt_dirs tx (Suc n) base d tag = (d, Inl y)"
        by (simp only: attempt_dirs.simps Let_def dir mk cpp_err(1) rm) (simp add: cpp_err(1) rm)
      have leak: "fs_dirs (disk_fs d0) ?dir = None \<and> fs_dirs (with_dir env fs tag) ?dir \<noteq> None"
        using None by (simp add: with_dir_def Let_def disk_fs_def)
      have long: "too_long (Inl ?e :: endpoints result)" by (simp add: too_long_def)
      show ?thesis
        by (intro exI conjI impI, rule rl, rule cl)
          (use Suc.prems(1) leak long cpp_err(2) in
            \<open>auto simp: disk_based_def simp del: same_error.simps\<close>)
    next
      case False
      then have "new_loop (Suc n) env fs tag = (with_dir env fs tag, Inr (endpoints_at env tag))"
        by (simp add: made check_sun_path_def SUN_PATH_LIMIT_def)
      moreover have "attempt_dirs tx (Suc n) base d tag = (?d, Inr (endpoints_at env tag))"
        using False mk dir by (simp add: checkSunPath_def Let_def endpoints_at_def path_in_tag_dir)
      ultimately show ?thesis
        using Suc.prems(1) d' again by (simp add: too_long_def disk_based_def)
    qed
  qed
qed

lemma new_loop_based:
  "no_faults fs \<Longrightarrow> with_base env (fst (new_loop (Suc n) env fs tag)) = fst (new_loop (Suc n) env fs tag)"
proof (induction n arbitrary: fs tag)
  case 0
  then show ?case
    by (auto simp: create_endpoints_run with_base_with_dir check_sun_path_def already_exists_def)
next
  case (Suc n)
  note step = create_endpoints_run [OF Suc.prems, of env tag]
  show ?case
  proof (cases "fs_dirs fs (tag_dir env tag)")
    case (Some m)
    then have "new_loop (Suc (Suc n)) env fs tag = new_loop (Suc n) env (with_base env fs) ((tag + 1) AND 0xffff)"
      by (subst new_loop.simps) (simp add: step already_exists_def)
    moreover have "no_faults (with_base env fs)" using Suc.prems by (simp add: no_faults_def)
    ultimately show ?thesis using Suc.IH by metis
  next
    case None
    then have "fst (new_loop (Suc (Suc n)) env fs tag) = with_dir env fs tag"
      by (subst new_loop.simps) (simp add: step check_sun_path_def)
    then show ?thesis by (simp only: with_base_with_dir)
  qed
qed

lemma Endpoints_ctor_agrees:
  assumes "same_vars env vars" and "tidy env d"
    and "Endpoints_ctor tx vars now pid d = (d', x)"
    and "new_endpoints env now pid (disk_fs d) = (fs', r)"
    and ready: "base_ready env (disk_fs d)"
  shows "same_result tx (=) r x" and "dk_files d' = dk_files d"
    and "disk_fs d' = (if too_long r then with_base env (disk_fs d) else fs')"
    and "too_long r \<Longrightarrow> \<exists>t. fs_dirs (disk_fs d) (tag_dir env t) = None \<and> fs_dirs fs' (tag_dir env t) \<noteq> None"
proof -
  let ?base = "runtime_base env"
  from assms(2) have faults: "dk_fault d = (\<lambda>_ _. None)" and files: "?base \<notin> set (dk_files d)"
    by (auto simp: tidy_def)
  obtain d1 where d1: "disk_based env d d1"
    and ctor: "Endpoints_ctor tx vars now pid d = attempt_dirs tx 64 ?base d1 ((now XOR pid) AND 0xffff)"
  proof (cases "?base \<in> fst ` set (dk_dirs d)")
    case True
    then show thesis
      using faults files
      by (intro that [of "d\<lparr>dk_dirs := map (\<lambda>(p, m). if p = ?base then (p, mode_700) else (p, m)) (dk_dirs d)\<rparr>"])
        (simp_all add: disk_based_def with_base_ready [OF ready], simp_all add: disk_fs_def map_of_chmod
          Endpoints_ctor_def base_cpp_eq [OF assms(1)] sys_mkdir_def sys_chmod_def refused_def
          already_exists_def Let_def)
  next
    case False
    then have "map_of (map (\<lambda>(p, m). if p = ?base then (p, mode_700) else (p, m)) (dk_dirs d)) = map_of (dk_dirs d)"
      by (simp add: map_of_chmod)
    moreover have "dir_known (disk_map d) (parent_dir ?base)"
      using ready False map_of_eq_None_iff [of "dk_dirs d" ?base]
      by (auto simp: base_ready_def disk_fs_def disk_map_def)
    ultimately show thesis
      using faults files False
      by (intro that [of "d\<lparr>dk_dirs := (?base, mode_700)
            # map (\<lambda>(p, m). if p = ?base then (p, mode_700) else (p, m)) (dk_dirs d)\<rparr>"])
        (simp_all add: disk_based_def with_base_ready [OF ready], simp_all add: disk_fs_def
          Endpoints_ctor_def base_cpp_eq [OF assms(1)] sys_mkdir_def sys_chmod_def refused_def Let_def)
  qed
  have "no_faults (disk_fs d)" using faults by (simp add: no_faults_def disk_fs_def)
  moreover have "(64 :: nat) = Suc 63" by simp
  ultimately have based: "with_base env fs' = fs'"
    using new_loop_based [of "disk_fs d" env 63 "(now XOR pid) AND 0xffff"] assms(4)
    by (metis fst_conv new_endpoints_def)
  from attempt_dirs_agrees [where tx = tx and n = 64 and tag = "(now XOR pid) AND 0xffff",
      OF assms(2) refl ready d1 disjI1 [OF refl]] assms(3,4) ctor based
  show "same_result tx (=) r x" "dk_files d' = dk_files d"
    "disk_fs d' = (if too_long r then with_base env (disk_fs d) else fs')"
    "too_long r \<Longrightarrow> \<exists>t. fs_dirs (disk_fs d) (tag_dir env t) = None \<and> fs_dirs fs' (tag_dir env t) \<noteq> None"
    by (auto simp: new_endpoints_def)
qed

text \<open>
  Where the parent of the base directory is missing, \<open>mkdir\<close> refuses the base directory
  and the recursive \<open>DirBuilder\<close> of the Rust crate makes it with its ancestors.
\<close>

definition way_clear :: "env_vars \<Rightarrow> disk \<Rightarrow> bool" where
  "way_clear env d \<longleftrightarrow> (\<forall>p \<in> set (dk_files d). \<not> starts_with (runtime_base env) (p @ ''/''))"

lemma Endpoints_ctor_no_parent:
  assumes "same_vars env vars" and "tidy env d" and missing: "\<not> base_ready env (disk_fs d)"
  shows "\<exists>e. Endpoints_ctor tx vars now pid d
      = (d, Inl (Thrown (Error_io tx e (''create '' @ runtime_base env))))
    \<and> (way_clear env d \<longrightarrow> e = no_entry)"
proof -
  let ?base = "runtime_base env"
  have absent: "?base \<notin> set (map fst (dk_dirs d))" "\<not> dir_known (disk_map d) (parent_dir ?base)"
    using missing map_of_eq_None_iff [of "dk_dirs d" ?base]
    by (auto simp: base_ready_def disk_fs_def disk_map_def)
  then have "starts_with ?base (parent_dir ?base @ ''/'')"
    by (intro parent_dir_prefix) (simp add: dir_known_def)
  then have "way_clear env d \<Longrightarrow> parent_dir ?base \<notin> set (dk_files d)" by (auto simp: way_clear_def)
  moreover define e where
    "e = (if parent_dir ?base \<in> set (dk_files d) then not_a_directory else no_entry)"
  moreover have "sys_mkdir d ?base mode_700 = (d, Some e)"
    using assms(2) absent by (simp add: tidy_def sys_mkdir_def e_def)
  moreover have "refused (Some e)" by (simp add: refused_def e_def not_a_directory_def no_entry_def)
  ultimately show ?thesis
    by (intro exI [of _ e]) (simp add: Endpoints_ctor_def base_cpp_eq [OF assms(1)] Let_def)
qed

lemma new_loop_no_Io: "no_faults fs \<Longrightarrow> snd (new_loop n env fs tag) \<noteq> Inl (Io e)"
proof (induction n arbitrary: fs tag)
  case (Suc n)
  then have "no_faults (with_base env fs)" by (simp add: no_faults_def)
  from Suc.IH [OF this] show ?case
    by (simp add: create_endpoints_run [OF Suc.prems] check_sun_path_def already_exists_def)
qed simp

lemma new_endpoints_no_parent:
  assumes "tidy env d" and "new_endpoints env now pid (disk_fs d) = (fs', r)"
  shows "r \<noteq> Inl (Io e)"
    and "fs_dirs (disk_fs d) (tag_dir env ((now XOR pid) AND 0xffff)) = None \<Longrightarrow>
      length (runtime_base env) \<le> 94 \<Longrightarrow> r = Inr (endpoints_at env ((now XOR pid) AND 0xffff))"
proof -
  have faults: "no_faults (disk_fs d)" using assms(1) by (simp add: no_faults_def disk_fs_def tidy_def)
  show "r \<noteq> Inl (Io e)"
    using new_loop_no_Io [OF faults, of 64 env "(now XOR pid) AND 0xffff" e] assms(2)
    by (simp add: new_endpoints_def)
  show "fs_dirs (disk_fs d) (tag_dir env ((now XOR pid) AND 0xffff)) = None \<Longrightarrow>
      length (runtime_base env) \<le> 94 \<Longrightarrow> r = Inr (endpoints_at env ((now XOR pid) AND 0xffff))"
    using new_endpoints_first [OF faults, of env now pid] assms(2) by simp
qed

text \<open>
  The destructor takes down what the constructor made, the two socket files included.
\<close>

lemma Endpoints_dtor_agrees:
  assumes "tidy env d" and "new_endpoints env now pid (disk_fs d) = (fs', Inr e)"
    and "disk_fs d' = fs'" and "dk_files d' = dk_files d @ made"
    and "set made \<subseteq> {ep_dir e @ ''/ctl'', ep_dir e @ ''/evt''}"
  shows "fs_dirs (disk_fs (Endpoints_dtor d' e)) = fs_dirs (drop_endpoints fs' e)"
    and "dk_files (Endpoints_dtor d' e) = dk_files d"
proof -
  obtain t where free: "fs_dirs (disk_fs d) (tag_dir env t) = None"
    and fs': "fs' = with_dir env (disk_fs d) t" and e: "e = endpoints_at env t"
    by (rule new_endpoints_Inr [OF assms(2)])
  let ?dir = "tag_dir env t"
  have faults: "dk_fault d' = (\<lambda>_ _. None)" "fs_fault fs' = (\<lambda>_ _. None)"
    using arg_cong [OF assms(3), of fs_fault] assms(1)
    by (auto simp: fs' with_dir_def Let_def) (auto simp: disk_fs_def tidy_def)
  from free have "?dir \<notin> set (map fst (dk_dirs d))" by (simp add: disk_fs_def map_of_eq_None_iff)
  with assms(1) have outside: "\<not> starts_with p (?dir @ ''/'')"
    if "p \<in> set (map fst (dk_dirs d) @ dk_files d)" for p
    using that by (auto simp: tidy_def)
  have inside: "starts_with (?dir @ ''/'' @ f) (?dir @ ''/'')" for f
    by (simp add: starts_with_def)
  then have not_old: "?dir @ ''/'' @ f \<notin> set (dk_files d)" for f using outside by force
  let ?d = "sys_unlink (sys_unlink d' (?dir @ ''/ctl'')) (?dir @ ''/evt'')"
  have dir: "ep_dir e = ?dir" by (simp add: e endpoints_at_def)
  have files: "dk_files ?d = dk_files d"
  proof -
    let ?P = "\<lambda>x. x \<noteq> ?dir @ ''/ctl'' \<and> x \<noteq> ?dir @ ''/evt''"
    have "filter ?P (dk_files d) = dk_files d"
      using not_old [of "''ctl''"] not_old [of "''evt''"] by (intro filter_True) auto
    moreover have "filter ?P made = []" using assms(5) by (intro filter_False) (auto simp: dir)
    ultimately show ?thesis by (simp only: sys_unlink_def assms(4)) (simp add: assms(4) dir)
  qed
  have all: "\<not> starts_with p (?dir @ ''/'')" if some: "fs_dirs fs' p \<noteq> None" for p
  proof
    assume inside: "starts_with p (?dir @ ''/'')"
    then have "p \<noteq> ?dir" by (auto dest!: starts_with_length)
    moreover have "p \<noteq> runtime_base env" using inside tag_not_below_base [of env t] by blast
    ultimately have p: "p \<noteq> ?dir" "p \<noteq> runtime_base env" .
    have "\<not> starts_with (runtime_base env) (p @ ''/'')"
      using inside by (auto simp: starts_with_split tag_dir_form)
    with with_dir_other [OF p(2,1), of "disk_fs d"] some have "fs_dirs (disk_fs d) p \<noteq> None"
      by (auto simp: fs' undisturbed_def ancestor_made_def)
    then have "p \<in> set (map fst (dk_dirs d))" by (simp add: disk_fs_def map_of_eq_None_iff)
    with inside outside show False by simp
  qed
  have "fs_dirs fs' p \<noteq> None \<longleftrightarrow> p \<in> set (map fst (dk_dirs ?d))" for p
    using assms(3) map_of_eq_None_iff [of "dk_dirs d'" p] by (auto simp: sys_unlink_def disk_fs_def)
  then have empty: "\<not> (\<exists>p \<in> set (map fst (dk_dirs ?d) @ dk_files ?d). starts_with p (?dir @ ''/''))"
    using all outside files by auto
  have rm: "sys_rmdir ?d ?dir = ?d\<lparr>dk_dirs := filter (\<lambda>(p, _). p \<noteq> ?dir) (dk_dirs ?d)\<rparr>"
  proof -
    have "dk_fault ?d = (\<lambda>_ _. None)" using faults by (simp add: sys_unlink_def)
    then show ?thesis unfolding sys_rmdir_def using empty by (simp only: if_False) simp
  qed
  have dtor: "Endpoints_dtor d' e = ?d\<lparr>dk_dirs := filter (\<lambda>(p, _). p \<noteq> ?dir) (dk_dirs ?d)\<rparr>"
    using last_tag_dir [of env t] rm by (simp add: Endpoints_dtor_def dir)
  show "dk_files (Endpoints_dtor d' e) = dk_files d" using files by (simp add: dtor)
  have "map_of (dk_dirs d') = fs_dirs fs'" using assms(3) by (auto simp: disk_fs_def)
  moreover have "starts_with p (?dir @ ''/'') \<Longrightarrow> fs_dirs fs' p = None" for p using all by blast
  ultimately show "fs_dirs (disk_fs (Endpoints_dtor d' e)) = fs_dirs (drop_endpoints fs' e)"
    using faults
    by (auto simp: dtor disk_fs_def map_of_remove sys_unlink_def drop_endpoints_def
        remove_dir_all_def dir fun_eq_iff)
qed

section \<open>Properties\<close>


definition deep_vars :: cpp_vars where
  "deep_vars = \<lparr>XDG_RUNTIME_DIR = xdg_runtime_dir deep_env, TMPDIR = None\<rparr>"

definition bare_disk :: "string \<Rightarrow> disk" where
  "bare_disk dir = \<lparr>dk_dirs = [(dir, 0x1C0)], dk_files = [], dk_umask = 0x12, dk_fault = (\<lambda>_ _. None)\<rparr>"


text \<open>
  Sockets are opened and listen alike in both bindings: over the same library the
  same call fails with the same error of nng, and otherwise the socket carries the same
  options and the listener the same permissions.  A C++ socket or listener that could not
  be set up is closed again: whatever fails, the library has no socket and no listener
  more than before.
\<close>

lemma sockets_agree:
  assumes "same_lib nng lib" and "nng_ok ns"
  shows "(case Socket_ctor lib tx p ns of (ns', x) \<Rightarrow>
      same_result tx (\<lambda>opts s. so_open s \<and> ns_sockets ns' = ns_sockets ns @ [(so_handle s, p, map c_opt opts)])
        (build_socket nng p) x
      \<and> ((\<exists>e. x = Inl e) \<longrightarrow> ns_sockets ns' = ns_sockets ns) \<and> ns_listeners ns' = ns_listeners ns)
    \<and> (case Socket_listen lib tx p s url ns of (ns', x) \<Rightarrow>
      same_result tx (\<lambda>opts _. ns_listeners ns' = ns_listeners ns
          @ [\<lparr>li_id = ns_next ns, li_socket = so_handle s, li_url = url, li_opts = map c_opt opts,
              li_started = True\<rparr>]) (listen nng p url) x
      \<and> ((\<exists>e. x = Inl e) \<longrightarrow> ns_listeners ns' = ns_listeners ns) \<and> ns_sockets ns' = ns_sockets ns)"
proof (intro conjI)
  from Socket_ctor_agrees [OF assms, of tx p] show "case Socket_ctor lib tx p ns of (ns', x) \<Rightarrow>
      same_result tx (\<lambda>opts s. so_open s \<and> ns_sockets ns' = ns_sockets ns @ [(so_handle s, p, map c_opt opts)])
        (build_socket nng p) x
      \<and> ((\<exists>e. x = Inl e) \<longrightarrow> ns_sockets ns' = ns_sockets ns) \<and> ns_listeners ns' = ns_listeners ns"
    by (auto elim!: same_result_cases)
  from Socket_listen_agrees [OF assms, of tx p s url] show "case Socket_listen lib tx p s url ns of (ns', x) \<Rightarrow>
      same_result tx (\<lambda>opts _. ns_listeners ns' = ns_listeners ns
          @ [\<lparr>li_id = ns_next ns, li_socket = so_handle s, li_url = url, li_opts = map c_opt opts,
              li_started = True\<rparr>]) (listen nng p url) x
      \<and> ((\<exists>e. x = Inl e) \<longrightarrow> ns_listeners ns' = ns_listeners ns) \<and> ns_sockets ns' = ns_sockets ns"
    by auto
qed

text \<open>A library that refuses the last option of a request socket.\<close>

definition picky_lib :: nng_lib where
  "picky_lib = \<lparr>lib_open = (\<lambda>_. None),
     lib_set = (\<lambda>_ opt. if opt = OPT_REQ_RESENDTIME 0 then Some (OtherNng 9) else None),
     lib_listener_create = (\<lambda>_ _. None), lib_listener_set = (\<lambda>_ _. None),
     lib_listener_start = (\<lambda>_ _. None), lib_dial = (\<lambda>_ _. None)\<rparr>"

definition picky_nng :: nng_env where
  "picky_nng = example_nng\<lparr>nng_set_opt := (\<lambda>p opt. lib_set picky_lib p (c_opt opt))\<rparr>"

definition fresh_nng :: nng_state where
  "fresh_nng = \<lparr>ns_next = 0, ns_sockets = [], ns_listeners = []\<rparr>"

lemma sockets_agree_witness:
  "\<exists>ns' e. Socket_ctor picky_lib example_texts Req0 fresh_nng = (ns', Inl e) \<and> ns_sockets ns' = []
     \<and> build_socket picky_nng Req0 = Inl (Nng (OtherNng 9))"
proof -
  have lib: "same_lib picky_nng picky_lib"
    by (simp add: same_lib_def picky_nng_def picky_lib_def example_nng_def)
  have ok: "nng_ok fresh_nng" by (simp add: nng_ok_def fresh_nng_def)
  obtain ns' x where ctor: "Socket_ctor picky_lib example_texts Req0 fresh_nng = (ns', x)" by fastforce
  have rust: "build_socket picky_nng Req0 = Inl (Nng (OtherNng 9))"
    by (simp add: build_socket_def picky_nng_def picky_lib_def example_nng_def try_nng_def ms_of_def)
  from sockets_agree [OF lib ok, of example_texts Req0 Socket_empty "''ipc:///ctl''"] ctor rust
  have "\<exists>e. x = Inl e" "ns_sockets ns' = ns_sockets fresh_nng"
    by (auto elim!: same_result_cases)
  with ctor rust show ?thesis by (auto simp: fresh_nng_def)
qed

text \<open>
  A timeout of less than 2^31 milliseconds reaches nng as it was given, as the Rust
  crate's does; a longer one is cut to 32 bits, so that 2^32 milliseconds do not wait at all
  and one less waits for ever.
\<close>

lemma timeouts_are_cut:
  "0 \<le> t \<Longrightarrow> t < 2 ^ 31 \<Longrightarrow>
     sint (nng_ms (Some t)) = t \<and> nng_ms (Some t) = ms_of (Some (nat t * 1000000))"
  "nng_ms (Some (2 ^ 32)) = 0" "nng_ms (Some (2 ^ 32 - 1)) = nng_ms None"
proof -
  assume "0 \<le> t" "t < 2 ^ 31"
  then have "sint (word_of_int t :: i32) = t" 
    by (simp add: sint_sbintrunc' signed_take_bit_int_eq_self)
  then show "sint (nng_ms (Some t)) = t \<and> nng_ms (Some t) = ms_of (Some (nat t * 1000000))"
    using \<open>0 \<le> t\<close> by (simp add: nng_ms_def ms_of_def)
qed (simp_all add: nng_ms_def)

end
