(* ===== verification/OCP_CppSpawn.thy ===== *)
theory OCP_CppSpawn
  imports OCP_Prelude OCP_CppError
begin

text \<open>
  \<open>spawnPlugin\<close> of \<open>cpp/src/client.cpp\<close> over a model of the kernel objects it touches:
  processes with their descriptor tables, pipes, \<open>fork\<close>, \<open>exec\<close> and \<open>waitpid\<close>; what
  a launch leaves behind, and which descriptors a plugin inherits.
\<close>

section \<open>The kernel\<close>

text \<open>
  A descriptor is an end of a pipe or another file, with its close-on-exec flag.  A
  process is its descriptor table, the argv it runs, whether it is alive, and whether it
  is stuck: a stuck plugin reads its standard input no more and does not exit by itself.
\<close>

datatype open_file = ReadEnd nat | WriteEnd nat | OtherFile

record fd_entry =
  fe_file :: open_file
  fe_cloexec :: bool

type_synonym fd_table = "(nat \<times> fd_entry) list"

record process =
  pr_fds :: fd_table
  pr_argv :: "string list"
  pr_alive :: bool
  pr_stuck :: bool

text \<open>
  The processes by pid, each below \<open>k_next_pid\<close>; the numbers of the next pipe and the next process, and the
  errnos written into pipes and not read yet.
\<close>

record kernel =
  k_procs :: "nat \<rightharpoonup> process"
  k_next_pipe :: nat
  k_next_pid :: nat
  k_written :: "(nat \<times> io_error) list"

text \<open>What the operating system refuses, and which of the started processes get stuck.\<close>

record os =
  os_pipe :: "nat \<Rightarrow> io_error option"
  os_fork :: "nat \<Rightarrow> io_error option"
  os_exec :: "string list \<Rightarrow> io_error option"
  os_stuck :: "nat \<Rightarrow> bool"

definition on_proc :: "nat \<Rightarrow> (process \<Rightarrow> process) \<Rightarrow> kernel \<Rightarrow> kernel" where
  "on_proc pid f k = k\<lparr>k_procs := (k_procs k)(pid := map_option f (k_procs k pid))\<rparr>"

definition fds_of :: "kernel \<Rightarrow> nat \<Rightarrow> fd_table" where
  "fds_of k pid = (case k_procs k pid of None \<Rightarrow> [] | Some pr \<Rightarrow> pr_fds pr)"

text \<open>The lowest number that is free, which is the one a new descriptor gets.\<close>

definition free_fd :: "fd_table \<Rightarrow> nat" where
  "free_fd tbl = hd (filter (\<lambda>n. n \<notin> set (map fst tbl)) [0..<Suc (length tbl)])"

definition sys_pipe :: "os \<Rightarrow> nat \<Rightarrow> kernel \<Rightarrow> kernel \<times> (io_error + nat \<times> nat)" where
  "sys_pipe os pid k =
     (let p = k_next_pipe k in
      case os_pipe os p of
        Some e \<Rightarrow> (k, Inl e)
      | None \<Rightarrow>
          (let tbl = fds_of k pid; r = free_fd tbl;
               tbl = tbl @ [(r, \<lparr>fe_file = ReadEnd p, fe_cloexec = False\<rparr>)]; w = free_fd tbl;
               tbl = tbl @ [(w, \<lparr>fe_file = WriteEnd p, fe_cloexec = False\<rparr>)]
           in ((on_proc pid (\<lambda>pr. pr\<lparr>pr_fds := tbl\<rparr>) k)\<lparr>k_next_pipe := p + 1\<rparr>, Inr (r, w))))"

definition sys_close :: "nat \<Rightarrow> nat \<Rightarrow> kernel \<Rightarrow> kernel" where
  "sys_close pid fd k = on_proc pid (\<lambda>pr. pr\<lparr>pr_fds := filter (\<lambda>(n, _). n \<noteq> fd) (pr_fds pr)\<rparr>) k"

text \<open>\<open>fcntl(fd, F_SETFD, FD_CLOEXEC)\<close>\<close>

definition sys_cloexec :: "nat \<Rightarrow> nat \<Rightarrow> kernel \<Rightarrow> kernel" where
  "sys_cloexec pid fd k = on_proc pid (\<lambda>pr. pr\<lparr>pr_fds :=
     map (\<lambda>(n, e). (n, if n = fd then e\<lparr>fe_cloexec := True\<rparr> else e)) (pr_fds pr)\<rparr>) k"

text \<open>
  \<open>dup2(old, new)\<close> does nothing when the two are the same; otherwise \<open>new\<close> is closed
  and opened as a copy without the close-on-exec flag.
\<close>

definition sys_dup2 :: "nat \<Rightarrow> nat \<Rightarrow> nat \<Rightarrow> kernel \<Rightarrow> kernel" where
  "sys_dup2 pid old new k =
     (case map_of (fds_of k pid) old of
        None \<Rightarrow> k
      | Some e \<Rightarrow>
          if old = new then k
          else on_proc pid (\<lambda>pr. pr\<lparr>pr_fds := filter (\<lambda>(n, _). n \<noteq> new) (pr_fds pr)
                 @ [(new, e\<lparr>fe_cloexec := False\<rparr>)]\<rparr>) k)"

definition sys_fork :: "os \<Rightarrow> nat \<Rightarrow> kernel \<Rightarrow> kernel \<times> (io_error + nat)" where
  "sys_fork os pid k =
     (let c = k_next_pid k in
      case os_fork os c of
        Some e \<Rightarrow> (k, Inl e)
      | None \<Rightarrow> (k\<lparr>k_next_pid := c + 1, k_procs := (k_procs k)
                   (c \<mapsto> \<lparr>pr_fds = fds_of k pid, pr_argv = [], pr_alive = True, pr_stuck = False\<rparr>)\<rparr>,
                 Inr c))"

definition sys_exec :: "os \<Rightarrow> nat \<Rightarrow> string list \<Rightarrow> kernel \<Rightarrow> kernel \<times> io_error option" where
  "sys_exec os pid argv k =
     (case os_exec os argv of
        Some e \<Rightarrow> (k, Some e)
      | None \<Rightarrow> (on_proc pid (\<lambda>pr. pr\<lparr>pr_fds := filter (\<lambda>(_, e). \<not> fe_cloexec e) (pr_fds pr),
                   pr_argv := argv, pr_stuck := os_stuck os pid\<rparr>) k, None))"

text \<open>\<open>_exit\<close>, and every other end of a process, closes its descriptors.\<close>

definition sys_exit :: "nat \<Rightarrow> kernel \<Rightarrow> kernel" where
  "sys_exit pid k = on_proc pid (\<lambda>pr. pr\<lparr>pr_fds := [], pr_alive := False\<rparr>) k"

definition sys_write :: "nat \<Rightarrow> nat \<Rightarrow> io_error \<Rightarrow> kernel \<Rightarrow> kernel" where
  "sys_write pid fd e k =
     (case map_of (fds_of k pid) fd of
        Some en \<Rightarrow> (case fe_file en of WriteEnd p \<Rightarrow> k\<lparr>k_written := k_written k @ [(p, e)]\<rparr> | _ \<Rightarrow> k)
      | None \<Rightarrow> k)"

text \<open>A pipe is at end of file when nobody can write into it any more.\<close>

definition writes :: "kernel \<Rightarrow> nat \<Rightarrow> nat \<Rightarrow> bool" where
  "writes k pid p \<longleftrightarrow> WriteEnd p \<in> (\<lambda>(_, e). fe_file e) ` set (fds_of k pid)"

definition writers :: "kernel \<Rightarrow> nat \<Rightarrow> nat list" where
  "writers k p = filter (\<lambda>pid. writes k pid p) [0..<k_next_pid k]"

text \<open>
  \<open>read\<close> of an errno: what was written, or end of file (\<open>Some (k, None)\<close>), or a call that
  blocks (\<open>None\<close>).
\<close>

definition sys_read :: "nat \<Rightarrow> nat \<Rightarrow> kernel \<Rightarrow> (kernel \<times> io_error option) option" where
  "sys_read pid fd k =
     (case map_of (fds_of k pid) fd of
        Some en \<Rightarrow>
          (case fe_file en of
             ReadEnd p \<Rightarrow>
               (case map_of (k_written k) p of
                  Some e \<Rightarrow> Some (k\<lparr>k_written := filter (\<lambda>(q, _). q \<noteq> p) (k_written k)\<rparr>, Some e)
                | None \<Rightarrow> if writers k p = [] then Some (k, None) else None)
           | _ \<Rightarrow> Some (k, None))
      | None \<Rightarrow> Some (k, None))"

definition alive :: "kernel \<Rightarrow> nat \<Rightarrow> bool" where
  "alive k pid = (case k_procs k pid of None \<Rightarrow> False | Some pr \<Rightarrow> pr_alive pr)"

definition reap :: "nat \<Rightarrow> kernel \<Rightarrow> kernel" where
  "reap pid k = k\<lparr>k_procs := (k_procs k)(pid := None)\<rparr>"

section \<open>\<open>spawnPlugin\<close>\<close>

text \<open>The child after \<open>fork\<close>, up to a successful \<open>execvp\<close> or \<open>_exit\<close>.\<close>

definition child_main ::
  "os \<Rightarrow> nat \<Rightarrow> nat \<times> nat \<Rightarrow> nat \<times> nat \<Rightarrow> string list \<Rightarrow> kernel \<Rightarrow> kernel" where
  "child_main os pid stdinPipe errPipe argv k =
     (let k = sys_close pid (snd stdinPipe) k;
          k = sys_close pid (fst errPipe) k;
          k = sys_dup2 pid (fst stdinPipe) 0 k;
          k = sys_close pid (fst stdinPipe) k in
      case sys_exec os pid argv k of
        (k, None) \<Rightarrow> k
      | (k, Some e) \<Rightarrow> sys_exit pid (sys_write pid (snd errPipe) e k))"

text \<open>
  The parent \<open>me\<close> waits for the child in \<open>read\<close>, and nothing the two do before touches the
  other's table, so the child runs first.  The \<open>waitpid\<close> here is for a child that has
  exited.  \<open>None\<close> is a read that blocks.
\<close>

definition spawnPlugin ::
  "os \<Rightarrow> texts \<Rightarrow> nat \<Rightarrow> string list \<Rightarrow> kernel \<Rightarrow> (kernel \<times> (nat \<times> nat) throws) option" where
  "spawnPlugin os tx me argv k =
     (case sys_pipe os me k of
        (k, Inl e) \<Rightarrow> Some (k, Inl (Thrown (Error_io tx e ''pipe'')))
      | (k, Inr stdinPipe) \<Rightarrow>
     (case sys_pipe os me k of
        (k, Inl e) \<Rightarrow>
          Some (sys_close me (snd stdinPipe) (sys_close me (fst stdinPipe) k),
                Inl (Thrown (Error_io tx e ''pipe'')))
      | (k, Inr errPipe) \<Rightarrow>
     (let k = sys_cloexec me (snd errPipe) k in
      case sys_fork os me k of
        (k, Inl e) \<Rightarrow>
          Some (sys_close me (snd errPipe) (sys_close me (fst errPipe)
                 (sys_close me (snd stdinPipe) (sys_close me (fst stdinPipe) k))),
                Inl (Thrown (Error_io tx e ''fork'')))
      | (k, Inr pid) \<Rightarrow>
     (let k = child_main os pid stdinPipe errPipe argv k;
          k = sys_close me (snd errPipe) (sys_close me (fst stdinPipe) k) in
      case sys_read me (fst errPipe) k of
        None \<Rightarrow> None
      | Some (k, childErrno) \<Rightarrow>
     (let k = sys_close me (fst errPipe) k in
      case childErrno of
        Some e \<Rightarrow> Some (sys_close me (snd stdinPipe) (reap pid k),
                       Inl (Thrown (Error_io tx e (''exec '' @ hd argv))))
      | None \<Rightarrow> Some (k, Inr (pid, snd stdinPipe)))))))"

section \<open>What a launch does to the tables\<close>

definition read_end :: "nat \<Rightarrow> fd_entry" where
  "read_end p = \<lparr>fe_file = ReadEnd p, fe_cloexec = False\<rparr>"

definition write_end :: "nat \<Rightarrow> fd_entry" where
  "write_end p = \<lparr>fe_file = WriteEnd p, fe_cloexec = False\<rparr>"

lemma filter_fd [simp]: "fd \<notin> fst ` set T \<Longrightarrow> filter (\<lambda>(n, _). n \<noteq> fd) T = T"
  by (auto simp: filter_id_conv image_iff)

lemma free_fd_fresh: "free_fd T \<notin> fst ` set T"
proof -
  let ?xs = "filter (\<lambda>n. n \<notin> set (map fst T)) [0..<Suc (length T)]"
  have "\<not> set [0..<Suc (length T)] \<subseteq> set (map fst T)"
  proof
    assume "set [0..<Suc (length T)] \<subseteq> set (map fst T)"
    then have "card (set [0..<Suc (length T)]) \<le> card (set (map fst T))" by (intro card_mono) auto
    also have "\<dots> \<le> length T" by (metis card_length length_map)
    finally show False by simp
  qed
  then have "?xs \<noteq> []" by (auto simp: filter_empty_conv)
  from hd_in_set [OF this] have "free_fd T \<in> set ?xs" by (simp only: free_fd_def)
  then show ?thesis by (simp only: set_filter mem_Collect_eq set_map) blast
qed

text \<open>
  A kernel in order: pids and pipe numbers are fresh from the counters on, the parent is
  alive, and no number is used twice in its table.
\<close>

definition uses_pipe :: "nat \<Rightarrow> fd_table \<Rightarrow> bool" where
  "uses_pipe p T \<longleftrightarrow> ReadEnd p \<in> (\<lambda>(_, e). fe_file e) ` set T \<or> WriteEnd p \<in> (\<lambda>(_, e). fe_file e) ` set T"

definition kernel_ok :: "nat \<Rightarrow> kernel \<Rightarrow> bool" where
  "kernel_ok me k \<longleftrightarrow> k_procs k me \<noteq> None \<and> (\<forall>q. k_procs k q \<noteq> None \<longrightarrow> q < k_next_pid k)
     \<and> (\<forall>q p. uses_pipe p (fds_of k q) \<longrightarrow> p < k_next_pipe k)
     \<and> (\<forall>(p, _) \<in> set (k_written k). p < k_next_pipe k) \<and> distinct (map fst (fds_of k me))"

lemma uses_pipe_simps [simp]:
  "\<not> uses_pipe p []"
  "uses_pipe p (A @ B) \<longleftrightarrow> uses_pipe p A \<or> uses_pipe p B"
  "uses_pipe p [(n, read_end q)] \<longleftrightarrow> p = q"
  "uses_pipe p [(n, write_end q)] \<longleftrightarrow> p = q"
  by (auto simp: uses_pipe_def read_end_def write_end_def)

lemma fresh_pipe: "kernel_ok me k \<Longrightarrow> k_next_pipe k \<le> q \<Longrightarrow> \<not> uses_pipe q (fds_of k u)"
  unfolding kernel_ok_def by (meson not_le)

lemma writes_uses: "writes k u p \<Longrightarrow> uses_pipe p (fds_of k u)"
  by (simp add: writes_def uses_pipe_def)

lemma fresh_written: "kernel_ok me k \<Longrightarrow> k_next_pipe k \<le> q \<Longrightarrow> map_of (k_written k) q = None"
  unfolding kernel_ok_def map_of_eq_None_iff by (force simp: image_iff)

text \<open>The table of a started plugin: what the parent's descriptors let through, and its stdin.\<close>

definition inherited :: "fd_table \<Rightarrow> fd_table" where
  "inherited T = filter (\<lambda>(_, e). \<not> fe_cloexec e) (filter (\<lambda>(n, _). n \<noteq> 0) T)"

definition plugin_process :: "os \<Rightarrow> nat \<Rightarrow> fd_table \<Rightarrow> string list \<Rightarrow> nat \<Rightarrow> process" where
  "plugin_process os pid T argv p = \<lparr>pr_fds = inherited T @ [(0, read_end p)], pr_argv = argv,
     pr_alive = True, pr_stuck = os_stuck os pid\<rparr>"

lemma fds_of_Some [simp]: "k_procs k q = Some pr \<Longrightarrow> fds_of k q = pr_fds pr"
  by (simp add: fds_of_def)

lemma map_of_fresh: "fd \<notin> fst ` set T \<Longrightarrow> map_of T fd = None"
  by (simp add: map_of_eq_None_iff)

definition err_write :: "nat \<Rightarrow> fd_entry" where
  "err_write q = \<lparr>fe_file = WriteEnd q, fe_cloexec = True\<rparr>"

lemmas entry_defs = read_end_def write_end_def err_write_def

lemma child_main_run:
  assumes pr: "k_procs k c = Some pr"
    and fds: "pr_fds pr = T @ [(a, read_end p), (b, write_end p), (x, read_end q), (y, err_write q)]"
    and fresh: "a \<notin> fst ` set T" "b \<notin> fst ` set T" "x \<notin> fst ` set T" "y \<notin> fst ` set T"
      "distinct [a, b, x, y, 0]"
  shows "child_main os c (a, b) (x, y) argv k =
    (case os_exec os argv of
       None \<Rightarrow> k\<lparr>k_procs := (k_procs k)(c \<mapsto> pr\<lparr>pr_fds := inherited T @ [(0, read_end p)],
                 pr_argv := argv, pr_stuck := os_stuck os c\<rparr>)\<rparr>
     | Some e \<Rightarrow> k\<lparr>k_procs := (k_procs k)(c \<mapsto> pr\<lparr>pr_fds := [], pr_alive := False\<rparr>),
                   k_written := k_written k @ [(q, e)]\<rparr>)"
proof -
  let ?T0 = "filter (\<lambda>(n, _). n \<noteq> 0) T"
  have fresh0: "z \<notin> fst ` set T \<Longrightarrow> z \<notin> fst ` set ?T0" for z by auto
  let ?k = "k\<lparr>k_procs := (k_procs k)(c \<mapsto> pr\<lparr>pr_fds := ?T0 @ [(y, err_write q), (0, read_end p)]\<rparr>)\<rparr>"
  have run: "sys_close c a (sys_dup2 c a 0 (sys_close c x (sys_close c b k))) = ?k"
    using assms fresh0 by (simp add: sys_close_def on_proc_def sys_dup2_def map_of_fresh map_add_def entry_defs
        del: filter_filter)
  show ?thesis
  proof (cases "os_exec os argv")
    case None
    then show ?thesis
      using run by (simp add: child_main_def Let_def sys_exec_def on_proc_def inherited_def entry_defs
          del: filter_filter)
  next
    case (Some e)
    have "map_of (?T0 @ [(y, err_write q), (0, read_end p)]) y = Some (err_write q)"
      using fresh(4) fresh0 by (simp add: map_of_fresh map_add_def)
    with Some run show ?thesis
      by (simp add: child_main_def Let_def sys_exec_def sys_exit_def sys_write_def on_proc_def entry_defs)
  qed
qed

text \<open>The four descriptors of the two pipes.\<close>

lemma two_pipes:
  obtains a b x y where "a = free_fd T" "b = free_fd (T @ [(a, read_end p)])"
    "x = free_fd (T @ [(a, read_end p), (b, write_end p)])"
    "y = free_fd (T @ [(a, read_end p), (b, write_end p), (x, read_end q)])"
    "a \<notin> fst ` set T" "b \<notin> fst ` set T" "x \<notin> fst ` set T" "y \<notin> fst ` set T" "distinct [a, b, x, y]"
proof -
  let ?a = "free_fd T"
  let ?b = "free_fd (T @ [(?a, read_end p)])"
  let ?x = "free_fd (T @ [(?a, read_end p), (?b, write_end p)])"
  let ?y = "free_fd (T @ [(?a, read_end p), (?b, write_end p), (?x, read_end q)])"
  show thesis
    using free_fd_fresh [of T] free_fd_fresh [of "T @ [(?a, read_end p)]"]
      free_fd_fresh [of "T @ [(?a, read_end p), (?b, write_end p)]"]
      free_fd_fresh [of "T @ [(?a, read_end p), (?b, write_end p), (?x, read_end q)]"]
    by (intro that [OF refl refl refl refl]) auto
qed

lemma sys_pipe_run:
  assumes "k_procs k me = Some pr" and "os_pipe os (k_next_pipe k) = None"
    and "a = free_fd (pr_fds pr)" and "b = free_fd (pr_fds pr @ [(a, read_end (k_next_pipe k))])"
  shows "sys_pipe os me k = (k\<lparr>k_procs := (k_procs k)(me \<mapsto> pr\<lparr>pr_fds := pr_fds pr
      @ [(a, read_end (k_next_pipe k)), (b, write_end (k_next_pipe k))]\<rparr>),
    k_next_pipe := k_next_pipe k + 1\<rparr>, Inr (a, b))"
  using assms by (simp add: sys_pipe_def Let_def on_proc_def entry_defs)

text \<open>The kernel in which the parent reads the other end of the child's errno pipe.\<close>

lemma spawn_forked:
  assumes ok: "kernel_ok me k" and me: "k_procs k me = Some pr" and zero: "0 \<in> fst ` set (pr_fds pr)"
    and pipes: "os_pipe os (k_next_pipe k) = None" "os_pipe os (k_next_pipe k + 1) = None"
    and fork: "os_fork os (k_next_pid k) = None"
  obtains a b x y where "b \<notin> fst ` set (pr_fds pr)"
    "spawnPlugin os tx me argv k =
      (case os_exec os argv of
         None \<Rightarrow> Some (k\<lparr>k_procs := (k_procs k)(me \<mapsto> pr\<lparr>pr_fds := pr_fds pr @ [(b, write_end (k_next_pipe k))]\<rparr>,
             k_next_pid k \<mapsto> plugin_process os (k_next_pid k) (pr_fds pr) argv (k_next_pipe k)),
           k_next_pipe := k_next_pipe k + 2, k_next_pid := k_next_pid k + 1\<rparr>, Inr (k_next_pid k, b))
       | Some e \<Rightarrow> Some (k\<lparr>k_next_pipe := k_next_pipe k + 2, k_next_pid := k_next_pid k + 1\<rparr>,
           Inl (Thrown (Error_io tx e (''exec '' @ hd argv)))))"
proof -
  let ?T = "pr_fds pr" and ?p = "k_next_pipe k" and ?c = "k_next_pid k"
  let ?q = "?p + 1"
  obtain a b x y where fd: "a = free_fd ?T" "b = free_fd (?T @ [(a, read_end ?p)])"
    "x = free_fd (?T @ [(a, read_end ?p), (b, write_end ?p)])"
    "y = free_fd (?T @ [(a, read_end ?p), (b, write_end ?p), (x, read_end ?q)])"
    and fresh: "a \<notin> fst ` set ?T" "b \<notin> fst ` set ?T" "x \<notin> fst ` set ?T" "y \<notin> fst ` set ?T"
      "distinct [a, b, x, y]" by (rule two_pipes [of ?T ?p ?q])
  have "z \<noteq> 0" if "z \<notin> fst ` set ?T" for z using that zero by metis
  from this [OF fresh(1)] this [OF fresh(2)] this [OF fresh(3)] this [OF fresh(4)] fresh(5)
  have fresh0: "distinct [a, b, x, y, 0]" by simp
  have c: "?c \<noteq> me" "k_procs k ?c = None"
    using ok me by (auto simp: kernel_ok_def)
  have quiet: "map_of (k_written k) ?q = None"
    by (rule fresh_written [OF ok]) simp
  have old: "\<not> writes k' u ?q" if "fds_of k' u = fds_of k u" for k' u
    using fresh_pipe [OF ok, of ?q u] writes_uses [of k' u ?q] that by auto
  let ?k1 = "k\<lparr>k_procs := (k_procs k)(me \<mapsto> pr\<lparr>pr_fds := ?T @ [(a, read_end ?p), (b, write_end ?p)]\<rparr>),
    k_next_pipe := ?p + 1\<rparr>"
  have p1: "sys_pipe os me k = (?k1, Inr (a, b))"
    by (rule sys_pipe_run [OF me pipes(1) fd(1,2)])
  let ?k2 = "?k1\<lparr>k_procs := (k_procs k)(me \<mapsto> pr\<lparr>pr_fds := ?T @ [(a, read_end ?p), (b, write_end ?p),
      (x, read_end ?q), (y, write_end ?q)]\<rparr>), k_next_pipe := ?p + 2\<rparr>"
  have p2: "sys_pipe os me ?k1 = (?k2, Inr (x, y))"
    using sys_pipe_run [of ?k1 me "pr\<lparr>pr_fds := ?T @ [(a, read_end ?p), (b, write_end ?p)]\<rparr>" os x y] pipes(2) fd(3,4)
    by simp
  let ?T4 = "?T @ [(a, read_end ?p), (b, write_end ?p), (x, read_end ?q), (y, err_write ?q)]"
  let ?k3 = "?k2\<lparr>k_procs := (k_procs k)(me \<mapsto> pr\<lparr>pr_fds := ?T4\<rparr>)\<rparr>"
  have untouched: "map (\<lambda>(n, e). (n, if n = y then e\<lparr>fe_cloexec := True\<rparr> else e)) ?T = ?T"
    using fresh(4) by (auto simp: image_iff intro!: map_idI)
  have p3: "sys_cloexec me y ?k2 = ?k3"
    using fresh(5) untouched by (simp add: sys_cloexec_def on_proc_def entry_defs)
  let ?pr = "\<lparr>pr_fds = ?T4, pr_argv = [], pr_alive = True, pr_stuck = False\<rparr>"
  let ?k4 = "?k3\<lparr>k_next_pid := ?c + 1, k_procs := (k_procs k)(me \<mapsto> pr\<lparr>pr_fds := ?T4\<rparr>, ?c \<mapsto> ?pr)\<rparr>"
  have p4: "sys_fork os me ?k3 = (?k4, Inr ?c)"
    using fork by (simp add: sys_fork_def Let_def)
  note child = child_main_run [of ?k4 ?c ?pr ?T a ?p b x ?q y os argv, OF _ _ fresh(1-4) fresh0]
  have me4: "k_procs ?k4 me = Some (pr\<lparr>pr_fds := ?T4\<rparr>)" using c by simp
  have closed: "filter (\<lambda>(n, _). n \<noteq> y) (filter (\<lambda>(n, _). n \<noteq> a) ?T4) = ?T @ [(b, write_end ?p), (x, read_end ?q)]"
    "filter (\<lambda>(n, _). n \<noteq> x) (?T @ [(b, write_end ?p), (x, read_end ?q)]) = ?T @ [(b, write_end ?p)]"
    "filter (\<lambda>(n, _). n \<noteq> b) (?T @ [(b, write_end ?p)]) = ?T"
    using fresh by (simp_all del: filter_filter)
  have errno: "map_of (?T @ [(b, write_end ?p), (x, read_end ?q)]) x = Some (read_end ?q)"
    using fresh by (simp add: map_add_def map_of_fresh)
  have no_writer: "\<not> uses_pipe ?q ?T" "\<not> uses_pipe ?q (inherited ?T)"
    using fresh_pipe [OF ok, of ?q me] me by (auto simp: uses_pipe_def inherited_def)
  show thesis
  proof (rule that [of b])
    show "b \<notin> fst ` set ?T" by (rule fresh(2))
    show "spawnPlugin os tx me argv k =
      (case os_exec os argv of
         None \<Rightarrow> Some (k\<lparr>k_procs := (k_procs k)(me \<mapsto> pr\<lparr>pr_fds := ?T @ [(b, write_end ?p)]\<rparr>,
             ?c \<mapsto> plugin_process os ?c ?T argv ?p),
           k_next_pipe := ?p + 2, k_next_pid := ?c + 1\<rparr>, Inr (?c, b))
       | Some e \<Rightarrow> Some (k\<lparr>k_next_pipe := ?p + 2, k_next_pid := ?c + 1\<rparr>,
           Inl (Thrown (Error_io tx e (''exec '' @ hd argv)))))"
    proof (cases "os_exec os argv")
      case None
      let ?k5 = "?k4\<lparr>k_procs := (k_procs k)(me \<mapsto> pr\<lparr>pr_fds := ?T4\<rparr>, ?c \<mapsto> plugin_process os ?c ?T argv ?p)\<rparr>"
      let ?k6 = "?k5\<lparr>k_procs := (k_procs k)(me \<mapsto> pr\<lparr>pr_fds := ?T @ [(b, write_end ?p), (x, read_end ?q)]\<rparr>,
          ?c \<mapsto> plugin_process os ?c ?T argv ?p)\<rparr>"
      have k5: "child_main os ?c (a, b) (x, y) argv ?k4 = ?k5"
        using child None by (simp add: plugin_process_def)
      have k6: "sys_close me y (sys_close me a ?k5) = ?k6"
        using c closed(1) by (simp add: sys_close_def on_proc_def fun_upd_twist del: filter_append filter_filter)
      have "writers ?k6 ?q = []"
      proof -
        have "\<not> writes ?k6 u ?q" for u
        proof -
          consider "u = me" | "u = ?c" | "u \<noteq> me" "u \<noteq> ?c" by blast
          then show ?thesis
          proof cases
            case 3
            then show ?thesis by (intro old) (simp add: fds_of_def)
          qed (use c no_writer in \<open>auto simp: writes_def fds_of_def plugin_process_def uses_pipe_def entry_defs\<close>)
        qed
        then show ?thesis by (simp add: writers_def)
      qed
      then have "sys_read me x ?k6 = Some (?k6, None)"
        using c errno quiet by (simp add: sys_read_def fds_of_def read_end_def)
      then show ?thesis
        using None c p1 p2 p3 p4 k5 k6 closed(2)
        by (simp add: spawnPlugin_def) (simp add: sys_close_def on_proc_def fun_upd_twist)
    next
      case (Some e)
      let ?dead = "?pr\<lparr>pr_fds := [], pr_alive := False\<rparr>"
      let ?k5 = "?k4\<lparr>k_procs := (k_procs k)(me \<mapsto> pr\<lparr>pr_fds := ?T4\<rparr>, ?c \<mapsto> ?dead),
          k_written := k_written k @ [(?q, e)]\<rparr>"
      let ?k6 = "?k5\<lparr>k_procs := (k_procs k)(me \<mapsto> pr\<lparr>pr_fds := ?T @ [(b, write_end ?p), (x, read_end ?q)]\<rparr>,
          ?c \<mapsto> ?dead)\<rparr>"
      have k5: "child_main os ?c (a, b) (x, y) argv ?k4 = ?k5"
        using child Some by simp
      have k6: "sys_close me y (sys_close me a ?k5) = ?k6"
        using c closed(1) by (simp add: sys_close_def on_proc_def fun_upd_twist del: filter_append filter_filter)
      have "filter (\<lambda>(q', _). q' \<noteq> ?q) (k_written k) = k_written k"
        using quiet by (intro filter_True) (auto simp: map_of_eq_None_iff image_iff)
      then have "sys_read me x ?k6 = Some (?k6\<lparr>k_written := k_written k\<rparr>, Some e)"
        using c errno quiet by (simp add: sys_read_def fds_of_def read_end_def map_add_def)
      moreover have "(k_procs k)(me \<mapsto> pr) = k_procs k" "(k_procs k)(?c := None) = k_procs k"
        using me c by auto
      ultimately show ?thesis
        using Some c p1 p2 p3 p4 k5 k6 fresh(2,3,5)
        by (simp add: spawnPlugin_def)
          (simp add: sys_close_def on_proc_def reap_def fun_upd_twist del: filter_filter)
    qed
  qed
qed

lemma spawn_refused:
  assumes ok: "kernel_ok me k" and me: "k_procs k me = Some pr"
    and refused: "os_pipe os (k_next_pipe k) = Some e
      \<or> os_pipe os (k_next_pipe k) = None \<and> os_pipe os (k_next_pipe k + 1) = Some e
      \<or> os_pipe os (k_next_pipe k) = None \<and> os_pipe os (k_next_pipe k + 1) = None
        \<and> os_fork os (k_next_pid k) = Some e"
  shows "\<exists>n ctx. n \<le> 2 \<and> spawnPlugin os tx me argv k
    = Some (k\<lparr>k_next_pipe := k_next_pipe k + n\<rparr>, Inl (Thrown (Error_io tx e ctx)))"
proof -
  let ?T = "pr_fds pr" and ?p = "k_next_pipe k"
  let ?q = "?p + 1"
  obtain a b x y where fd: "a = free_fd ?T" "b = free_fd (?T @ [(a, read_end ?p)])"
    "x = free_fd (?T @ [(a, read_end ?p), (b, write_end ?p)])"
    "y = free_fd (?T @ [(a, read_end ?p), (b, write_end ?p), (x, read_end ?q)])"
    and fresh: "a \<notin> fst ` set ?T" "b \<notin> fst ` set ?T" "x \<notin> fst ` set ?T" "y \<notin> fst ` set ?T"
      "distinct [a, b, x, y]" by (rule two_pipes [of ?T ?p ?q])
  have same: "(k_procs k)(me \<mapsto> pr) = k_procs k" using me by auto
  let ?k1 = "k\<lparr>k_procs := (k_procs k)(me \<mapsto> pr\<lparr>pr_fds := ?T @ [(a, read_end ?p), (b, write_end ?p)]\<rparr>),
    k_next_pipe := ?p + 1\<rparr>"
  let ?k2 = "?k1\<lparr>k_procs := (k_procs k)(me \<mapsto> pr\<lparr>pr_fds := ?T @ [(a, read_end ?p), (b, write_end ?p),
      (x, read_end ?q), (y, write_end ?q)]\<rparr>), k_next_pipe := ?p + 2\<rparr>"
  have untouched: "map (\<lambda>(n, e). (n, if n = y then e\<lparr>fe_cloexec := True\<rparr> else e)) ?T = ?T"
    using fresh(4) by (auto simp: image_iff intro!: map_idI)
  from refused show ?thesis
  proof (elim disjE)
    assume "os_pipe os ?p = Some e"
    then have "spawnPlugin os tx me argv k = Some (k\<lparr>k_next_pipe := ?p + 0\<rparr>, Inl (Thrown (Error_io tx e ''pipe'')))"
      by (simp add: spawnPlugin_def sys_pipe_def Let_def)
    then show ?thesis by blast
  next
    assume r: "os_pipe os ?p = None \<and> os_pipe os ?q = Some e"
    then have "sys_pipe os me k = (?k1, Inr (a, b))" using sys_pipe_run [OF me _ fd(1,2)] by blast
    moreover have "sys_pipe os me ?k1 = (?k1, Inl e)" using r by (simp add: sys_pipe_def Let_def)
    ultimately have "spawnPlugin os tx me argv k = Some (k\<lparr>k_next_pipe := ?p + 1\<rparr>, Inl (Thrown (Error_io tx e ''pipe'')))"
      using fresh same by (simp add: spawnPlugin_def) (simp add: sys_close_def on_proc_def del: filter_filter)
    then show ?thesis by (intro exI [of _ 1] exI) auto
  next
    assume r: "os_pipe os ?p = None \<and> os_pipe os ?q = None \<and> os_fork os (k_next_pid k) = Some e"
    then have p1: "sys_pipe os me k = (?k1, Inr (a, b))" using sys_pipe_run [OF me _ fd(1,2)] by blast
    have p2: "sys_pipe os me ?k1 = (?k2, Inr (x, y))"
      using sys_pipe_run [of ?k1 me "pr\<lparr>pr_fds := ?T @ [(a, read_end ?p), (b, write_end ?p)]\<rparr>" os x y] r fd(3,4)
      by simp
    have "sys_fork os me (sys_cloexec me y ?k2) = (sys_cloexec me y ?k2, Inl e)"
      using r by (simp add: sys_fork_def sys_cloexec_def on_proc_def Let_def)
    with p1 p2 have "spawnPlugin os tx me argv k = Some (k\<lparr>k_next_pipe := ?p + 2\<rparr>, Inl (Thrown (Error_io tx e ''fork'')))"
      using fresh same untouched
      by (simp add: spawnPlugin_def) (simp add: sys_close_def sys_cloexec_def on_proc_def del: filter_filter)
    then show ?thesis by (intro exI [of _ 2] exI) auto
  qed
qed

text \<open>The first thing a launch asks for and the operating system refuses.\<close>

definition spawn_refusal :: "os \<Rightarrow> string list \<Rightarrow> kernel \<Rightarrow> io_error option" where
  "spawn_refusal os argv k =
     (case os_pipe os (k_next_pipe k) of Some e \<Rightarrow> Some e | None \<Rightarrow>
     (case os_pipe os (k_next_pipe k + 1) of Some e \<Rightarrow> Some e | None \<Rightarrow>
     (case os_fork os (k_next_pid k) of Some e \<Rightarrow> Some e | None \<Rightarrow> os_exec os argv)))"

lemma spawn_cases:
  assumes "kernel_ok me k" and "k_procs k me = Some pr" and "0 \<in> fst ` set (pr_fds pr)"
  obtains (started) fd where "spawn_refusal os argv k = None" "fd \<notin> fst ` set (pr_fds pr)"
    "spawnPlugin os tx me argv k
      = Some (k\<lparr>k_procs := (k_procs k)(me \<mapsto> pr\<lparr>pr_fds := pr_fds pr @ [(fd, write_end (k_next_pipe k))]\<rparr>,
          k_next_pid k \<mapsto> plugin_process os (k_next_pid k) (pr_fds pr) argv (k_next_pipe k)),
        k_next_pipe := k_next_pipe k + 2, k_next_pid := k_next_pid k + 1\<rparr>, Inr (k_next_pid k, fd))"
  | (failed) e ctx n m where "spawn_refusal os argv k = Some e" "spawnPlugin os tx me argv k
      = Some (k\<lparr>k_next_pipe := k_next_pipe k + n, k_next_pid := k_next_pid k + m\<rparr>,
          Inl (Thrown (Error_io tx e ctx)))"
proof (cases "os_pipe os (k_next_pipe k) = None \<and> os_pipe os (k_next_pipe k + 1) = None
    \<and> os_fork os (k_next_pid k) = None")
  case True
  then obtain fd where fd: "fd \<notin> fst ` set (pr_fds pr)"
    "spawnPlugin os tx me argv k =
      (case os_exec os argv of
         None \<Rightarrow> Some (k\<lparr>k_procs := (k_procs k)(me \<mapsto> pr\<lparr>pr_fds := pr_fds pr @ [(fd, write_end (k_next_pipe k))]\<rparr>,
             k_next_pid k \<mapsto> plugin_process os (k_next_pid k) (pr_fds pr) argv (k_next_pipe k)),
           k_next_pipe := k_next_pipe k + 2, k_next_pid := k_next_pid k + 1\<rparr>, Inr (k_next_pid k, fd))
       | Some e \<Rightarrow> Some (k\<lparr>k_next_pipe := k_next_pipe k + 2, k_next_pid := k_next_pid k + 1\<rparr>,
           Inl (Thrown (Error_io tx e (''exec '' @ hd argv)))))"
    using spawn_forked [OF assms, of os tx argv] by metis
  show thesis
  proof (cases "os_exec os argv")
    case None
    with True fd started show thesis by (simp add: spawn_refusal_def)
  next
    case (Some e)
    with fd True show thesis by (intro failed [where n = 2 and m = 1]) (simp_all add: spawn_refusal_def)
  qed
next
  case False
  then obtain e where "os_pipe os (k_next_pipe k) = Some e
      \<or> os_pipe os (k_next_pipe k) = None \<and> os_pipe os (k_next_pipe k + 1) = Some e
      \<or> os_pipe os (k_next_pipe k) = None \<and> os_pipe os (k_next_pipe k + 1) = None
        \<and> os_fork os (k_next_pid k) = Some e"
    by (cases "os_pipe os (k_next_pipe k)"; cases "os_pipe os (k_next_pipe k + 1)";
        cases "os_fork os (k_next_pid k)") auto
  note r = this
  from spawn_refused [OF assms(1,2) r, of tx argv] obtain n ctx where
    "spawnPlugin os tx me argv k
      = Some (k\<lparr>k_next_pipe := k_next_pipe k + n\<rparr>, Inl (Thrown (Error_io tx e ctx)))" by blast
  with r show thesis by (intro failed [where n = n and m = 0]) (auto simp: spawn_refusal_def)
qed

section \<open>A frontend and its plugins\<close>

text \<open>
  Launches of one frontend, some of which may fail: the plugins started, each with the
  number of the pipe that is its standard input.
\<close>

inductive launched :: "os \<Rightarrow> texts \<Rightarrow> nat \<Rightarrow> kernel \<Rightarrow> (nat \<times> nat) list \<Rightarrow> kernel \<Rightarrow> bool"
  for os tx me k0 where
  launched_none: "launched os tx me k0 [] k0"
| launched_one: "\<lbrakk>launched os tx me k0 cs k; spawnPlugin os tx me argv k = Some (k', Inr (pid, fd))\<rbrakk> \<Longrightarrow>
    launched os tx me k0 (cs @ [(pid, k_next_pipe k)]) k'"
| launched_failed: "\<lbrakk>launched os tx me k0 cs k; spawnPlugin os tx me argv k = Some (k', Inl x)\<rbrakk> \<Longrightarrow>
    launched os tx me k0 cs k'"

text \<open>
  A plugin whose standard input is at end of file, or closed, exits unless it is stuck:
  this is what the watch thread of the Rust server does.
\<close>

definition stdin_eof :: "kernel \<Rightarrow> nat \<Rightarrow> bool" where
  "stdin_eof k pid =
     (case map_of (fds_of k pid) 0 of
        None \<Rightarrow> True
      | Some e \<Rightarrow> (case fe_file e of ReadEnd p \<Rightarrow> writers k p = [] | _ \<Rightarrow> False))"

definition stuck :: "kernel \<Rightarrow> nat \<Rightarrow> bool" where
  "stuck k pid = (case k_procs k pid of None \<Rightarrow> False | Some pr \<Rightarrow> pr_stuck pr)"

inductive plugin_exits :: "nat list \<Rightarrow> kernel \<Rightarrow> kernel \<Rightarrow> bool" for pids where
  "\<lbrakk>pid \<in> set pids; alive k pid; \<not> stuck k pid; stdin_eof k pid\<rbrakk> \<Longrightarrow>
   plugin_exits pids k (sys_exit pid k)"

inductive_simps plugin_exits_iff: "plugin_exits pids k k'"

text \<open>The tables of a frontend with plugins \<open>cs\<close>: who can write into whose standard input.\<close>

definition fleet :: "os \<Rightarrow> nat \<Rightarrow> (nat \<times> nat) list \<Rightarrow> kernel \<Rightarrow> bool" where
  "fleet os me cs k \<longleftrightarrow> kernel_ok me k \<and> 0 \<in> fst ` set (fds_of k me)
     \<and> (\<forall>(pid, p) \<in> set cs. pid \<noteq> me \<and> alive k pid \<and> stuck k pid = os_stuck os pid
          \<and> map_of (fds_of k pid) 0 = Some (read_end p)
          \<and> (\<exists>fd. fd \<noteq> 0 \<and> (fd, write_end p) \<in> set (fds_of k me)))
     \<and> distinct (map fst cs)
     \<and> (\<forall>i < length cs. \<forall>q. writes k q (snd (cs ! i)) \<longleftrightarrow>
          q = me \<or> q \<in> fst ` set (drop (Suc i) cs))"

lemma fds_of_upd:
  "k_procs k' = (k_procs k)(me \<mapsto> a, c \<mapsto> b) \<Longrightarrow> c \<noteq> me \<Longrightarrow>
   fds_of k' q = (if q = c then pr_fds b else if q = me then pr_fds a else fds_of k q)"
  by (simp add: fds_of_def)

lemma kernel_ok_spawned:
  assumes ok: "kernel_ok me k" and me: "k_procs k me = Some pr" and fd: "fd \<notin> fst ` set (pr_fds pr)"
    and k': "k' = k\<lparr>k_procs := (k_procs k)(me \<mapsto> pr\<lparr>pr_fds := pr_fds pr @ [(fd, write_end (k_next_pipe k))]\<rparr>,
          k_next_pid k \<mapsto> plugin_process os (k_next_pid k) (pr_fds pr) argv (k_next_pipe k)),
        k_next_pipe := k_next_pipe k + 2, k_next_pid := k_next_pid k + 1\<rparr>"
  shows "kernel_ok me k'"
proof -
  have c: "k_next_pid k \<noteq> me" using ok me by (auto simp: kernel_ok_def)
  have tables: "fds_of k' q = (if q = k_next_pid k then inherited (pr_fds pr) @ [(0, read_end (k_next_pipe k))]
      else if q = me then pr_fds pr @ [(fd, write_end (k_next_pipe k))] else fds_of k q)" for q
    using fds_of_upd [of k' k me _ "k_next_pid k" _ q] k' c by (simp add: plugin_process_def)
  have old: "uses_pipe p (pr_fds pr) \<Longrightarrow> p < k_next_pipe k" for p
    using ok me unfolding kernel_ok_def by (metis fds_of_Some)
  have inh: "uses_pipe p (inherited T) \<Longrightarrow> uses_pipe p T" for p T
    by (auto simp: uses_pipe_def inherited_def)
  have pipes: "uses_pipe p (fds_of k' q) \<Longrightarrow> p < k_next_pipe k + 2" for p q
  proof -
    assume u: "uses_pipe p (fds_of k' q)"
    have "uses_pipe p (fds_of k q) \<Longrightarrow> p < k_next_pipe k" using ok by (auto simp: kernel_ok_def)
    with u old [of p] inh [of p "pr_fds pr"] show ?thesis
      by (auto simp: tables split: if_splits)
  qed
  have "q < k_next_pid k + 1" if "k_procs k' q \<noteq> None" for q
    using ok that by (auto simp: k' kernel_ok_def split: if_splits intro: less_SucI)
  moreover have "distinct (map fst (fds_of k' me))"
    using ok me fd c by (simp add: tables kernel_ok_def)
  moreover have "\<forall>(p, _) \<in> set (k_written k'). p < k_next_pipe k + 2"
    using ok by (fastforce simp: k' kernel_ok_def)
  moreover have "k_procs k' me \<noteq> None" using c by (simp add: k')
  ultimately show ?thesis using pipes by (simp add: kernel_ok_def) (simp add: k')
qed

lemma kernel_ok_more:
  "kernel_ok me k \<Longrightarrow> kernel_ok me (k\<lparr>k_next_pipe := k_next_pipe k + n, k_next_pid := k_next_pid k + m\<rparr>)"
  by (fastforce simp: kernel_ok_def fds_of_def intro: trans_less_add1)

lemma writes_upd:
  "writes k q p \<longleftrightarrow> WriteEnd p \<in> (\<lambda>(_, e). fe_file e) ` set (fds_of k q)"
  by (simp add: writes_def)

lemma fleet_spawned:
  assumes fleet: "fleet os me cs k" and me: "k_procs k me = Some pr"
    and fd: "fd \<notin> fst ` set (pr_fds pr)"
    and k': "k' = k\<lparr>k_procs := (k_procs k)(me \<mapsto> pr\<lparr>pr_fds := pr_fds pr @ [(fd, write_end (k_next_pipe k))]\<rparr>,
          k_next_pid k \<mapsto> plugin_process os (k_next_pid k) (pr_fds pr) argv (k_next_pipe k)),
        k_next_pipe := k_next_pipe k + 2, k_next_pid := k_next_pid k + 1\<rparr>"
  shows "fleet os me (cs @ [(k_next_pid k, k_next_pipe k)]) k'"
proof -
  let ?c = "k_next_pid k" and ?p = "k_next_pipe k" and ?T = "pr_fds pr"
  have ok: "kernel_ok me k" and T: "fds_of k me = ?T" and zero: "0 \<in> fst ` set ?T"
    using fleet me by (auto simp: fleet_def)
  have c: "?c \<noteq> me" "k_procs k ?c = None" using ok me by (auto simp: kernel_ok_def)
  have tables: "fds_of k' q = (if q = ?c then inherited ?T @ [(0, read_end ?p)]
      else if q = me then ?T @ [(fd, write_end ?p)] else fds_of k q)" for q
    using fds_of_upd [of k' k me _ ?c _ q] k' c by (simp add: plugin_process_def)
  have fresh: "\<not> writes k q ?p" for q using fresh_pipe [OF ok, of ?p q] writes_uses by blast
  have zero_free: "0 \<notin> fst ` set (inherited ?T)" by (auto simp: inherited_def)
  from fleet have each: "pid \<noteq> me \<and> alive k pid \<and> stuck k pid = os_stuck os pid
      \<and> map_of (fds_of k pid) 0 = Some (read_end p)
      \<and> (\<exists>fd. fd \<noteq> 0 \<and> (fd, write_end p) \<in> set (fds_of k me))" if "(pid, p) \<in> set cs" for pid p
    using that by (auto simp: fleet_def)
  have not_c: "fst (cs ! i) \<noteq> ?c" "snd (cs ! i) \<noteq> ?p" "fst (cs ! i) \<noteq> me" if "i < length cs" for i
  proof -
    from nth_mem [OF that] obtain pid p where cp: "cs ! i = (pid, p)" "(pid, p) \<in> set cs" by (metis surj_pair)
    with each [of pid p] c show "fst (cs ! i) \<noteq> ?c" "fst (cs ! i) \<noteq> me" by (auto simp: alive_def)
    from each [OF cp(2)] have "writes k me p" by (force simp: writes_def write_end_def)
    with fresh cp show "snd (cs ! i) \<noteq> ?p" by auto
  qed
  have new_writes: "writes k' q ?p \<longleftrightarrow> q = me" for q
    using fresh [of q] fresh [of me] c
    by (auto simp: writes_def tables T inherited_def entry_defs)
  have old_writes: "writes k' q (snd (cs ! i)) \<longleftrightarrow> q = ?c \<or> writes k q (snd (cs ! i))" if "i < length cs" for q i
  proof -
    obtain pid p where cp: "cs ! i = (pid, p)" by fastforce
    with nth_mem [OF that] each obtain fd' where fd': "fd' \<noteq> 0" "(fd', write_end p) \<in> set ?T" using T by metis
    then have "(fd', write_end p) \<in> set (inherited ?T)" by (simp add: inherited_def entry_defs)
    then have "writes k' ?c p" by (force simp: writes_def tables write_end_def)
    moreover have "writes k' me p" "writes k me p" using fd' c T by (force simp: writes_def tables write_end_def)+
    ultimately show ?thesis using cp by (auto simp: writes_def tables)
  qed
  have "writes k' q (snd ((cs @ [(?c, ?p)]) ! i)) \<longleftrightarrow>
      q = me \<or> q \<in> fst ` set (drop (Suc i) (cs @ [(?c, ?p)]))"
    if i: "i < length (cs @ [(?c, ?p)])" for i q
  proof (cases "i = length cs")
    case True
    then show ?thesis using new_writes by simp
  next
    case False
    with i have i: "i < length cs" by simp
    then have "writes k q (snd (cs ! i)) \<longleftrightarrow> q = me \<or> q \<in> fst ` set (drop (Suc i) cs)"
      using fleet unfolding fleet_def by blast
    then show ?thesis
      using i old_writes [OF i, of q] by (simp add: nth_append) blast
  qed
  moreover have "pid \<noteq> me \<and> alive k' pid \<and> stuck k' pid = os_stuck os pid
      \<and> map_of (fds_of k' pid) 0 = Some (read_end p) \<and> (\<exists>fd. fd \<noteq> 0 \<and> (fd, write_end p) \<in> set (fds_of k' me))"
    if cp: "(pid, p) \<in> set (cs @ [(?c, ?p)])" for pid p
  proof (cases "(pid, p) \<in> set cs")
    case True
    then obtain i where "i < length cs" "cs ! i = (pid, p)" by (auto simp: in_set_conv_nth)
    with not_c [of i] have "pid \<noteq> ?c" "pid \<noteq> me" by auto
    moreover have "k_procs k' pid = k_procs k pid" using \<open>pid \<noteq> ?c\<close> \<open>pid \<noteq> me\<close> k' by simp
    ultimately show ?thesis using each [OF True] c T by (auto simp: alive_def stuck_def tables)
  next
    case False
    with cp have "pid = ?c" "p = ?p" by auto
    moreover have "fd \<noteq> 0" using fd zero by metis
    ultimately show ?thesis
      using c zero_free by (auto simp: alive_def stuck_def tables k' plugin_process_def map_of_fresh map_add_def)
  qed
  moreover have "distinct (map fst (cs @ [(?c, ?p)]))"
  proof -
    have "?c \<notin> fst ` set cs"
    proof
      assume "?c \<in> fst ` set cs"
      then obtain i where "i < length cs" "fst (cs ! i) = ?c" by (metis imageE in_set_conv_nth)
      with not_c(1) show False by blast
    qed
    with fleet show ?thesis by (simp add: fleet_def)
  qed
  moreover have "0 \<in> fst ` set (fds_of k' me)" using zero c by (auto simp: tables)
  ultimately show ?thesis
    unfolding fleet_def using kernel_ok_spawned [OF ok me fd k'] by blast
qed

lemma launched_fleet:
  assumes "kernel_ok me k0" and "0 \<in> fst ` set (fds_of k0 me)"
  shows "launched os tx me k0 cs k \<Longrightarrow> fleet os me cs k"
proof (induction rule: launched.induct)
  case launched_none
  with assms show ?case by (simp add: fleet_def)
next
  case (launched_one cs k argv k' pid fd)
  then obtain pr where pr: "k_procs k me = Some pr" by (auto simp: fleet_def kernel_ok_def)
  with launched_one have ok: "kernel_ok me k" "0 \<in> fst ` set (pr_fds pr)" by (auto simp: fleet_def)
  show ?case
  proof (cases rule: spawn_cases [OF ok(1) pr ok(2), of os argv tx])
    case (1 fd')
    with launched_one(2) have "pid = k_next_pid k" by simp
    with 1 launched_one(2) fleet_spawned [OF launched_one.IH pr 1(2) refl] show ?thesis by simp
  next
    case (2 e ctx n m)
    with launched_one(2) show ?thesis by simp
  qed
next
  case (launched_failed cs k argv k' x)
  then obtain pr where pr: "k_procs k me = Some pr" by (auto simp: fleet_def kernel_ok_def)
  with launched_failed have ok: "kernel_ok me k" "0 \<in> fst ` set (pr_fds pr)" by (auto simp: fleet_def)
  show ?case
  proof (cases rule: spawn_cases [OF ok(1) pr ok(2), of os argv tx])
    case (1 fd)
    with launched_failed(2) show ?thesis by simp
  next
    case (2 e ctx n m)
    with launched_failed(2) have k': "k' = k\<lparr>k_next_pipe := k_next_pipe k + n, k_next_pid := k_next_pid k + m\<rparr>"
      by simp
    then have unchanged: "fds_of k' = fds_of k" "alive k' = alive k" "stuck k' = stuck k" "writes k' = writes k"
      by (auto simp: fun_eq_iff fds_of_def alive_def stuck_def writes_def)
    have "kernel_ok me k'" unfolding k' by (rule kernel_ok_more [OF ok(1)])
    with launched_failed.IH show ?thesis unfolding fleet_def unchanged by blast
  qed
qed

text \<open>
  After the frontend is gone: the plugins from the \<open>m\<close>th on have exited, those before
  are alive, and the standard input of a plugin is held open by the living ones after it.
\<close>

definition orphans :: "os \<Rightarrow> (nat \<times> nat) list \<Rightarrow> nat \<Rightarrow> kernel \<Rightarrow> bool" where
  "orphans os cs m k \<longleftrightarrow> m \<le> length cs \<and> distinct (map fst cs)
     \<and> (\<forall>pid. alive k pid \<longrightarrow> pid < k_next_pid k)
     \<and> (\<forall>i < length cs. (alive k (fst (cs ! i)) \<longleftrightarrow> i < m) \<and> stuck k (fst (cs ! i)) = os_stuck os (fst (cs ! i))
          \<and> (i < m \<longrightarrow> map_of (fds_of k (fst (cs ! i))) 0 = Some (read_end (snd (cs ! i))))
          \<and> (\<forall>q. writes k q (snd (cs ! i)) \<longleftrightarrow> alive k q \<and> q \<in> fst ` set (drop (Suc i) cs)))"

lemma fds_of_exit [simp]: "fds_of (sys_exit pid k) q = (if q = pid then [] else fds_of k q)"
  by (auto simp: sys_exit_def on_proc_def fds_of_def split: option.splits)

lemma writes_exit [simp]: "writes (sys_exit pid k) q p \<longleftrightarrow> q \<noteq> pid \<and> writes k q p"
  by (simp add: writes_def)

lemma exit_simps [simp]:
  "alive (sys_exit pid k) q \<longleftrightarrow> q \<noteq> pid \<and> alive k q"
  "stuck (sys_exit pid k) = stuck k"
  "k_next_pid (sys_exit pid k) = k_next_pid k"
  by (auto simp: fun_eq_iff sys_exit_def on_proc_def alive_def stuck_def split: option.splits)

lemma in_drop_later:
  "distinct (map fst cs) \<Longrightarrow> j < length cs \<Longrightarrow> fst (cs ! j) \<in> fst ` set (drop i cs) \<longleftrightarrow> i \<le> j"
proof
  assume d: "distinct (map fst cs)" and j: "j < length cs" and "fst (cs ! j) \<in> fst ` set (drop i cs)"
  then obtain n where n: "n < length (drop i cs)" "fst (cs ! j) = fst (drop i cs ! n)"
    by (metis imageE in_set_conv_nth)
  then have "map fst cs ! j = map fst cs ! (i + n)" using j by simp
  moreover have "i + n < length cs" using n by simp
  ultimately have "j = i + n" using nth_eq_iff_index_eq [OF d, of j "i + n"] j by simp
  then show "i \<le> j" by simp
next
  assume "j < length cs" "i \<le> j"
  then have "drop i cs ! (j - i) = cs ! j" "j - i < length (drop i cs)" by auto
  then have "cs ! j \<in> set (drop i cs)" by (metis nth_mem)
  then show "fst (cs ! j) \<in> fst ` set (drop i cs)" by blast
qed

lemma frontend_dies:
  assumes "fleet os me cs k"
  shows "orphans os cs (length cs) (sys_exit me k)"
proof -
  have each: "fst (cs ! i) \<noteq> me \<and> alive k (fst (cs ! i)) \<and> stuck k (fst (cs ! i)) = os_stuck os (fst (cs ! i))
      \<and> map_of (fds_of k (fst (cs ! i))) 0 = Some (read_end (snd (cs ! i)))" if "i < length cs" for i
    using assms nth_mem [OF that] by (cases "cs ! i") (auto simp: fleet_def)
  have who: "writes (sys_exit me k) q (snd (cs ! i)) \<longleftrightarrow>
      alive (sys_exit me k) q \<and> q \<in> fst ` set (drop (Suc i) cs)" if "i < length cs" for i q
  proof -
    have w: "writes k q (snd (cs ! i)) \<longleftrightarrow> q = me \<or> q \<in> fst ` set (drop (Suc i) cs)"
      using assms that unfolding fleet_def by blast
    have "alive k q \<and> q \<noteq> me" if "q \<in> fst ` set (drop (Suc i) cs)"
    proof -
      from that have "q \<in> fst ` set cs" by (meson image_mono set_drop_subset subsetD)
      then show ?thesis using assms by (auto simp: fleet_def)
    qed
    with w show ?thesis by auto
  qed
  have "pid < k_next_pid k" if "alive k pid" for pid
    using assms that by (auto simp: fleet_def kernel_ok_def alive_def split: option.splits)
  with each who assms show ?thesis
    unfolding orphans_def by (auto simp: fleet_def)
qed

text \<open>Of the living plugins only the last one launched sees the end of its standard input.\<close>

lemma orphans_eof:
  assumes o: "orphans os cs m k" and i: "i < m"
  shows "stdin_eof k (fst (cs ! i)) \<longleftrightarrow> Suc i = m"
proof -
  let ?p = "snd (cs ! i)"
  have il: "i < length cs" and ml: "m \<le> length cs" and d: "distinct (map fst cs)"
    using o i by (auto simp: orphans_def)
  have eof: "stdin_eof k (fst (cs ! i)) \<longleftrightarrow> (\<forall>q < k_next_pid k. \<not> writes k q ?p)"
    using o i il by (auto simp: orphans_def stdin_eof_def read_end_def writers_def filter_empty_conv)
  have w: "writes k q ?p \<longleftrightarrow> alive k q \<and> q \<in> fst ` set (drop (Suc i) cs)" for q
    using o il unfolding orphans_def by blast
  have live: "alive k (fst (cs ! j)) \<longleftrightarrow> j < m" if "j < length cs" for j
    using o that unfolding orphans_def by blast
  show ?thesis
  proof (cases "Suc i = m")
    case True
    have "\<not> writes k q ?p" for q
    proof
      assume "writes k q ?p"
      with w obtain j where j: "j < length cs" "q = fst (cs ! j)" "alive k q" "q \<in> fst ` set (drop (Suc i) cs)"
        by (metis imageE in_set_conv_nth in_set_dropD)
      with in_drop_later [OF d j(1), of "Suc i"] live [OF j(1)] True show False by simp
    qed
    with True eof show ?thesis by simp
  next
    case False
    with i ml have "Suc i < m" "Suc i < length cs" by simp_all
    with live [of "Suc i"] in_drop_later [OF d, of "Suc i" "Suc i"] w [of "fst (cs ! Suc i)"]
    have "writes k (fst (cs ! Suc i)) ?p" "alive k (fst (cs ! Suc i))" by simp_all
    moreover have "pid < k_next_pid k" if "alive k pid" for pid
      using o that unfolding orphans_def by blast
    ultimately show ?thesis using eof False by blast
  qed
qed

lemma orphans_exit:
  assumes o: "orphans os cs (Suc n) k"
  shows "orphans os cs n (sys_exit (fst (cs ! n)) k)"
proof -
  have d: "distinct (map fst cs)" and n: "n < length cs" using o by (auto simp: orphans_def)
  have other: "fst (cs ! i) = fst (cs ! n) \<longleftrightarrow> i = n" if "i < length cs" for i
    using nth_eq_iff_index_eq [OF d, of i n] that n by simp
  have "(alive (sys_exit (fst (cs ! n)) k) (fst (cs ! i)) \<longleftrightarrow> i < n)
      \<and> stuck (sys_exit (fst (cs ! n)) k) (fst (cs ! i)) = os_stuck os (fst (cs ! i))
      \<and> (i < n \<longrightarrow> map_of (fds_of (sys_exit (fst (cs ! n)) k) (fst (cs ! i))) 0 = Some (read_end (snd (cs ! i))))
      \<and> (\<forall>q. writes (sys_exit (fst (cs ! n)) k) q (snd (cs ! i)) \<longleftrightarrow>
           alive (sys_exit (fst (cs ! n)) k) q \<and> q \<in> fst ` set (drop (Suc i) cs))"
    if i: "i < length cs" for i
  proof -
    have "(alive k (fst (cs ! i)) \<longleftrightarrow> i < Suc n) \<and> stuck k (fst (cs ! i)) = os_stuck os (fst (cs ! i))
          \<and> (i < Suc n \<longrightarrow> map_of (fds_of k (fst (cs ! i))) 0 = Some (read_end (snd (cs ! i))))
          \<and> (\<forall>q. writes k q (snd (cs ! i)) \<longleftrightarrow> alive k q \<and> q \<in> fst ` set (drop (Suc i) cs))"
      using o i unfolding orphans_def by blast
    with other [OF i] show ?thesis by (auto simp: less_Suc_eq)
  qed
  with o show ?thesis unfolding orphans_def by simp
qed

lemma orphans_step:
  assumes o: "orphans os cs m k" and step: "plugin_exits (map fst cs) k k'"
  shows "\<exists>n. m = Suc n \<and> \<not> os_stuck os (fst (cs ! n)) \<and> orphans os cs n k'"
proof -
  from step obtain i where i: "i < length cs" "alive k (fst (cs ! i))" "\<not> stuck k (fst (cs ! i))"
    "stdin_eof k (fst (cs ! i))" "k' = sys_exit (fst (cs ! i)) k"
    by (auto simp: plugin_exits_iff in_set_conv_nth)
  with o have "i < m" "\<not> os_stuck os (fst (cs ! i))" unfolding orphans_def by blast+
  moreover from this orphans_eof [OF o] i(4) have "Suc i = m" by blast
  ultimately show ?thesis using orphans_exit o i(5) by blast
qed

lemma orphans_can_step:
  assumes o: "orphans os cs (Suc n) k" and alert: "\<not> os_stuck os (fst (cs ! n))"
  shows "plugin_exits (map fst cs) k (sys_exit (fst (cs ! n)) k)"
proof (rule plugin_exits.intros)
  have n: "n < length cs" using o by (simp add: orphans_def)
  then show "fst (cs ! n) \<in> set (map fst cs)" by simp
  show "alive k (fst (cs ! n))" "\<not> stuck k (fst (cs ! n))"
    using o n alert unfolding orphans_def by auto
  show "stdin_eof k (fst (cs ! n))" using orphans_eof [OF o, of n] by simp
qed

lemma orphans_reach:
  "(plugin_exits (map fst cs))\<^sup>*\<^sup>* k k' \<Longrightarrow> orphans os cs m k \<Longrightarrow>
   \<exists>n \<le> m. orphans os cs n k' \<and> (\<forall>i. n \<le> i \<and> i < m \<longrightarrow> \<not> os_stuck os (fst (cs ! i)))"
proof (induction rule: rtranclp_induct)
  case base
  then show ?case by auto
next
  case (step k1 k2)
  then obtain n where n: "n \<le> m" "orphans os cs n k1"
    "\<forall>i. n \<le> i \<and> i < m \<longrightarrow> \<not> os_stuck os (fst (cs ! i))" by blast
  from orphans_step [OF n(2) step.hyps(2)] obtain n' where
    n': "n = Suc n'" "\<not> os_stuck os (fst (cs ! n'))" "orphans os cs n' k2" by blast
  have "\<not> os_stuck os (fst (cs ! i))" if "n' \<le> i" "i < m" for i
    using that n n' by (cases "i = n'") auto
  with n n' show ?case by (intro exI [of _ n']) auto
qed

lemma orphans_all_gone:
  "orphans os cs m k \<Longrightarrow> \<forall>i < m. \<not> os_stuck os (fst (cs ! i)) \<Longrightarrow>
   \<exists>k'. (plugin_exits (map fst cs))\<^sup>*\<^sup>* k k' \<and> orphans os cs 0 k'"
proof (induction m arbitrary: k)
  case (Suc m)
  from orphans_can_step [OF Suc.prems(1)] Suc.prems(2)
  have "plugin_exits (map fst cs) k (sys_exit (fst (cs ! m)) k)" by simp
  with Suc.IH [OF orphans_exit [OF Suc.prems(1)]] Suc.prems(2) show ?case
    by (meson converse_rtranclp_into_rtranclp less_SucI)
qed auto

section \<open>Properties\<close>

text \<open>
  C28. A C++ launch leaves all or nothing, and always comes to an end.  If the operating
  system grants everything, the frontend has one descriptor more, the write end of a pipe
  whose read end is the standard input of the new process, which runs the argv; if
  anything is refused, up to the \<open>exec\<close> in the child, no process is left, no descriptor
  is left, and the exception is of the kind \<open>Io\<close>.
\<close>

theorem spawn_all_or_nothing:
  assumes "kernel_ok me k" and "0 \<in> fst ` set (fds_of k me)"
  shows "\<exists>k' x. spawnPlugin os tx me argv k = Some (k', x)
    \<and> (if spawn_refusal os argv k = None
       then \<exists>fd. x = Inr (k_next_pid k, fd)
         \<and> fds_of k' me = fds_of k me @ [(fd, write_end (k_next_pipe k))] \<and> fd \<notin> fst ` set (fds_of k me)
         \<and> alive k' (k_next_pid k) \<and> map_option pr_argv (k_procs k' (k_next_pid k)) = Some argv
         \<and> map_of (fds_of k' (k_next_pid k)) 0 = Some (read_end (k_next_pipe k))
         \<and> (\<forall>q. q \<noteq> me \<and> q \<noteq> k_next_pid k \<longrightarrow> k_procs k' q = k_procs k q)
       else (\<exists>ctx. x = Inl (Thrown (Error_io tx (the (spawn_refusal os argv k)) ctx))) \<and> k_procs k' = k_procs k
         \<and> k_written k' = k_written k)"
proof -
  obtain pr where me: "k_procs k me = Some pr" using assms(1) by (auto simp: kernel_ok_def)
  with assms have ok: "0 \<in> fst ` set (pr_fds pr)" and c: "k_next_pid k \<noteq> me"
    by (auto simp: kernel_ok_def)
  have zero: "0 \<notin> fst ` set (inherited (pr_fds pr))" by (auto simp: inherited_def)
  show ?thesis
  proof (cases rule: spawn_cases [OF assms(1) me ok, of os argv tx])
    case (1 fd)
    with me c zero show ?thesis
      by (simp add: fds_of_def alive_def plugin_process_def map_of_fresh map_add_def)
  next
    case (2 e ctx n m)
    then show ?thesis by auto
  qed
qed

text \<open>
  C17. When the frontend dies, the operating system closes the standard input of the plugin
  it launched last only: the write ends of the others have been inherited by the plugins
  launched after them.  So the plugins exit one after the other, the last first; as long
  as one is alive so are all before it, and one that is stuck keeps all before it alive for
  ever, in every order of events.  If none is stuck, all can come to their end.
\<close>

theorem plugins_outlive_a_stuck_one:
  assumes "kernel_ok me k0" and "0 \<in> fst ` set (fds_of k0 me)" and "launched os tx me k0 cs k"
    and "(plugin_exits (map fst cs))\<^sup>*\<^sup>* (sys_exit me k) k'"
  shows "(\<forall>i j. i \<le> j \<and> j < length cs \<and> alive k' (fst (cs ! j)) \<longrightarrow> alive k' (fst (cs ! i)))
    \<and> (\<forall>i j. i \<le> j \<and> j < length cs \<and> os_stuck os (fst (cs ! j)) \<longrightarrow> alive k' (fst (cs ! i)))
    \<and> ((\<forall>j < length cs. \<not> os_stuck os (fst (cs ! j))) \<longrightarrow>
        (\<exists>k''. (plugin_exits (map fst cs))\<^sup>*\<^sup>* k' k'' \<and> (\<forall>j < length cs. \<not> alive k'' (fst (cs ! j)))))"
proof -
  have start: "orphans os cs (length cs) (sys_exit me k)"
    by (rule frontend_dies [OF launched_fleet [OF assms(1-3)]])
  from orphans_reach [OF assms(4) start] obtain n where n: "n \<le> length cs" "orphans os cs n k'"
    "\<forall>i. n \<le> i \<and> i < length cs \<longrightarrow> \<not> os_stuck os (fst (cs ! i))" by blast
  then have live: "alive k' (fst (cs ! i)) \<longleftrightarrow> i < n" if "i < length cs" for i
    using that unfolding orphans_def by blast
  have "\<exists>k''. (plugin_exits (map fst cs))\<^sup>*\<^sup>* k' k'' \<and> (\<forall>j < length cs. \<not> alive k'' (fst (cs ! j)))"
    if "\<forall>j < length cs. \<not> os_stuck os (fst (cs ! j))"
    using orphans_all_gone [OF n(2)] that n(1) unfolding orphans_def by (meson less_le_trans not_less_zero)
  moreover have "alive k' (fst (cs ! i))" if "i \<le> j" "j < length cs" "alive k' (fst (cs ! j))" for i j
    using that live [of i] live [of j] by simp
  moreover have "alive k' (fst (cs ! i))" if "i \<le> j" "j < length cs" "os_stuck os (fst (cs ! j))" for i j
    using that live [of i] n(3) by (metis le_less_trans not_le)
  ultimately show ?thesis by blast
qed

text \<open>
  A frontend, process 1, with its three standard descriptors, on a system that grants
  everything and where process 3 gets stuck.
\<close>

definition demo_kernel :: kernel where
  "demo_kernel = \<lparr>k_procs = [1 \<mapsto> \<lparr>pr_fds = map (\<lambda>n. (n, \<lparr>fe_file = OtherFile, fe_cloexec = False\<rparr>)) [0, 1, 2],
       pr_argv = [''frontend''], pr_alive = True, pr_stuck = False\<rparr>],
     k_next_pipe = 0, k_next_pid = 2, k_written = []\<rparr>"

definition demo_os :: os where
  "demo_os = \<lparr>os_pipe = (\<lambda>_. None), os_fork = (\<lambda>_. None), os_exec = (\<lambda>_. None), os_stuck = (\<lambda>pid. pid = 3)\<rparr>"

lemma demo_kernel_ok: "kernel_ok 1 demo_kernel" "0 \<in> fst ` set (fds_of demo_kernel 1)"
  by (auto simp: kernel_ok_def demo_kernel_def fds_of_def uses_pipe_def split: if_splits)

theorem spawn_all_or_nothing_witness:
  "\<exists>k' fd. spawnPlugin demo_os example_texts 1 [''plugin''] demo_kernel = Some (k', Inr (2, fd))
     \<and> alive k' 2 \<and> fds_of k' 1 = fds_of demo_kernel 1 @ [(fd, write_end 0)]"
proof -
  have "spawn_refusal demo_os [''plugin''] demo_kernel = None" "k_next_pid demo_kernel = 2" "k_next_pipe demo_kernel = 0"
    by (simp_all add: spawn_refusal_def demo_os_def demo_kernel_def)
  with spawn_all_or_nothing [OF demo_kernel_ok, of demo_os example_texts "[''plugin'']"]
  show ?thesis by auto
qed

lemma demo_launched: "\<exists>k. launched demo_os example_texts 1 demo_kernel [(2, 0), (3, 2)] k"
proof -
  have free: "os_pipe demo_os p = None" "os_fork demo_os p = None" "os_exec demo_os argv = None" for p argv
    by (simp_all add: demo_os_def)
  then have granted: "spawn_refusal demo_os argv k = None" for argv k by (simp add: spawn_refusal_def)
  obtain pr where pr: "k_procs demo_kernel 1 = Some pr" "0 \<in> fst ` set (pr_fds pr)"
    by (simp add: demo_kernel_def)
  obtain k1 fd1 where k1: "spawnPlugin demo_os example_texts 1 [''a''] demo_kernel = Some (k1, Inr (2, fd1))"
    "k_next_pid k1 = 3" "k_next_pipe k1 = 2"
  proof (cases rule: spawn_cases [OF demo_kernel_ok(1) pr, of demo_os "[''a'']" example_texts])
    case (1 fd)
    then show thesis by (intro that) (auto simp: demo_kernel_def)
  next
    case (2 e ctx n m)
    with granted show thesis by simp
  qed
  note one = launched_one [OF launched_none k1(1)]
  note fleet = launched_fleet [OF demo_kernel_ok one]
  have ok1: "kernel_ok 1 k1" "0 \<in> fst ` set (fds_of k1 1)"
    using fleet unfolding fleet_def by blast+
  then obtain pr1 where pr1: "k_procs k1 1 = Some pr1" "kernel_ok 1 k1" "0 \<in> fst ` set (pr_fds pr1)"
    by (metis fds_of_Some kernel_ok_def not_None_eq)
  obtain k2 fd2 where "spawnPlugin demo_os example_texts 1 [''b''] k1 = Some (k2, Inr (3, fd2))"
  proof (cases rule: spawn_cases [OF pr1(2,1,3), of demo_os "[''b'']" example_texts])
    case (1 fd)
    with k1(2) show thesis by (intro that) auto
  next
    case (2 e ctx n m)
    with granted show thesis by simp
  qed
  from launched_one [OF one this] k1(3) show ?thesis by (auto simp: demo_kernel_def)
qed

theorem plugins_outlive_a_stuck_one_witness:
  "\<exists>k. launched demo_os example_texts 1 demo_kernel [(2, 0), (3, 2)] k
     \<and> (\<forall>k'. (plugin_exits [2, 3])\<^sup>*\<^sup>* (sys_exit 1 k) k' \<longrightarrow> alive k' 2 \<and> alive k' 3)"
proof -
  obtain k where k: "launched demo_os example_texts 1 demo_kernel [(2, 0), (3, 2)] k"
    using demo_launched by blast
  have "alive k' 2 \<and> alive k' 3" if "(plugin_exits [2, 3])\<^sup>*\<^sup>* (sys_exit 1 k) k'" for k'
  proof -
    let ?cs = "[(2, 0), (3, 2)] :: (nat \<times> nat) list"
    have "(plugin_exits (map fst ?cs))\<^sup>*\<^sup>* (sys_exit 1 k) k'" using that by simp
    from plugins_outlive_a_stuck_one [OF demo_kernel_ok k this]
    have all: "\<forall>i j. i \<le> j \<and> j < length ?cs \<and> os_stuck demo_os (fst (?cs ! j)) \<longrightarrow> alive k' (fst (?cs ! i))"
      by (rule conjunct1 [OF conjunct2])
    have "os_stuck demo_os (fst (?cs ! 1))" by (simp add: demo_os_def)
    with spec [OF spec [OF all, of 0], of 1] spec [OF spec [OF all, of 1], of 1] show ?thesis by simp
  qed
  with k show ?thesis by blast
qed

text \<open>
  A frontend whose descriptor 0 is closed gets it for the read end of the pipe; \<open>dup2\<close> then
  does nothing, the \<open>close\<close> after it closes the child's standard input, and the plugin sees
  the end of it at once.
\<close>

lemma closed_stdin_starves_the_plugin:
  "(case spawnPlugin demo_os example_texts 1 [''plugin'']
       (on_proc 1 (\<lambda>pr. pr\<lparr>pr_fds := []\<rparr>) demo_kernel) of
      Some (k, Inr (pid, fd)) \<Rightarrow> map_of (fds_of k pid) 0 = None \<and> alive k pid \<and> stdin_eof k pid
    | _ \<Rightarrow> False)"
  by code_simp

end
