(* ===== verification/OCP_CppClient.thy ===== *)
theory OCP_CppClient
  imports OCP_Client OCP_CppEncoding OCP_CppTransport OCP_CppSpawn
begin

text \<open>
  \<open>cpp/src/client.cpp\<close>: the C++ binding's \<open>CaptureClient\<close>, its typed requests, the
  event stream, moving, shutting down and destruction, over one state of the
  kernel, of nng and of the disk; and its agreement with the Rust client.
\<close>

section \<open>The client\<close>

text \<open>
  What lies outside the object: the kernel with its processes, nng's sockets, the disk.
\<close>

record world =
  w_kernel :: kernel
  w_nng :: nng_state
  w_disk :: disk

text \<open>
  \<open>class CaptureClient\<close>.  A socket member is its handle; beside it stands the traffic of
  the socket, what its receives and sends will report.  \<open>endpoints_\<close> is a unique pointer.
\<close>

record cpp_client =
  cc_endpoints :: "endpoints option"
  cc_control :: cpp_socket
  cc_events :: cpp_socket
  cc_control_io :: socket
  cc_events_io :: socket
  cc_pid :: int
  cc_stdinFd :: int
  cc_seq :: u32
  cc_captureId :: u64

definition CaptureClient_default :: "socket \<Rightarrow> socket \<Rightarrow> cpp_client" where
  "CaptureClient_default control events =
     \<lparr>cc_endpoints = None, cc_control = Socket_empty, cc_events = Socket_empty,
      cc_control_io = control, cc_events_io = events, cc_pid = - 1, cc_stdinFd = - 1,
      cc_seq = 0, cc_captureId = 0\<rparr>"

definition REQUEST_TIMEOUT_MS :: int where
  "REQUEST_TIMEOUT_MS = 60000"

definition nextCaptureId :: "cpp_client \<Rightarrow> cpp_client \<times> u64" where
  "nextCaptureId c = (let n = cc_captureId c + 1 in (c\<lparr>cc_captureId := n\<rparr>, n))"

definition isRunning :: "cpp_client \<Rightarrow> bool" where
  "isRunning c \<longleftrightarrow> 0 < cc_pid c"

section \<open>Requests\<close>

text \<open>Protobuf's coders of the three messages, as far as C++ sees them.\<close>

record cpp_wire =
  ser_request :: "request_msg \<Rightarrow> bytes option"
  parse_response :: "bytes \<Rightarrow> response_msg option"
  parse_event :: "bytes \<Rightarrow> event_msg option"

type_synonym 'r called = "(cpp_client \<times> 'r throws) option"

definition responseName :: "response_msg \<Rightarrow> string" where
  "responseName r =
     (case rs_response r of
        Some (RespHello _) \<Rightarrow> ''Hello''
      | Some (RespDescribe _) \<Rightarrow> ''Describe''
      | Some (RespGetConfig _) \<Rightarrow> ''GetConfig''
      | Some (RespSetConfig _) \<Rightarrow> ''SetConfig''
      | Some RespAcquireStart \<Rightarrow> ''AcquireStart''
      | Some RespAcquireStop \<Rightarrow> ''AcquireStop''
      | Some RespReset \<Rightarrow> ''Reset''
      | Some RespShutdown \<Rightarrow> ''Shutdown''
      | None \<Rightarrow> ''nothing'')"

definition unexpected_cpp :: "string \<Rightarrow> response_msg \<Rightarrow> cpp_error" where
  "unexpected_cpp request got =
     Error_protocol (request @ '' answered with a '' @ responseName got @ '' result'')"

definition request_cpp :: "texts \<Rightarrow> cpp_wire \<Rightarrow> cpp_client \<Rightarrow> request \<Rightarrow> response_msg called" where
  "request_cpp tx cw c arm =
     (let seq = cc_seq c + 1; c = c\<lparr>cc_seq := seq\<rparr> in
      case Socket_send tx (ser_request cw) ''omso.capture.v1.Request'' (cc_control_io c)
             \<lparr>rq_seq = seq, rq_request = Some arm\<rparr> of
        (control, Inl x) \<Rightarrow> Some (c\<lparr>cc_control_io := control\<rparr>, Inl x)
      | (control, Inr _) \<Rightarrow>
     (case Socket_recv tx (parse_response cw) ''recv'' ''omso.capture.v1.Response'' control of
        None \<Rightarrow> None
      | Some (control, Inl x) \<Rightarrow> Some (c\<lparr>cc_control_io := control\<rparr>, Inl x)
      | Some (control, Inr response) \<Rightarrow>
          Some (c\<lparr>cc_control_io := control\<rparr>,
            if rs_seq response \<noteq> seq
            then throw_protocol (''plugin answered request '' @ show_dec (unat seq)
                   @ '' with a reply to '' @ show_dec (unat (rs_seq response)))
            else (case rs_error response of
                    Some e \<Rightarrow> Inl (Thrown (Error_remote tx e))
                  | None \<Rightarrow>
                      if rs_response response = None
                      then throw_protocol ''reply carries neither result nor error''
                      else Inr response))))"

text \<open>The \<open>if\<close> on \<open>response_case()\<close> that every typed request ends with.\<close>

definition expecting :: "(response_msg \<Rightarrow> 'r option) \<Rightarrow> string \<Rightarrow> response_msg called \<Rightarrow> 'r called" where
  "expecting arm name a = map_option (\<lambda>(c, x). (c, rbind x (\<lambda>r. case arm r of
     Some v \<Rightarrow> Inr v | None \<Rightarrow> Inl (Thrown (unexpected_cpp name r))))) a"

definition hello_cpp :: "texts \<Rightarrow> cpp_wire \<Rightarrow> cpp_client \<Rightarrow> string \<Rightarrow> string \<Rightarrow> hello_result called" where
  "hello_cpp tx cw c clientName clientVersion =
     expecting (\<lambda>r. case rs_response r of Some (RespHello v) \<Rightarrow> Some v | _ \<Rightarrow> None) ''Hello''
       (request_cpp tx cw c (ReqHello
          \<lparr>he_protocol = PROTOCOL_VERSION, he_client_name = clientName, he_client_version = clientVersion,
           he_accept_encodings = map sample_encoding_i32 supportedEncodings,
           he_accept_codecs = map codec_i32 supportedCodecs\<rparr>))"

definition describe_cpp :: "texts \<Rightarrow> cpp_wire \<Rightarrow> cpp_client \<Rightarrow> description called" where
  "describe_cpp tx cw c =
     expecting (\<lambda>r. case rs_response r of Some (RespDescribe v) \<Rightarrow> Some v | _ \<Rightarrow> None) ''Describe''
       (request_cpp tx cw c ReqDescribe)"

definition getConfig_cpp :: "texts \<Rightarrow> cpp_wire \<Rightarrow> cpp_client \<Rightarrow> config called" where
  "getConfig_cpp tx cw c =
     expecting (\<lambda>r. case rs_response r of Some (RespGetConfig v) \<Rightarrow> Some v | _ \<Rightarrow> None) ''GetConfig''
       (request_cpp tx cw c ReqGetConfig)"

definition setConfig_cpp :: "texts \<Rightarrow> cpp_wire \<Rightarrow> cpp_client \<Rightarrow> config \<Rightarrow> config called" where
  "setConfig_cpp tx cw c config =
     expecting (\<lambda>r. case rs_response r of Some (RespSetConfig v) \<Rightarrow> Some v | _ \<Rightarrow> None) ''SetConfig''
       (request_cpp tx cw c (ReqSetConfig \<lparr>sc_config = Some config\<rparr>))"

definition acquireStart_cpp :: "texts \<Rightarrow> cpp_wire \<Rightarrow> cpp_client \<Rightarrow> u64 \<Rightarrow> acquire_mode \<Rightarrow> unit called" where
  "acquireStart_cpp tx cw c captureId mode =
     expecting (\<lambda>r. case rs_response r of Some RespAcquireStart \<Rightarrow> Some () | _ \<Rightarrow> None) ''AcquireStart''
       (request_cpp tx cw c (ReqAcquireStart \<lparr>as_capture_id = captureId, as_mode = acquire_mode_i32 mode\<rparr>))"

definition acquireStop_cpp :: "texts \<Rightarrow> cpp_wire \<Rightarrow> cpp_client \<Rightarrow> u64 \<Rightarrow> unit called" where
  "acquireStop_cpp tx cw c captureId =
     expecting (\<lambda>r. case rs_response r of Some RespAcquireStop \<Rightarrow> Some () | _ \<Rightarrow> None) ''AcquireStop''
       (request_cpp tx cw c (ReqAcquireStop \<lparr>ap_capture_id = captureId\<rparr>))"

definition reset_cpp :: "texts \<Rightarrow> cpp_wire \<Rightarrow> cpp_client \<Rightarrow> unit called" where
  "reset_cpp tx cw c =
     expecting (\<lambda>r. case rs_response r of Some RespReset \<Rightarrow> Some () | _ \<Rightarrow> None) ''Reset''
       (request_cpp tx cw c ReqReset)"

definition nextEvent_cpp :: "texts \<Rightarrow> cpp_wire \<Rightarrow> cpp_client \<Rightarrow> event_msg called" where
  "nextEvent_cpp tx cw c = map_option (\<lambda>(s, x). (c\<lparr>cc_events_io := s\<rparr>, x))
     (Socket_recv tx (parse_event cw) ''recv'' ''omso.capture.v1.Event'' (cc_events_io c))"

text \<open>\<open>EventStream\<close> borrows the handle, so that it works on the same traffic.\<close>

definition EventStream_next :: "texts \<Rightarrow> cpp_wire \<Rightarrow> socket \<Rightarrow> (socket \<times> event_msg throws) option" where
  "EventStream_next tx cw s = Socket_recv tx (parse_event cw) ''recv event'' ''Event'' s"

definition EventStream_setTimeout ::
  "nng_lib \<Rightarrow> texts \<Rightarrow> cpp_socket \<Rightarrow> int option \<Rightarrow> nng_state \<Rightarrow> nng_state \<times> unit throws" where
  "EventStream_setTimeout lib tx s timeout ns = setRecvTimeout lib tx Pull0 s timeout ns"

definition setRequestTimeout ::
  "nng_lib \<Rightarrow> texts \<Rightarrow> cpp_client \<Rightarrow> int option \<Rightarrow> nng_state \<Rightarrow> nng_state \<times> unit throws" where
  "setRequestTimeout lib tx c t ns = setRecvTimeout lib tx Req0 (cc_control c) t ns"

definition setEventTimeout ::
  "nng_lib \<Rightarrow> texts \<Rightarrow> cpp_client \<Rightarrow> int option \<Rightarrow> nng_state \<Rightarrow> nng_state \<times> unit throws" where
  "setEventTimeout lib tx c t ns = setRecvTimeout lib tx Pull0 (cc_events c) t ns"

section \<open>The end of a plugin\<close>

text \<open>
  \<open>kill(pid, SIGKILL)\<close>.  \<open>waitpid\<close> returns once the process has exited: at once if it has,
  and otherwise when it does so by itself, which takes a plugin that is not stuck and has
  been told to go (\<open>leaving\<close>) or sees the end of its standard input.
\<close>

definition sys_kill :: "nat \<Rightarrow> kernel \<Rightarrow> kernel" where
  "sys_kill pid k = sys_exit pid k"

definition sys_waitpid :: "bool \<Rightarrow> nat \<Rightarrow> kernel \<Rightarrow> kernel option" where
  "sys_waitpid leaving pid k =
     (if \<not> alive k pid then Some (reap pid k)
      else if \<not> stuck k pid \<and> (leaving \<or> stdin_eof k pid) then Some (reap pid (sys_exit pid k))
      else None)"

definition close_stdin :: "nat \<Rightarrow> kernel \<Rightarrow> cpp_client \<Rightarrow> kernel \<times> cpp_client" where
  "close_stdin me k c =
     (if 0 \<le> cc_stdinFd c then (sys_close me (nat (cc_stdinFd c)) k, c\<lparr>cc_stdinFd := - 1\<rparr>) else (k, c))"

definition terminate :: "nat \<Rightarrow> kernel \<Rightarrow> cpp_client \<Rightarrow> (kernel \<times> cpp_client) option" where
  "terminate me k c =
     (let (k, c) = close_stdin me k c in
      if 0 < cc_pid c
      then map_option (\<lambda>k. (k, c\<lparr>cc_pid := - 1\<rparr>))
             (sys_waitpid False (nat (cc_pid c)) (sys_kill (nat (cc_pid c)) k))
      else Some (k, c))"

text \<open>
  \<open>shutdown\<close>; the second \<open>waitpid\<close> is for a plugin that has accepted the request.  An
  exception of the \<open>try\<close> block terminates the plugin and is thrown again.
\<close>

definition shutdown_cpp ::
  "texts \<Rightarrow> cpp_wire \<Rightarrow> nat \<Rightarrow> kernel \<Rightarrow> cpp_client \<Rightarrow> (kernel \<times> cpp_client \<times> unit throws) option" where
  "shutdown_cpp tx cw me k c =
     (if cc_pid c \<le> 0 then Some (k, c, Inr ())
      else case expecting (\<lambda>r. case rs_response r of Some RespShutdown \<Rightarrow> Some () | _ \<Rightarrow> None) ''Shutdown''
                  (request_cpp tx cw c ReqShutdown) of
             None \<Rightarrow> None
           | Some (c, Inl x) \<Rightarrow> map_option (\<lambda>(k, c). (k, c, Inl x)) (terminate me k c)
           | Some (c, Inr _) \<Rightarrow>
               (let (k, c) = close_stdin me k c in
                map_option (\<lambda>k. (k, c\<lparr>cc_pid := - 1\<rparr>, Inr ())) (sys_waitpid True (nat (cc_pid c)) k)))"

text \<open>
  The destructor: \<open>terminate\<close>, then the members in the reverse of their order, the event
  socket, the control socket and the endpoints.
\<close>

definition drop_members :: "nng_state \<Rightarrow> disk \<Rightarrow> cpp_client \<Rightarrow> nng_state \<times> disk" where
  "drop_members ns d c =
     (let (ns, _) = Socket_close ns (cc_events c); (ns, _) = Socket_close ns (cc_control c)
      in (ns, case cc_endpoints c of None \<Rightarrow> d | Some e \<Rightarrow> Endpoints_dtor d e))"

definition CaptureClient_dtor :: "nat \<Rightarrow> world \<Rightarrow> cpp_client \<Rightarrow> world option" where
  "CaptureClient_dtor me w c =
     map_option (\<lambda>(k, c). let (ns, d) = drop_members (w_nng w) (w_disk w) c
                          in \<lparr>w_kernel = k, w_nng = ns, w_disk = d\<rparr>)
       (terminate me (w_kernel w) c)"

text \<open>
  Moving: the new object takes over everything, the old one owns nothing any more.  A move
  assignment first ends what the object had: the plugin, then the endpoints, the control
  socket and the event socket as each member is assigned.
\<close>

definition moved_from :: "cpp_client \<Rightarrow> cpp_client" where
  "moved_from other = other\<lparr>cc_endpoints := None, cc_control := snd (Socket_move (cc_control other)),
     cc_events := snd (Socket_move (cc_events other)), cc_pid := - 1, cc_stdinFd := - 1\<rparr>"

definition CaptureClient_move :: "cpp_client \<Rightarrow> cpp_client \<times> cpp_client" where
  "CaptureClient_move other = (other, moved_from other)"

definition CaptureClient_assign :: "nat \<Rightarrow> world \<Rightarrow> cpp_client \<Rightarrow> cpp_client \<Rightarrow>
    (world \<times> cpp_client \<times> cpp_client) option" where
  "CaptureClient_assign me w this other =
     map_option (\<lambda>(k, this).
       let d = (case cc_endpoints this of None \<Rightarrow> w_disk w | Some e \<Rightarrow> Endpoints_dtor (w_disk w) e);
           (ns, control, old_control) = Socket_assign (w_nng w) (cc_control this) (cc_control other);
           (ns, events, old_events) = Socket_assign ns (cc_events this) (cc_events other)
       in (\<lparr>w_kernel = k, w_nng = ns, w_disk = d\<rparr>,
           other\<lparr>cc_control := control, cc_events := events\<rparr>,
           other\<lparr>cc_endpoints := None, cc_control := old_control, cc_events := old_events,
                 cc_pid := - 1, cc_stdinFd := - 1\<rparr>))
       (terminate me (w_kernel w) this)"

section \<open>Calls: agreement with the Rust client\<close>

text \<open>
  The two bindings meet in protobuf's wire format, and not in its bytes: a serializer may
  put the fields of a message in another order.  A request is carried if the Rust decoder
  reads it back from what either binding writes.  The messages that are waiting for the
  client are understood if the parsers of both bindings read the same message from them,
  as they do from every encoding of a message, or both refuse them.
\<close>

definition carried :: "wire \<Rightarrow> cpp_wire \<Rightarrow> request_msg \<Rightarrow> bool" where
  "carried w cw m \<longleftrightarrow> dec_request w (enc_request w m) = Inr m
     \<and> (\<exists>bs. ser_request cw m = Some bs \<and> dec_request w bs = Inr m)"

definition read_alike :: "(bytes \<Rightarrow> decode_error + 'm) \<Rightarrow> (bytes \<Rightarrow> 'm option) \<Rightarrow> bytes \<Rightarrow> bool" where
  "read_alike dec parse bs \<longleftrightarrow> parse bs = (case dec bs of Inl _ \<Rightarrow> None | Inr m \<Rightarrow> Some m)"

definition understood :: "wire \<Rightarrow> cpp_wire \<Rightarrow> capture_client \<Rightarrow> bool" where
  "understood w cw c \<longleftrightarrow>
     (\<forall>bs. Inr bs \<in> set (sk_inbox (cl_control c)) \<longrightarrow> read_alike (dec_response w) (parse_response cw) bs)
     \<and> (\<forall>bs. Inr bs \<in> set (sk_inbox (cl_events c)) \<longrightarrow> read_alike (dec_event w) (parse_event cw) bs)"

text \<open>
  Two clients in the same state: the same counters, the same traffic to come, and in what
  they have sent the far end reads the same.
\<close>

definition same_socket :: "(bytes \<Rightarrow> 'x) \<Rightarrow> socket \<Rightarrow> socket \<Rightarrow> bool" where
  "same_socket read s t \<longleftrightarrow> sk_inbox t = sk_inbox s \<and> sk_faults t = sk_faults s
     \<and> map read (sk_sent t) = map read (sk_sent s)"

definition agree_client :: "(bytes \<Rightarrow> 'x) \<Rightarrow> capture_client \<Rightarrow> cpp_client \<Rightarrow> bool" where
  "agree_client read c k \<longleftrightarrow> same_socket read (cl_control c) (cc_control_io k)
     \<and> cc_events_io k = cl_events c \<and> cc_seq k = cl_seq c \<and> cc_captureId k = cl_capture_id c"

definition same_call ::
  "texts \<Rightarrow> (bytes \<Rightarrow> 'x) \<Rightarrow> ('r \<Rightarrow> 'q \<Rightarrow> bool) \<Rightarrow> 'r answered \<Rightarrow> 'q called \<Rightarrow> bool" where
  "same_call tx read R = rel_option (\<lambda>(c, r) (k, x). agree_client read c k \<and> same_result tx R r x)"

lemma same_socket_coarser:
  assumes "same_socket read s t" and "\<And>a b. read a = read b \<Longrightarrow> coarse a = coarse b"
  shows "same_socket coarse s t"
proof -
  have "list_all2 (\<lambda>a b. read a = read b) (sk_sent t) (sk_sent s)"
    using assms(1) by (simp add: same_socket_def list.rel_eq [symmetric] list.rel_map)
  then have "list_all2 (\<lambda>a b. coarse a = coarse b) (sk_sent t) (sk_sent s)"
    by (rule list.rel_mono_strong) (rule assms(2))
  then show ?thesis using assms(1) by (simp add: same_socket_def list.rel_eq [symmetric] list.rel_map)
qed

lemma Socket_send_eq:
  assumes "same_socket read s t" and "ser m = Some buf" and "read buf = read (enc m)"
  shows "same_socket read (fst (send enc s m)) (fst (Socket_send tx ser ty t m))
    \<and> same_result tx (=) (snd (send enc s m)) (snd (Socket_send tx ser ty t m))
    \<and> sk_inbox (fst (send enc s m)) = sk_inbox s"
  using assms by (auto simp: Socket_send_def send_def sock_send_def same_socket_def split: list.splits option.splits)

lemma Socket_recv_eq:
  assumes "same_socket read s t" and "\<And>bs. Inr bs \<in> set (sk_inbox s) \<Longrightarrow> read_alike dec parse bs"
  shows "rel_option (\<lambda>(s, r) (t, x). same_socket read s t \<and> same_result tx (=) r x)
    (recv dec s) (Socket_recv tx parse ctx ty t)"
  using assms
  by (auto simp: Socket_recv_def recv_def same_socket_def read_alike_def split: list.splits sum.splits)

lemma request_agrees:
  assumes "ser_request cw \<lparr>rq_seq = cl_seq c + 1, rq_request = Some rq\<rparr> = Some buf"
    and "read buf = read (enc_request w \<lparr>rq_seq = cl_seq c + 1, rq_request = Some rq\<rparr>)"
    and "understood w cw c" and "agree_client read c k"
  shows "same_call tx read (\<lambda>r m. rs_response m = Some r) (client_request w c rq) (request_cpp tx cw k rq)"
proof -
  let ?m = "\<lparr>rq_seq = cl_seq c + 1, rq_request = Some rq\<rparr>"
  let ?ty = "''omso.capture.v1.Request''" and ?ty' = "''omso.capture.v1.Response''"
  have io: "same_socket read (cl_control c) (cc_control_io k)" "cc_seq k = cl_seq c"
    using assms(4) by (simp_all add: agree_client_def)
  note sent = Socket_send_eq [where enc = "enc_request w" and ser = "ser_request cw" and m = ?m,
      OF io(1) assms(1,2), of tx ?ty]
  obtain s r where rust: "send (enc_request w) (cl_control c) ?m = (s, r)" by fastforce
  obtain t x where cpp: "Socket_send tx (ser_request cw) ?ty (cc_control_io k) ?m = (t, x)" by fastforce
  from sent have st: "same_socket read s t" "sk_inbox s = sk_inbox (cl_control c)" and same: "same_result tx (=) r x"
    by (simp_all add: rust cpp)
  from same show ?thesis
  proof (cases rule: same_result_cases)
    case (error e y)
    with rust cpp io st assms(4) show ?thesis
      by (simp add: client_request_def request_cpp_def Let_def same_call_def agree_client_def)
  next
    case (ok u v)
    note unit = ok(1,2)
    have "rel_option (\<lambda>(s, r) (t, x). same_socket read s t \<and> same_result tx (=) r x) (recv (dec_response w) s)
        (Socket_recv tx (parse_response cw) ''recv'' ?ty' t)"
      by (rule Socket_recv_eq [OF st(1)]) (use assms(3) st(2) in \<open>simp add: understood_def\<close>)
    then consider "recv (dec_response w) s = None" "Socket_recv tx (parse_response cw) ''recv'' ?ty' t = None"
      | s' t' r x where "recv (dec_response w) s = Some (s', r)" "same_socket read s' t'"
        "Socket_recv tx (parse_response cw) ''recv'' ?ty' t = Some (t', x)" "same_result tx (=) r x"
      by (auto elim!: option.rel_cases)
    then show ?thesis
    proof cases
      case 1
      with rust cpp ok io show ?thesis
        by (simp add: client_request_def request_cpp_def Let_def same_call_def)
    next
      case (2 s' t' r x)
      from 2(4) show ?thesis
      proof (cases rule: same_result_cases)
        case (error e y)
        with 2 rust cpp unit io assms(4) show ?thesis
          by (simp add: client_request_def request_cpp_def Let_def same_call_def agree_client_def)
      next
        case (ok m m')
        with 2 rust cpp unit io assms(4) show ?thesis
          by (auto simp: client_request_def request_cpp_def Let_def same_call_def agree_client_def
              split: option.splits)
      qed
    qed
  qed
qed

text \<open>A request that is carried is the same request to the far end.\<close>

lemma carried_agrees:
  assumes "carried w cw \<lparr>rq_seq = cl_seq c + 1, rq_request = Some rq\<rparr>"
    and "understood w cw c" and "agree_client (dec_request w) c k"
  shows "same_call tx (dec_request w) (\<lambda>r m. rs_response m = Some r) (client_request w c rq) (request_cpp tx cw k rq)"
proof -
  from assms(1) obtain buf where "ser_request cw \<lparr>rq_seq = cl_seq c + 1, rq_request = Some rq\<rparr> = Some buf"
    "dec_request w buf = dec_request w (enc_request w \<lparr>rq_seq = cl_seq c + 1, rq_request = Some rq\<rparr>)"
    by (auto simp: carried_def)
  from request_agrees [OF this assms(2,3)] show ?thesis .
qed

text \<open>What is left to read is understood still, so that the calls of a session follow on.\<close>

lemma understood_kept:
  "client_request w c rq = Some (c', r) \<Longrightarrow> understood w cw c \<Longrightarrow> understood w cw c'"
  "next_event w c = Some (c', r') \<Longrightarrow> understood w cw c \<Longrightarrow> understood w cw c'"
  by (auto simp: client_request_def next_event_def understood_def send_def sock_send_def recv_def Let_def
      split: prod.splits sum.splits option.splits list.splits)

lemma response_name_eq: "rs_response m = Some r \<Longrightarrow> responseName m = response_name r"
  by (cases r) (simp_all add: responseName_def)

text \<open>A typed call agrees if the two matches on the reply do.\<close>

lemma expecting_agrees:
  assumes "same_call tx read (\<lambda>r m. rs_response m = Some r) a b"
    and "\<And>r m. rs_response m = Some r \<Longrightarrow> mt r = (case arm m of Some v \<Rightarrow> Inr v | None \<Rightarrow> Inl (unexpected name r))"
  shows "same_call tx read (=) (matching mt a) (expecting arm name b)"
proof (cases a)
  case None
  with assms(1) show ?thesis by (simp add: same_call_def matching_def expecting_def)
next
  case (Some cr)
  then obtain c r k x where ab: "a = Some (c, r)" "b = Some (k, x)" "agree_client read c k"
    "same_result tx (\<lambda>r m. rs_response m = Some r) r x"
    using assms(1) by (cases cr; cases b) (auto simp: same_call_def)
  from ab(4) show ?thesis
  proof (cases rule: same_result_cases)
    case (ok r' m)
    with ab assms(2) [of m r'] show ?thesis
      by (auto simp: same_call_def matching_def expecting_def unexpected_def unexpected_cpp_def
          response_name_eq split: option.splits)
  qed (use ab in \<open>simp add: same_call_def matching_def expecting_def\<close>)
qed

lemma request_cpp_frame:
  "request_cpp tx cw k rq = Some (k', x) \<Longrightarrow>
   cc_pid k' = cc_pid k \<and> cc_stdinFd k' = cc_stdinFd k \<and> cc_endpoints k' = cc_endpoints k
   \<and> cc_control k' = cc_control k \<and> cc_events k' = cc_events k"
  by (auto simp: request_cpp_def Let_def split: prod.splits sum.splits option.splits)

lemma client_request_child: "client_request w c rq = Some (c', r) \<Longrightarrow> cl_child c' = cl_child c"
  by (auto simp: client_request_def Let_def split: prod.splits sum.splits option.splits)

lemma hello_request_eq:
  "\<lparr>he_protocol = PROTOCOL_VERSION, he_client_name = name, he_client_version = version,
     he_accept_encodings = map sample_encoding_i32 supportedEncodings,
     he_accept_codecs = map codec_i32 supportedCodecs\<rparr> = make_hello name version"
  by (simp add: make_hello_def negotiation_eq)

section \<open>Shutting down\<close>

lemma alive_close [simp]:
  "alive (sys_close me fd k) q = alive k q" "stuck (sys_close me fd k) q = stuck k q"
  by (auto simp: sys_close_def on_proc_def alive_def stuck_def split: option.splits)

lemma close_stdin_frame:
  "close_stdin me k c = (k', c') \<Longrightarrow>
   alive k' = alive k \<and> stuck k' = stuck k \<and> cc_pid c' = cc_pid c \<and> cc_stdinFd c' = min (- 1) (cc_stdinFd c)"
  by (auto simp: close_stdin_def fun_eq_iff split: if_splits)

lemma reap_gone [simp]: "k_procs (reap pid k) pid = None"
  by (simp add: reap_def)

text \<open>\<open>terminate\<close> always comes to an end, and the process is gone.\<close>

lemma terminate_returns:
  "\<exists>k' c'. terminate me k c = Some (k', c') \<and> cc_pid c' \<le> 0
     \<and> (0 < cc_pid c \<longrightarrow> k_procs k' (nat (cc_pid c)) = None)"
proof -
  obtain k1 c1 where close: "close_stdin me k c = (k1, c1)" by fastforce
  from close_stdin_frame [OF close] have "cc_pid c1 = cc_pid c" by simp
  then show ?thesis
    by (simp add: terminate_def close sys_waitpid_def sys_kill_def)
qed

text \<open>The outcome of \<open>shutdown\<close>, given the outcome of its request.\<close>

lemma shutdown_cpp_run:
  assumes "0 < cc_pid k" and "request_cpp tx cw k ReqShutdown = Some (k1, x)"
    and "alive kn (nat (cc_pid k))"
  obtains (accepted) m where "x = Inr m" "rs_response m = Some RespShutdown"
      "stuck kn (nat (cc_pid k)) \<Longrightarrow> shutdown_cpp tx cw me kn k = None"
      "\<not> stuck kn (nat (cc_pid k)) \<Longrightarrow> \<exists>kn' k'. shutdown_cpp tx cw me kn k = Some (kn', k', Inr ())
         \<and> k_procs kn' (nat (cc_pid k)) = None \<and> cc_pid k' \<le> 0"
  | (failed) y where "x = Inl y \<or> (\<exists>m. x = Inr m \<and> rs_response m \<noteq> Some RespShutdown
         \<and> y = Thrown (unexpected_cpp ''Shutdown'' m))"
      "\<exists>kn' k'. shutdown_cpp tx cw me kn k = Some (kn', k', Inl y)
         \<and> k_procs kn' (nat (cc_pid k)) = None \<and> cc_pid k' \<le> 0"
proof -
  note frame = request_cpp_frame [OF assms(2)]
  have thrown: "\<exists>kn' k'. shutdown_cpp tx cw me kn k = Some (kn', k', Inl y)
         \<and> k_procs kn' (nat (cc_pid k)) = None \<and> cc_pid k' \<le> 0"
    if "expecting (\<lambda>r. case rs_response r of Some RespShutdown \<Rightarrow> Some () | _ \<Rightarrow> None) ''Shutdown''
        (request_cpp tx cw k ReqShutdown) = Some (k1, Inl y)" for y
    using terminate_returns [of me kn k1] that assms(1) frame by (auto simp: shutdown_cpp_def)
  show thesis
  proof (cases x)
    case (Inl y)
    then show thesis using assms(2) by (intro failed thrown) (simp_all add: expecting_def)
  next
    case (Inr m)
    show thesis
    proof (cases "rs_response m = Some RespShutdown")
      case True
      obtain k2 c2 where close: "close_stdin me kn k1 = (k2, c2)" by fastforce
      note cf = close_stdin_frame [OF close]
      have run: "shutdown_cpp tx cw me kn k
          = map_option (\<lambda>k. (k, c2\<lparr>cc_pid := - 1\<rparr>, Inr ())) (sys_waitpid True (nat (cc_pid k)) k2)"
        using assms(1,2) Inr True close cf frame by (simp add: shutdown_cpp_def expecting_def)
      show thesis
        by (rule accepted [OF Inr True]) (use run cf assms(3) in \<open>auto simp: sys_waitpid_def\<close>)
    next
      case False
      then have "(case rs_response m of Some RespShutdown \<Rightarrow> Some () | _ \<Rightarrow> None) = None"
        by (auto split: option.splits response.splits)
      with assms(2) Inr False show thesis
        by (intro failed [of "Thrown (unexpected_cpp ''Shutdown'' m)"] thrown)
          (auto simp: expecting_def)
    qed
  qed
qed

section \<open>Properties\<close>

text \<open>
  C12. The two clients make the same calls, \<open>shutdown\<close> apart.  In the same state and
  over messages that protobuf carries and that both bindings understand, the seven typed
  requests before it send what the far end reads as the request of the Rust client, block
  when it blocks, and end in the same result or the same error, with both clients again in
  the same state; so does reading an event.  Capture ids agree too, except that the Rust
  counter panics on overflow in a debug build.
\<close>

definition typed_requests :: "string \<Rightarrow> string \<Rightarrow> config \<Rightarrow> u64 \<Rightarrow> acquire_mode \<Rightarrow> request set" where
  "typed_requests name version cfg i mode =
     {ReqHello (make_hello name version), ReqDescribe, ReqGetConfig, ReqSetConfig \<lparr>sc_config = Some cfg\<rparr>,
      ReqAcquireStart \<lparr>as_capture_id = i, as_mode = acquire_mode_i32 mode\<rparr>,
      ReqAcquireStop \<lparr>ap_capture_id = i\<rparr>, ReqReset}"

theorem clients_agree:
  assumes "\<And>rq. rq \<in> typed_requests name version cfg i mode \<Longrightarrow>
      carried w cw \<lparr>rq_seq = cl_seq c + 1, rq_request = Some rq\<rparr>"
    and "understood w cw c" and "agree_client (dec_request w) c k"
  shows "same_call tx (dec_request w) (=) (client_hello w c name version) (hello_cpp tx cw k name version)
    \<and> same_call tx (dec_request w) (=) (client_describe w c) (describe_cpp tx cw k)
    \<and> same_call tx (dec_request w) (=) (client_get_config w c) (getConfig_cpp tx cw k)
    \<and> same_call tx (dec_request w) (=) (client_set_config w c cfg) (setConfig_cpp tx cw k cfg)
    \<and> same_call tx (dec_request w) (=) (client_acquire_start w c i mode) (acquireStart_cpp tx cw k i mode)
    \<and> same_call tx (dec_request w) (=) (client_acquire_stop w c i) (acquireStop_cpp tx cw k i)
    \<and> same_call tx (dec_request w) (=) (client_reset w c) (reset_cpp tx cw k)
    \<and> same_call tx (dec_request w) (=) (next_event w c) (nextEvent_cpp tx cw k)
    \<and> (\<forall>c' n. next_capture_id prof c = Ret (c', n) \<longrightarrow>
        n = snd (nextCaptureId k) \<and> agree_client (dec_request w) c' (fst (nextCaptureId k)))"
proof (intro conjI allI impI)
  note call = expecting_agrees [OF carried_agrees [OF assms(1) assms(2,3)]]
  show "same_call tx (dec_request w) (=) (client_hello w c name version) (hello_cpp tx cw k name version)"
    unfolding client_hello_def hello_cpp_def hello_request_eq
    by (rule call) (auto simp: typed_requests_def split: response.splits)
  show "same_call tx (dec_request w) (=) (client_describe w c) (describe_cpp tx cw k)"
    unfolding client_describe_def describe_cpp_def
    by (rule call) (auto simp: typed_requests_def split: response.splits)
  show "same_call tx (dec_request w) (=) (client_get_config w c) (getConfig_cpp tx cw k)"
    unfolding client_get_config_def getConfig_cpp_def
    by (rule call) (auto simp: typed_requests_def split: response.splits)
  show "same_call tx (dec_request w) (=) (client_set_config w c cfg) (setConfig_cpp tx cw k cfg)"
    unfolding client_set_config_def setConfig_cpp_def
    by (rule call) (auto simp: typed_requests_def split: response.splits)
  show "same_call tx (dec_request w) (=) (client_acquire_start w c i mode) (acquireStart_cpp tx cw k i mode)"
    unfolding client_acquire_start_def acquireStart_cpp_def
    by (rule call) (auto simp: typed_requests_def split: response.splits)
  show "same_call tx (dec_request w) (=) (client_acquire_stop w c i) (acquireStop_cpp tx cw k i)"
    unfolding client_acquire_stop_def acquireStop_cpp_def
    by (rule call) (auto simp: typed_requests_def split: response.splits)
  show "same_call tx (dec_request w) (=) (client_reset w c) (reset_cpp tx cw k)"
    unfolding client_reset_def reset_cpp_def
    by (rule call) (auto simp: typed_requests_def split: response.splits)
  have io: "cc_events_io k = cl_events c" using assms(3) by (simp add: agree_client_def)
  have "rel_option (\<lambda>(s, r) (t, x). same_socket (\<lambda>bs. bs) s t \<and> same_result tx (=) r x)
      (recv (dec_event w) (cl_events c))
      (Socket_recv tx (parse_event cw) ''recv'' ''omso.capture.v1.Event'' (cl_events c))"
    by (rule Socket_recv_eq) (use assms(2) in \<open>simp_all add: same_socket_def understood_def\<close>)
  then show "same_call tx (dec_request w) (=) (next_event w c) (nextEvent_cpp tx cw k)"
    unfolding same_call_def next_event_def nextEvent_cpp_def io option.rel_map
    by (rule option.rel_mono_strong) (use assms(3) in \<open>auto simp: agree_client_def same_socket_def\<close>)
next
  fix c' n assume "next_capture_id prof c = Ret (c', n)"
  then show "n = snd (nextCaptureId k)" "agree_client (dec_request w) c' (fst (nextCaptureId k))"
    using assms(3) by (auto simp: next_capture_id_def u64_add_def nextCaptureId_def agree_client_def
        Let_def split: if_splits)
qed

text \<open>A C++ client in the state of a Rust client, and the coders as C++ calls them.\<close>

definition cpp_of :: "capture_client \<Rightarrow> cpp_client" where
  "cpp_of c = \<lparr>cc_endpoints = Some (cl_endpoints c), cc_control = Socket_empty, cc_events = Socket_empty,
     cc_control_io = cl_control c, cc_events_io = cl_events c, cc_pid = 2, cc_stdinFd = 3,
     cc_seq = cl_seq c, cc_captureId = cl_capture_id c\<rparr>"

definition cpp_wire_of :: "wire \<Rightarrow> cpp_wire" where
  "cpp_wire_of w = \<lparr>ser_request = (\<lambda>m. Some (enc_request w m)),
     parse_response = (\<lambda>bs. case dec_response w bs of Inl _ \<Rightarrow> None | Inr m \<Rightarrow> Some m),
     parse_event = (\<lambda>bs. case dec_event w bs of Inl _ \<Rightarrow> None | Inr m \<Rightarrow> Some m)\<rparr>"

lemma cpp_of_agrees: "understood w (cpp_wire_of w) c" "agree_client read c (cpp_of c)"
  by (simp_all add: understood_def read_alike_def cpp_wire_of_def agree_client_def same_socket_def cpp_of_def)

text \<open>
  A wire for the typed requests of one set of arguments, whose decoder skips what it does
  not know; the C++ serializer writes such a byte.
\<close>

definition seven_wire :: "string \<Rightarrow> string \<Rightarrow> config \<Rightarrow> u64 \<Rightarrow> acquire_mode \<Rightarrow> wire" where
  "seven_wire name version cfg i mode = tiny_wire\<lparr>dec_request := (\<lambda>bs. case bs of
     n # a # _ \<Rightarrow> Inr \<lparr>rq_seq = ucast n, rq_request = Some
         (if a = 10 then ReqHello (make_hello name version)
          else if a = 11 then ReqDescribe else if a = 12 then ReqGetConfig
          else if a = 13 then ReqSetConfig \<lparr>sc_config = Some cfg\<rparr>
          else if a = 14 then ReqAcquireStart \<lparr>as_capture_id = i, as_mode = acquire_mode_i32 mode\<rparr>
          else if a = 15 then ReqAcquireStop \<lparr>ap_capture_id = i\<rparr> else ReqReset)\<rparr>
   | _ \<Rightarrow> Inl (DecodeError ''bad length''))\<rparr>"

definition seven_cpp_wire :: "wire \<Rightarrow> cpp_wire" where
  "seven_cpp_wire w = (cpp_wire_of w)\<lparr>ser_request := (\<lambda>m. Some (enc_request w m @ [0]))\<rparr>"

theorem clients_agree_witness:
  "let w = seven_wire ''ui'' ''1'' default_config 1 AcquireSingle in
   \<exists>k'. reset_cpp example_texts (seven_cpp_wire w) (cpp_of (demo_client [Inr [1, 16]])) = Some (k', Inr ())
     \<and> cc_seq k' = 1
     \<and> map (dec_request w) (sk_sent (cc_control_io k')) = [Inr \<lparr>rq_seq = 1, rq_request = Some ReqReset\<rparr>]"
proof -
  let ?c = "demo_client [Inr [1, 16]]" and ?w = "seven_wire ''ui'' ''1'' default_config 1 AcquireSingle"
  have reset: "dec_request ?w [1, 16] = Inr \<lparr>rq_seq = 1, rq_request = Some ReqReset\<rparr>"
    by (simp add: seven_wire_def)
  have enc: "enc_request ?w = enc_request tiny_wire" "dec_response ?w = dec_response tiny_wire"
    by (simp_all add: seven_wire_def)
  obtain c' where rust: "client_reset ?w ?c = Some (c', Inr ())" "cl_seq c' = 1" "sk_sent (cl_control c') = [[1, 16]]"
    by (simp add: client_reset_def matching_def client_request_def send_def sock_send_def recv_def enc
        demo_client_def quiet_socket_def Let_def) (simp add: tiny_wire_def)
  have seq: "cl_seq ?c + 1 = 1" by (simp add: demo_client_def)
  have carried: "carried ?w (seven_cpp_wire ?w) \<lparr>rq_seq = cl_seq ?c + 1, rq_request = Some rq\<rparr>"
    if "rq \<in> typed_requests ''ui'' ''1'' default_config 1 AcquireSingle" for rq
    using that unfolding typed_requests_def seq carried_def seven_cpp_wire_def seven_wire_def
    by (auto simp: tiny_wire_def)
  have "understood ?w (seven_cpp_wire ?w) ?c"
    by (simp add: understood_def read_alike_def seven_cpp_wire_def cpp_wire_of_def)
  from clients_agree [where tx = example_texts, OF carried this cpp_of_agrees(2)]
  have "same_call example_texts (dec_request ?w) (=) (client_reset ?w ?c)
      (reset_cpp example_texts (seven_cpp_wire ?w) (cpp_of ?c))" by blast
  with rust reset show ?thesis
    by (auto simp: same_call_def option_rel_Some1 same_result_iff agree_client_def same_socket_def Let_def
        elim!: same_result_cases)
qed

text \<open>
  A C++ frontend works with a Rust plugin.  Over a sound link, what a request of the C++
  client returns is what the Rust serving loop's dispatcher says to it: the result of the
  handler, or its refusal as a remote error with the same code and text.
\<close>

lemma cpp_client_meets_rust_server:
  assumes "carried w cw \<lparr>rq_seq = cl_seq c + 1, rq_request = Some rq\<rparr>" and "understood w cw c"
    and "agree_client (dec_request w) c k" and "exchange w h s c rq"
  shows "\<exists>k' x. request_cpp tx cw k rq = Some (k', x)
    \<and> same_result tx (\<lambda>r m. rs_response m = Some r) (remotely (snd (dispatch w h s (Some rq)))) x"
proof (rule exchange_outcome [OF assms(4)])
  fix c' assume "client_request w c rq = Some (c', remotely (snd (dispatch w h s (Some rq))))"
  with carried_agrees [OF assms(1-3), of tx] show ?thesis
    by (auto simp: same_call_def option_rel_Some1)
qed

lemma cpp_client_meets_rust_server_witness:
  "\<exists>k' m. request_cpp example_texts (cpp_wire_of tiny_wire) (cpp_of (demo_client [Inr [1, 14]]))
       (ReqAcquireStart \<lparr>as_capture_id = 1, as_mode = acquire_mode_i32 AcquireSingle\<rparr>) = Some (k', Inr m)
     \<and> rs_response m = Some RespAcquireStart"
proof -
  let ?rq = "ReqAcquireStart \<lparr>as_capture_id = 1, as_mode = acquire_mode_i32 AcquireSingle\<rparr>"
  have "snd (dispatch tiny_wire (demo []) (demo_server False) (Some ?rq)) = Inr RespAcquireStart"
    by (simp add: dispatch_def call_def set_srv_running_def set_running_def demo_defs)
  moreover have "carried tiny_wire (cpp_wire_of tiny_wire)
      \<lparr>rq_seq = cl_seq (demo_client [Inr [1, 14]]) + 1, rq_request = Some ?rq\<rparr>"
    by (simp add: carried_def cpp_wire_of_def demo_client_def tiny_wire_def)
  ultimately show ?thesis
    using cpp_client_meets_rust_server [OF _ cpp_of_agrees demo_exchange, of example_texts]
    by (auto simp: remotely_def elim!: same_result_cases)
qed

text \<open>\<open>shutdown\<close> of the Rust client: the wait is for ever exactly if the process is stuck.\<close>

lemma rust_shutdown:
  assumes "proc_state (cl_child c) = Running" and "client_request w c ReqShutdown = Some (c', r)"
  shows "client_shutdown w c = None \<longleftrightarrow> proc_stubborn (cl_child c)"
    and "client_shutdown w c = Some (c'', r') \<Longrightarrow>
      r' = (case r of Inr RespShutdown \<Rightarrow> Inr () | Inr other \<Rightarrow> Inl (unexpected ''Shutdown'' other) | Inl e \<Rightarrow> Inl e)
      \<and> proc_state (cl_child c'') = Reaped"
  using assms client_request_child [OF assms(2)]
  by (auto simp: client_shutdown_def child_wait_def Let_def split: if_splits)

text \<open>
  C19. Where \<open>shutdown\<close> comes to an end.  The Rust client waits for the process whatever
  the reply was, so it waits for ever exactly if the process is stuck.  The C++ client
  waits only for a plugin that has accepted the request, and kills it otherwise: it waits
  for ever exactly if a stuck plugin has accepted.  Whenever it returns, the process is
  gone and reaped and a second call does nothing; and when both return they return the
  same.
\<close>

theorem shutdown_waits:
  assumes "ser_request cw \<lparr>rq_seq = cl_seq c + 1, rq_request = Some ReqShutdown\<rparr> \<noteq> None"
    and "understood w cw c" and "agree_client (dec_request w) c k" and "0 < cc_pid k"
    and "alive kn (nat (cc_pid k))" and "proc_state (cl_child c) = Running"
    and "stuck kn (nat (cc_pid k)) = proc_stubborn (cl_child c)"
    and "client_request w c ReqShutdown = Some (c', r)"
  shows "(client_shutdown w c = None \<longleftrightarrow> proc_stubborn (cl_child c))
    \<and> (shutdown_cpp tx cw me kn k = None \<longleftrightarrow> proc_stubborn (cl_child c) \<and> r = Inr RespShutdown)
    \<and> (\<forall>kn' k' x. shutdown_cpp tx cw me kn k = Some (kn', k', x) \<longrightarrow>
        k_procs kn' (nat (cc_pid k)) = None \<and> \<not> isRunning k'
        \<and> shutdown_cpp tx cw me kn' k' = Some (kn', k', Inr ())
        \<and> (\<forall>c'' r'. client_shutdown w c = Some (c'', r') \<longrightarrow>
            same_result tx (=) r' x \<and> proc_state (cl_child c'') = Reaped))"
proof -
  let ?r = "case r of Inr RespShutdown \<Rightarrow> Inr () | Inr other \<Rightarrow> Inl (unexpected ''Shutdown'' other) | Inl e \<Rightarrow> Inl e"
  obtain k1 y where req: "request_cpp tx cw k ReqShutdown = Some (k1, y)"
    and same: "same_result tx (\<lambda>r m. rs_response m = Some r) r y"
  proof -
    from assms(1) obtain buf where ser: "ser_request cw \<lparr>rq_seq = cl_seq c + 1, rq_request = Some ReqShutdown\<rparr> = Some buf"
      by blast
    have "agree_client (\<lambda>_. ()) c k"
      using assms(3) same_socket_coarser [of "dec_request w" _ _ "\<lambda>_. ()"] by (auto simp: agree_client_def)
    from request_agrees [OF ser refl assms(2) this, of tx] assms(8) show thesis
      by (auto simp: same_call_def option_rel_Some1 intro: that)
  qed
  have idem: "cc_pid k' \<le> 0 \<Longrightarrow> \<not> isRunning k' \<and> shutdown_cpp tx cw me kn' k' = Some (kn', k', Inr ())" for kn' k'
    by (simp add: isRunning_def shutdown_cpp_def)
  have shut: "client_shutdown w c = None \<longleftrightarrow> proc_stubborn (cl_child c)"
    "client_shutdown w c = Some (c'', r') \<Longrightarrow> r' = ?r \<and> proc_state (cl_child c'') = Reaped" for c'' r'
    by (rule rust_shutdown [OF assms(6,8)])+
  from assms(4) req assms(5) show ?thesis
  proof (cases rule: shutdown_cpp_run [of k tx cw k1 y kn me])
    case (accepted m)
    then have r: "r = Inr RespShutdown" using same by (auto simp: same_result_iff)
    show ?thesis
    proof (cases "proc_stubborn (cl_child c)")
      case True
      with accepted(3) assms(7) r shut(1) show ?thesis by simp
    next
      case False
      with accepted(4) assms(7) obtain kn' k' where
        "shutdown_cpp tx cw me kn k = Some (kn', k', Inr ())" "k_procs kn' (nat (cc_pid k)) = None"
        "cc_pid k' \<le> 0" by blast
      with False shut r idem [of k' kn'] show ?thesis by fastforce
    qed
  next
    case (failed z)
    from failed(1) same have r: "r \<noteq> Inr RespShutdown" "same_result tx (=) ?r (Inl z)"
      by (auto simp: same_result_iff unexpected_def unexpected_cpp_def response_name_eq
          split: response.splits)
    from failed(2) obtain kn' k' where
      "shutdown_cpp tx cw me kn k = Some (kn', k', Inl z)" "k_procs kn' (nat (cc_pid k)) = None"
      "cc_pid k' \<le> 0" by blast
    with shut r idem [of k' kn'] show ?thesis by (auto simp del: sum.case)
  qed
qed

text \<open>A stuck plugin, process 2, that does not answer the request in time.\<close>

definition stuck_kernel :: kernel where
  "stuck_kernel = demo_kernel\<lparr>k_procs := (k_procs demo_kernel)(2 \<mapsto> \<lparr>pr_fds = [(0, read_end 0)],
     pr_argv = [''plugin''], pr_alive = True, pr_stuck = True\<rparr>)\<rparr>"

definition stuck_client :: capture_client where
  "stuck_client = (demo_client [Inl (OtherNng 5)])\<lparr>cl_child :=
     (cl_child (demo_client []))\<lparr>proc_stubborn := True\<rparr>\<rparr>"

theorem shutdown_waits_witness:
  "client_shutdown tiny_wire stuck_client = None
   \<and> (\<exists>kn' k' x. shutdown_cpp example_texts (cpp_wire_of tiny_wire) 1 stuck_kernel (cpp_of stuck_client)
        = Some (kn', k', x) \<and> k_procs kn' 2 = None)"
proof -
  obtain c' where req: "client_request tiny_wire stuck_client ReqShutdown = Some (c', Inl (Nng (OtherNng 5)))"
    by (simp add: client_request_def send_def sock_send_def recv_def stuck_client_def demo_client_def
        quiet_socket_def Let_def)
  have pid: "nat (cc_pid (cpp_of c)) = 2" "0 < cc_pid (cpp_of c)" for c by (simp_all add: cpp_of_def)
  have "alive stuck_kernel 2" "stuck stuck_kernel 2" "proc_stubborn (cl_child stuck_client)"
    "proc_state (cl_child stuck_client) = Running"
    by (simp_all add: stuck_kernel_def alive_def stuck_def stuck_client_def demo_client_def)
  moreover have "ser_request (cpp_wire_of tiny_wire) m \<noteq> None" for m by (simp add: cpp_wire_of_def)
  ultimately show ?thesis
    using shutdown_waits [OF _ cpp_of_agrees pid(2) _ _ _ req, of stuck_kernel example_texts 1] pid(1) by auto
qed

end
