(* ===== verification/OCP_CppLaunch.thy ===== *)
theory OCP_CppLaunch
  imports OCP_CppClient
begin

text \<open>
  \<open>CaptureClient::launch\<close> of \<open>cpp/src/client.cpp\<close>: what it makes and in which order,
  what its exceptions and the destructor take down again, and its agreement with the Rust
  crate's \<open>launch\<close>.
\<close>

section \<open>Launching\<close>

text \<open>
  The steps of \<open>launch\<close> before the process is started, each on the world and the client
  under construction.  \<open>binds\<close> says of a URL whether listening on it leaves a socket file.
\<close>

definition make_endpoints ::
  "texts \<Rightarrow> cpp_vars \<Rightarrow> u32 \<Rightarrow> nat \<Rightarrow> world \<times> cpp_client \<Rightarrow> (world \<times> cpp_client) \<times> endpoints throws" where
  "make_endpoints tx vars nsec me wc =
     (case wc of (w, c) \<Rightarrow>
      case Endpoints_ctor tx vars nsec (of_nat me) (w_disk w) of
        (d, Inl x) \<Rightarrow> ((w\<lparr>w_disk := d\<rparr>, c), Inl x)
      | (d, Inr e) \<Rightarrow> ((w\<lparr>w_disk := d\<rparr>, c\<lparr>cc_endpoints := Some e\<rparr>), Inr e))"

definition open_at ::
  "nng_lib \<Rightarrow> texts \<Rightarrow> nng_protocol \<Rightarrow> (cpp_client \<Rightarrow> cpp_socket) \<Rightarrow> (cpp_socket \<Rightarrow> cpp_client \<Rightarrow> cpp_client) \<Rightarrow>
   world \<times> cpp_client \<Rightarrow> (world \<times> cpp_client) \<times> unit throws" where
  "open_at lib tx p get put wc =
     (case wc of (w, c) \<Rightarrow>
      case Socket_ctor lib tx p (w_nng w) of
        (ns, Inl x) \<Rightarrow> ((w\<lparr>w_nng := ns\<rparr>, c), Inl x)
      | (ns, Inr s) \<Rightarrow>
          (let (ns, s, _) = Socket_assign ns (get c) s in ((w\<lparr>w_nng := ns\<rparr>, put s c), Inr ())))"

definition listen_at :: "nng_lib \<Rightarrow> texts \<Rightarrow> (string \<Rightarrow> bool) \<Rightarrow> nng_protocol \<Rightarrow> (cpp_client \<Rightarrow> cpp_socket) \<Rightarrow> string \<Rightarrow>
    world \<times> cpp_client \<Rightarrow> (world \<times> cpp_client) \<times> unit throws" where
  "listen_at lib tx binds p get url wc =
     (case wc of (w, c) \<Rightarrow>
      case Socket_listen lib tx p (get c) url (w_nng w) of
        (ns, Inl x) \<Rightarrow> ((w\<lparr>w_nng := ns\<rparr>, c), Inl x)
      | (ns, Inr _) \<Rightarrow>
          ((w\<lparr>w_nng := ns, w_disk := (w_disk w)\<lparr>dk_files := dk_files (w_disk w)
              @ (if binds url then [drop 6 url] else [])\<rparr>\<rparr>, c), Inr ()))"

definition limit_control :: "nng_lib \<Rightarrow> texts \<Rightarrow> world \<times> cpp_client \<Rightarrow> (world \<times> cpp_client) \<times> unit throws" where
  "limit_control lib tx wc =
     (case wc of (w, c) \<Rightarrow>
      case setRequestTimeout lib tx c (Some REQUEST_TIMEOUT_MS) (w_nng w) of
        (ns, x) \<Rightarrow> ((w\<lparr>w_nng := ns\<rparr>, c), x))"

definition set_up :: "nng_lib \<Rightarrow> texts \<Rightarrow> (string \<Rightarrow> bool) \<Rightarrow> endpoints \<Rightarrow>
    world \<times> cpp_client \<Rightarrow> (world \<times> cpp_client) \<times> unit throws" where
  "set_up lib tx binds e wc =
     st_bind (open_at lib tx Req0 cc_control (\<lambda>s c. c\<lparr>cc_control := s\<rparr>) wc) (\<lambda>wc _.
     st_bind (listen_at lib tx binds Req0 cc_control (ep_control e) wc) (\<lambda>wc _.
     st_bind (limit_control lib tx wc) (\<lambda>wc _.
     st_bind (open_at lib tx Pull0 cc_events (\<lambda>s c. c\<lparr>cc_events := s\<rparr>) wc) (\<lambda>wc _.
     listen_at lib tx binds Pull0 cc_events (ep_events e) wc))))"

text \<open>An exception leaves \<open>launch\<close> through the destructor of the client.\<close>

definition unwind :: "nat \<Rightarrow> world \<times> cpp_client \<Rightarrow> exn \<Rightarrow> (world \<times> cpp_client throws) option" where
  "unwind me wc x = (case wc of (w, c) \<Rightarrow> map_option (\<lambda>w. (w, Inl x)) (CaptureClient_dtor me w c))"

definition full_argv :: "string list \<Rightarrow> string \<Rightarrow> endpoints \<Rightarrow> string list" where
  "full_argv argv device e = argv @ [''--device'', device, ''--control'', ep_control e, ''--events'', ep_events e]"

definition launch_cpp ::
  "nng_lib \<Rightarrow> os \<Rightarrow> texts \<Rightarrow> cpp_vars \<Rightarrow> (string \<Rightarrow> bool) \<Rightarrow> u32 \<Rightarrow> nat \<Rightarrow> socket \<Rightarrow> socket \<Rightarrow> world \<Rightarrow>
   string list \<Rightarrow> string \<Rightarrow> (world \<times> cpp_client throws) option" where
  "launch_cpp lib os tx vars binds nsec me control events w argv device =
     (if argv = [] then Some (w, throw_protocol ''plugin has an empty argv'')
      else case make_endpoints tx vars nsec me (w, CaptureClient_default control events) of
        (wc, Inl x) \<Rightarrow> unwind me wc x
      | (wc, Inr e) \<Rightarrow>
     (case set_up lib tx binds e wc of
        (wc, Inl x) \<Rightarrow> unwind me wc x
      | ((w, c), Inr _) \<Rightarrow>
     (case spawnPlugin os tx me (full_argv argv device e) (w_kernel w) of
        None \<Rightarrow> None
      | Some (kn, Inl x) \<Rightarrow> unwind me (w\<lparr>w_kernel := kn\<rparr>, c) x
      | Some (kn, Inr (pid, fd)) \<Rightarrow>
          Some (w\<lparr>w_kernel := kn\<rparr>, Inr (c\<lparr>cc_pid := int pid, cc_stdinFd := int fd\<rparr>)))))"

text \<open>
  What a client owns of nng: closing its two sockets gives back the sockets and the
  listeners that were there before.
\<close>

definition handles :: "cpp_client \<Rightarrow> nat set" where
  "handles c = {so_handle s | s. s \<in> {cc_control c, cc_events c} \<and> so_open s}"

definition owns :: "nng_state \<Rightarrow> nng_state \<Rightarrow> cpp_client \<Rightarrow> bool" where
  "owns ns0 ns c \<longleftrightarrow> nng_ok ns \<and> (\<forall>h \<in> handles c. h < ns_next ns)
     \<and> filter (\<lambda>x. fst x \<notin> handles c) (ns_sockets ns) = ns_sockets ns0
     \<and> filter (\<lambda>l. li_socket l \<notin> handles c) (ns_listeners ns) = ns_listeners ns0"

lemma nng_close_eq:
  "nng_close ns h = ns\<lparr>ns_sockets := filter (\<lambda>x. fst x \<noteq> h) (ns_sockets ns),
     ns_listeners := filter (\<lambda>l. li_socket l \<noteq> h) (ns_listeners ns)\<rparr>"
  by (simp add: nng_close_def case_prod_beta')

lemma not_handle:
  "h \<notin> handles c \<longleftrightarrow> (so_open (cc_control c) \<longrightarrow> h \<noteq> so_handle (cc_control c))
     \<and> (so_open (cc_events c) \<longrightarrow> h \<noteq> so_handle (cc_events c))"
  by (auto simp: handles_def)

lemma drop_members_nng:
  assumes "owns ns0 ns c" and "drop_members ns d c = (ns', d')"
  shows "ns_sockets ns' = ns_sockets ns0" and "ns_listeners ns' = ns_listeners ns0"
  using assms unfolding owns_def not_handle
  by (auto simp: drop_members_def Socket_close_def nng_close_eq conj_commute split: if_splits)

text \<open>No call touches the handles of the sockets that are there.\<close>

lemma set_option_frame:
  "set_option lib tx p h opt ctx ns = (ns', x) \<Longrightarrow>
   ns_next ns' = ns_next ns \<and> ns_listeners ns' = ns_listeners ns
   \<and> map fst (ns_sockets ns') = map fst (ns_sockets ns)
   \<and> (h \<in> H \<longrightarrow> filter (\<lambda>x. fst x \<notin> H) (ns_sockets ns') = filter (\<lambda>x. fst x \<notin> H) (ns_sockets ns))"
proof -
  have "h \<in> H \<Longrightarrow> filter (\<lambda>x. fst x \<notin> H) (map (\<lambda>(h', q, opts). if h' = h then (h', q, opts @ [opt])
      else (h', q, opts)) ss) = filter (\<lambda>x. fst x \<notin> H) ss" for ss :: "(nat \<times> nng_protocol \<times> c_option list) list"
    by (induction ss) (auto split: if_splits)
  moreover have "map fst (map (\<lambda>(h', q, opts). if h' = h then (h', q, opts @ [opt])
      else (h', q, opts)) ss) = map fst ss" for ss :: "(nat \<times> nng_protocol \<times> c_option list) list"
    by (induction ss) (auto split: if_splits)
  moreover assume "set_option lib tx p h opt ctx ns = (ns', x)"
  ultimately show ?thesis by (auto simp: set_option_def split: sum.splits)
qed

lemma set_options_frame:
  "set_options lib tx p h os ns = (ns', x) \<Longrightarrow>
   ns_next ns' = ns_next ns \<and> ns_listeners ns' = ns_listeners ns
   \<and> map fst (ns_sockets ns') = map fst (ns_sockets ns)"
proof (induction os arbitrary: ns)
  case (Cons pr os)
  obtain opt ctx ns1 y where "pr = (opt, ctx)" "set_option lib tx p h opt ctx ns = (ns1, y)"
    by (metis surj_pair)
  with Cons set_option_frame [of lib tx p h opt ctx ns ns1 y "{}"] show ?case by (cases y) auto
qed simp

lemma nng_ok_alt:
  "nng_ok ns \<longleftrightarrow> (\<forall>h \<in> set (map fst (ns_sockets ns)). h < ns_next ns)
     \<and> (\<forall>l \<in> set (ns_listeners ns). li_id l < ns_next ns \<and> li_socket l < ns_next ns)"
  by (auto simp: nng_ok_def)

lemma nng_ok_set_option: "nng_ok ns \<Longrightarrow> set_option lib tx p h opt ctx ns = (ns', x) \<Longrightarrow> nng_ok ns'"
  using set_option_frame [of lib tx p h opt ctx ns ns' x "{}"] unfolding nng_ok_alt by simp

lemma nng_ok_close: "nng_ok ns \<Longrightarrow> nng_ok (nng_close ns h)"
  by (auto simp: nng_ok_def nng_close_eq)

lemma nng_ok_ctor: "nng_ok ns \<Longrightarrow> nng_ok (fst (Socket_ctor lib tx p ns))"
proof -
  assume ok: "nng_ok ns"
  let ?h = "ns_next ns"
  let ?ns = "ns\<lparr>ns_next := ?h + 1, ns_sockets := ns_sockets ns @ [(?h, p, [])]\<rparr>"
  obtain ns' x where run: "set_options lib tx p ?h (socket_options_cpp p) ?ns = (ns', x)" by fastforce
  have "nng_ok ?ns" using ok by (auto simp: nng_ok_def)
  then have "nng_ok ns'"
    using set_options_frame [OF run] unfolding nng_ok_alt by simp
  then have "nng_ok ns'" "nng_ok (nng_close ns' ?h)" by (simp_all add: nng_ok_close)
  with run ok show ?thesis
    by (auto simp: Socket_ctor_def Socket_close_def Let_def split: sum.splits)
qed

lemma nng_ok_listen:
  "nng_ok ns \<Longrightarrow> so_handle s < ns_next ns \<Longrightarrow> nng_ok (fst (Socket_listen lib tx p s url ns))"
  by (auto simp: Socket_listen_def nng_ok_def nng_listener_close_def on_listener_def Let_def less_Suc_eq
      split: sum.splits option.splits)

lemma owns_same:
  "\<lbrakk>owns ns0 ns c; nng_ok ns'; ns_sockets ns' = ns_sockets ns; ns_listeners ns' = ns_listeners ns;
    ns_next ns \<le> ns_next ns'\<rbrakk> \<Longrightarrow> owns ns0 ns' c"
  by (auto simp: owns_def dest: less_le_trans)

lemma owns_open:
  assumes "owns ns0 ns c" and "nng_ok ns'" and "ns_sockets ns' = ns_sockets ns @ [(ns_next ns, p, os)]"
    and "ns_listeners ns' = ns_listeners ns" and "handles c' = insert (ns_next ns) (handles c)"
    and "ns_next ns \<le> ns_next ns'"
  shows "owns ns0 ns' c'"
proof -
  have "filter (\<lambda>x. fst x \<notin> handles c') (ns_sockets ns) = filter (\<lambda>x. fst x \<notin> handles c) (ns_sockets ns)"
    "filter (\<lambda>l. li_socket l \<notin> handles c') (ns_listeners ns) = filter (\<lambda>l. li_socket l \<notin> handles c) (ns_listeners ns)"
    by (rule filter_cong [OF refl]; use assms(1,5) in \<open>force simp: owns_def nng_ok_def\<close>)+
  moreover have "ns_next ns < ns_next ns'" using assms(2,3) by (simp add: nng_ok_def)
  moreover have "\<forall>h \<in> handles c. h < ns_next ns'" using assms(1,6) by (auto simp: owns_def)
  ultimately show ?thesis using assms by (simp add: owns_def)
qed

lemma owns_listen:
  "\<lbrakk>owns ns0 ns c; nng_ok ns'; ns_sockets ns' = ns_sockets ns; ns_listeners ns' = ns_listeners ns @ [l];
    li_socket l \<in> handles c; ns_next ns \<le> ns_next ns'\<rbrakk> \<Longrightarrow> owns ns0 ns' c"
  by (auto simp: owns_def dest: less_le_trans)

text \<open>
  A client under construction: its endpoints are made, the world has changed in what it
  owns only, and no process has been started.
\<close>

definition ready :: "world \<Rightarrow> disk \<Rightarrow> endpoints \<Rightarrow> socket \<Rightarrow> socket \<Rightarrow> world \<times> cpp_client \<Rightarrow> bool" where
  "ready w0 d1 e control events wc = (case wc of (w, c) \<Rightarrow>
     w_kernel w = w_kernel w0 \<and> owns (w_nng w0) (w_nng w) c
     \<and> (\<exists>made. w_disk w = d1\<lparr>dk_files := dk_files d1 @ made\<rparr>
          \<and> set made \<subseteq> {ep_dir e @ ''/ctl'', ep_dir e @ ''/evt''})
     \<and> c = (CaptureClient_default control events)\<lparr>cc_endpoints := Some e,
             cc_control := cc_control c, cc_events := cc_events c\<rparr>)"

text \<open>
  A step of C++ against a step of Rust: \<open>P\<close> holds after it, and it fails with the same
  error or reaches \<open>Q\<close> when Rust goes on.
\<close>

definition runs :: "texts \<Rightarrow> ('s \<Rightarrow> bool) \<Rightarrow> ('s \<Rightarrow> bool) \<Rightarrow> 'a result \<Rightarrow> 's \<times> unit throws \<Rightarrow> bool" where
  "runs tx P Q r m \<longleftrightarrow> P (fst m) \<and> same_result tx (\<lambda>_ _. Q (fst m)) r (snd m)"

lemma runs_bind:
  assumes "runs tx P Q r m" and "\<And>s. P s \<Longrightarrow> Q s \<Longrightarrow> runs tx P Q' g (f s)"
  shows "runs tx P Q' (rbind r (\<lambda>_. g)) (st_bind m (\<lambda>s _. f s))"
proof -
  obtain s x where m: "m = (s, x)" by fastforce
  with assms(1) have "P s" and same: "same_result tx (\<lambda>_ _. Q s) r x" by (simp_all add: runs_def)
  from same show ?thesis
  proof (cases rule: same_result_cases)
    case (error e y)
    with m \<open>P s\<close> show ?thesis by (simp add: runs_def)
  next
    case (ok a b)
    with m assms(2) [OF \<open>P s\<close>] show ?thesis by simp
  qed
qed

lemma runs_unit: "runs tx P Q r m \<Longrightarrow> runs tx P Q (rbind r (\<lambda>_. Inr ())) m"
  by (auto simp: runs_def elim!: same_result_cases)

lemma open_at_runs:
  assumes "same_lib nng lib" and "ready w0 d1 e ctl evs (w, c)"
    and "\<And>s. so_open s \<Longrightarrow> handles (put s c) = insert (so_handle s) (handles c)"
    and "\<And>ns s. owns (w_nng w0) ns (put s c) \<Longrightarrow> ready w0 d1 e ctl evs (w\<lparr>w_nng := ns\<rparr>, put s c)"
    and "\<not> so_open (get c)" and "\<And>s. so_open s \<Longrightarrow> Q (put s c)"
  shows "runs tx (ready w0 d1 e ctl evs) (\<lambda>(_, c). Q c) (build_socket nng p) (open_at lib tx p get put (w, c))"
proof -
  have owned: "owns (w_nng w0) (w_nng w) c" "nng_ok (w_nng w)"
    using assms(2) by (auto simp: ready_def owns_def)
  obtain ns' x where run: "Socket_ctor lib tx p (w_nng w) = (ns', x)" by fastforce
  have ctor: "nng_ok ns'"
    "same_result tx (\<lambda>opts s. so_open s \<and> so_handle s = ns_next (w_nng w)
      \<and> ns_sockets ns' = ns_sockets (w_nng w) @ [(ns_next (w_nng w), p, map c_opt opts)]) (build_socket nng p) x"
    "ns_listeners ns' = ns_listeners (w_nng w)" "ns_next (w_nng w) \<le> ns_next ns'"
    "\<And>e. x = Inl e \<Longrightarrow> ns_sockets ns' = ns_sockets (w_nng w)"
    using Socket_ctor_agrees [OF assms(1) owned(2), of tx p] nng_ok_ctor [OF owned(2), of lib tx p] run
    by simp_all
  from ctor(2) show ?thesis
  proof (cases rule: same_result_cases)
    case (error err y)
    have "owns (w_nng w0) ns' c"
      by (rule owns_same [OF owned(1) ctor(1) _ ctor(3,4)]) (use ctor(5) error in simp)
    then have "ready w0 d1 e ctl evs (w\<lparr>w_nng := ns'\<rparr>, c)" using assms(2) by (simp add: ready_def)
    with error run show ?thesis by (simp add: open_at_def runs_def)
  next
    case (ok opts s)
    note new = ok(3)
    have "handles (put s c) = insert (ns_next (w_nng w)) (handles c)" using assms(3) new by metis
    with owns_open [OF owned(1) ctor(1) _ ctor(3) _ ctor(4)] new
    have "owns (w_nng w0) ns' (put s c)" by blast
    with ok(1,2) new run assms(4-6) show ?thesis
      by (simp add: open_at_def runs_def Socket_assign_def Socket_close_def)
  qed
qed

lemma listen_at_runs:
  assumes "same_lib nng lib" and "ready w0 d1 e ctl evs (w, c)"
    and "so_handle (get c) \<in> handles c" and "drop 6 url \<in> {ep_dir e @ ''/ctl'', ep_dir e @ ''/evt''}"
    and "Q c"
  shows "runs tx (ready w0 d1 e ctl evs) (\<lambda>(_, c). Q c) (listen nng p url) (listen_at lib tx binds p get url (w, c))"
proof -
  have owned: "owns (w_nng w0) (w_nng w) c" "nng_ok (w_nng w)" "so_handle (get c) < ns_next (w_nng w)"
    using assms(2,3) by (auto simp: ready_def owns_def)
  obtain made where disk: "w_disk w = d1\<lparr>dk_files := dk_files d1 @ made\<rparr>"
    "set made \<subseteq> {ep_dir e @ ''/ctl'', ep_dir e @ ''/evt''}" using assms(2) by (auto simp: ready_def)
  obtain ns' x where run: "Socket_listen lib tx p (get c) url (w_nng w) = (ns', x)" by fastforce
  have new: "nng_ok ns'"
    "same_result tx (\<lambda>opts _. ns_listeners ns' = ns_listeners (w_nng w)
        @ [\<lparr>li_id = ns_next (w_nng w), li_socket = so_handle (get c), li_url = url, li_opts = map c_opt opts,
            li_started = True\<rparr>]) (listen nng p url) x"
    "ns_sockets ns' = ns_sockets (w_nng w)" "ns_next (w_nng w) \<le> ns_next ns'"
    "\<And>e. x = Inl e \<Longrightarrow> ns_listeners ns' = ns_listeners (w_nng w)"
    using Socket_listen_agrees [OF assms(1) owned(2), of tx p "get c" url]
      nng_ok_listen [OF owned(2,3), of lib tx p url] run
    by simp_all
  from new(2) show ?thesis
  proof (cases rule: same_result_cases)
    case (error err y)
    have "owns (w_nng w0) ns' c"
      by (rule owns_same [OF owned(1) new(1,3) _ new(4)]) (use new(5) error in simp)
    then have "ready w0 d1 e ctl evs (w\<lparr>w_nng := ns'\<rparr>, c)" using assms(2) by (simp add: ready_def)
    with error run show ?thesis by (simp add: listen_at_def runs_def)
  next
    case (ok opts u)
    let ?made = "made @ (if binds url then [drop 6 url] else [])"
    have "owns (w_nng w0) ns' c"
      by (rule owns_listen [OF owned(1) new(1,3) ok(3) _ new(4)]) (use assms(3) in simp)
    moreover have "set ?made \<subseteq> {ep_dir e @ ''/ctl'', ep_dir e @ ''/evt''}" using disk(2) assms(4) by auto
    moreover have "(w_disk w)\<lparr>dk_files := dk_files (w_disk w) @ (if binds url then [drop 6 url] else [])\<rparr>
        = d1\<lparr>dk_files := dk_files d1 @ ?made\<rparr>" by (simp add: disk(1))
    moreover have "w_kernel w = w_kernel w0" "c = (CaptureClient_default ctl evs)\<lparr>cc_endpoints := Some e,
        cc_control := cc_control c, cc_events := cc_events c\<rparr>"
      using assms(2) by (simp_all add: ready_def)
    ultimately have "ready w0 d1 e ctl evs (w\<lparr>w_nng := ns',
        w_disk := (w_disk w)\<lparr>dk_files := dk_files (w_disk w) @ (if binds url then [drop 6 url] else [])\<rparr>\<rparr>, c)"
      unfolding ready_def prod.case by (intro conjI exI [of _ ?made]) simp_all
    with ok(1,2) run assms(5) show ?thesis by (simp add: listen_at_def runs_def)
  qed
qed

lemma limit_control_runs:
  assumes "same_lib nng lib" and "ready w0 d1 e ctl evs (w, c)" and "so_open (cc_control c)" and "Q c"
  shows "runs tx (ready w0 d1 e ctl evs) (\<lambda>(_, c). Q c) (set_recv_timeout nng Req0 (Some REQUEST_TIMEOUT))
    (limit_control lib tx (w, c))"
proof -
  let ?opt = "OPT_RECVTIMEO (nng_ms (Some REQUEST_TIMEOUT_MS))"
  have opt: "?opt = c_opt (RecvTimeout (Some REQUEST_TIMEOUT))"
    by (simp add: nng_ms_def REQUEST_TIMEOUT_MS_def ms_of_def REQUEST_TIMEOUT_def from_secs_def)
  obtain ns' x where run: "set_option lib tx Req0 (so_handle (cc_control c)) ?opt ''set recv-timeout'' (w_nng w) = (ns', x)"
    by fastforce
  have owned: "owns (w_nng w0) (w_nng w) c" using assms(2) by (simp add: ready_def)
  then have "nng_ok (w_nng w)" by (simp add: owns_def)
  moreover have "so_handle (cc_control c) \<in> handles c" using assms(3) by (auto simp: handles_def)
  ultimately have "owns (w_nng w0) ns' c"
    using set_option_frame [OF run, of "handles c"] nng_ok_set_option [OF _ run] owned by (simp add: owns_def)
  then have "ready w0 d1 e ctl evs (w\<lparr>w_nng := ns'\<rparr>, c)" using assms(2) by (simp add: ready_def)
  moreover have lib: "lib_set lib p (c_opt o') = nng_set_opt nng p o'" for p o'
    using assms(1) by (simp add: same_lib_def)
  have "same_result tx (\<lambda>_ _. True) (set_recv_timeout nng Req0 (Some REQUEST_TIMEOUT)) x"
    using run lib unfolding opt
    by (cases "nng_set_opt nng Req0 (RecvTimeout (Some REQUEST_TIMEOUT))")
      (auto simp: set_recv_timeout_def set_option_def check_nng_def try_nng_def simp del: c_opt.simps)
  ultimately show ?thesis
    using run assms(4)
    by (auto simp: runs_def limit_control_def setRequestTimeout_def setRecvTimeout_def elim!: same_result_cases)
qed

lemma set_up_runs:
  assumes "same_lib nng lib" and "ready w0 d1 e ctl evs (w, c)"
    and "\<not> so_open (cc_control c)" and "\<not> so_open (cc_events c)"
    and "drop 6 (ep_control e) = ep_dir e @ ''/ctl''" and "drop 6 (ep_events e) = ep_dir e @ ''/evt''"
  shows "runs tx (ready w0 d1 e ctl evs) (\<lambda>_. True) (setup_sockets nng e) (set_up lib tx binds e (w, c))"
proof -
  let ?P = "ready w0 d1 e ctl evs"
  let ?Q1 = "\<lambda>c. so_open (cc_control c) \<and> \<not> so_open (cc_events c)"
  let ?Q2 = "\<lambda>c. so_open (cc_events c)"
  have inv: "?P (w, c) \<Longrightarrow> owns (w_nng w0) ns c' \<Longrightarrow>
      c' = c\<lparr>cc_control := cc_control c', cc_events := cc_events c'\<rparr> \<Longrightarrow> ?P (w\<lparr>w_nng := ns\<rparr>, c')" for w c c' ns
    by (cases c; cases c') (auto simp: ready_def)
  show ?thesis
    unfolding setup_sockets_def set_up_def
  proof (rule runs_bind [where Q = "\<lambda>(_, c). ?Q1 c"], goal_cases)
    case 1
    show ?case
      by (rule open_at_runs [OF assms(1,2)]) (use assms(2-4) in \<open>auto simp: handles_def intro!: inv\<close>)
  next
    case (2 s)
    obtain w c where s: "s = (w, c)" by fastforce
    show ?case
    proof (rule runs_bind [where Q = "\<lambda>(_, c). ?Q1 c"], goal_cases)
      case 1
      show ?case unfolding s
        by (rule listen_at_runs [OF assms(1)]) (use 2 s assms(5) in \<open>auto simp: handles_def\<close>)
    next
      case (2 s)
      obtain w c where s: "s = (w, c)" by fastforce
      show ?case
      proof (rule runs_bind [where Q = "\<lambda>(_, c). ?Q1 c"], goal_cases)
        case 1
        show ?case unfolding s
          by (rule limit_control_runs [OF assms(1)]) (use 2 s in auto)
      next
        case (2 s)
        obtain w c where s: "s = (w, c)" by fastforce
        show ?case
        proof (rule runs_bind [where Q = "\<lambda>(_, c). ?Q2 c"], goal_cases)
          case 1
          from 2 s have "?P (w, c)" by simp
          then show ?case unfolding s
            by (rule open_at_runs [OF assms(1)]) (use 2 s in \<open>auto simp: handles_def intro!: inv\<close>)
        next
          case (2 s)
          obtain w c where s: "s = (w, c)" by fastforce
          have "runs tx ?P (\<lambda>(_, c). True) (listen nng Pull0 (ep_events e))
              (listen_at lib tx binds Pull0 cc_events (ep_events e) (w, c))"
            by (rule listen_at_runs [OF assms(1)]) (use 2 s assms(6) in \<open>auto simp: handles_def\<close>)
          then show ?case unfolding s by (intro runs_unit) (simp add: case_prod_beta')
        qed
      qed
    qed
  qed
qed

section \<open>What is left when it is over\<close>

text \<open>The world as it was, but for the base directory.\<close>

definition restored :: "env_vars \<Rightarrow> world \<Rightarrow> world \<Rightarrow> bool" where
  "restored env w w' \<longleftrightarrow> ns_sockets (w_nng w') = ns_sockets (w_nng w)
     \<and> ns_listeners (w_nng w') = ns_listeners (w_nng w)
     \<and> k_procs (w_kernel w') = k_procs (w_kernel w) \<and> k_written (w_kernel w') = k_written (w_kernel w)
     \<and> dk_files (w_disk w') = dk_files (w_disk w)
     \<and> (\<forall>p. p \<noteq> runtime_base env \<longrightarrow> fs_dirs (disk_fs (w_disk w')) p = fs_dirs (disk_fs (w_disk w)) p)"

lemma tidy_orphans: "tidy env d \<Longrightarrow> no_orphans env (disk_fs d)"
  unfolding tidy_def no_orphans_def disk_fs_def by (auto simp: map_of_eq_None_iff)

lemma base_ready_exact: "base_ready env fs \<Longrightarrow> undisturbed env fs fs' p \<Longrightarrow> fs_dirs fs' p = fs_dirs fs p"
  by (auto simp: undisturbed_def ancestor_made_def)

lemma ready_fields:
  "ready w0 d1 e ctl evs (w, c) \<Longrightarrow> cc_endpoints c = Some e \<and> cc_pid c = - 1 \<and> cc_stdinFd c = - 1
     \<and> cc_seq c = 0 \<and> cc_captureId c = 0 \<and> cc_control_io c = ctl \<and> cc_events_io c = evs"
  by (cases c) (auto simp: ready_def CaptureClient_default_def)

text \<open>Dropping what \<open>launch\<close> has made, before a process is started or after it is gone.\<close>

lemma ready_dropped:
  assumes "same_vars env vars" and "tidy env (w_disk w0)" and known: "base_ready env (disk_fs (w_disk w0))"
    and "Endpoints_ctor tx vars nsec pid (w_disk w0) = (d1, Inr e)"
    and "ready w0 d1 e ctl evs (w, c)" and "drop_members (w_nng w) (w_disk w) c = (ns', d')"
    and "k_procs kn = k_procs (w_kernel w0)" and "k_written kn = k_written (w_kernel w0)"
  shows "restored env w0 \<lparr>w_kernel = kn, w_nng = ns', w_disk = d'\<rparr>"
proof -
  obtain fs1 r where rust: "new_endpoints env nsec pid (disk_fs (w_disk w0)) = (fs1, r)" by fastforce
  note agree = Endpoints_ctor_agrees [OF assms(1,2,4) rust known]
  from agree(1) have r: "r = Inr e" by (simp add: same_result_iff)
  obtain made where disk: "w_disk w = d1\<lparr>dk_files := dk_files d1 @ made\<rparr>"
    "set made \<subseteq> {ep_dir e @ ''/ctl'', ep_dir e @ ''/evt''}" and own: "owns (w_nng w0) (w_nng w) c"
    using assms(5) by (auto simp: ready_def)
  from agree(2,3) r have used: "disk_fs (w_disk w) = fs1" "dk_files (w_disk w) = dk_files (w_disk w0) @ made"
    by (simp_all add: disk(1) disk_fs_def too_long_def)
  have d': "d' = Endpoints_dtor (w_disk w) e"
    using assms(6) ready_fields [OF assms(5)] by (simp add: drop_members_def case_prod_beta Let_def)
  note dtor = Endpoints_dtor_agrees [OF assms(2) rust [unfolded r] used disk(2)]
  have "fs_fault (disk_fs (w_disk w0)) RemoveAll (ep_dir e) = None"
    using assms(2) by (simp add: disk_fs_def tidy_def)
  from dtor base_ready_exact [OF known drop_new_endpoints [OF rust [unfolded r] tidy_orphans [OF assms(2)] this]]
    drop_members_nng [OF own assms(6)] assms(7,8)
  show ?thesis by (simp add: restored_def d')
qed

lemma dtor_not_started:
  "cc_pid c \<le> 0 \<Longrightarrow> cc_stdinFd c < 0 \<Longrightarrow> CaptureClient_dtor me w c
     = (case drop_members (w_nng w) (w_disk w) c of (ns, d) \<Rightarrow> Some \<lparr>w_kernel = w_kernel w, w_nng = ns, w_disk = d\<rparr>)"
  by (simp add: CaptureClient_dtor_def terminate_def close_stdin_def case_prod_beta)

text \<open>An exception after the endpoints were made.\<close>

lemma unwind_ready:
  assumes "same_vars env vars" and "tidy env (w_disk w0)" and known: "base_ready env (disk_fs (w_disk w0))"
    and "Endpoints_ctor tx vars nsec pid (w_disk w0) = (d1, Inr e)"
    and "ready w0 d1 e ctl evs (w, c)"
    and "k_procs kn = k_procs (w_kernel w0)" and "k_written kn = k_written (w_kernel w0)"
  shows "\<exists>w'. unwind me (w\<lparr>w_kernel := kn\<rparr>, c) x = Some (w', Inl x) \<and> restored env w0 w'"
proof -
  obtain ns' d' where drop: "drop_members (w_nng w) (w_disk w) c = (ns', d')" by fastforce
  have "cc_pid c \<le> 0" "cc_stdinFd c < 0" using ready_fields [OF assms(5)] by simp_all
  with dtor_not_started [of c me "w\<lparr>w_kernel := kn\<rparr>"] drop ready_dropped [OF assms(1-5) drop assms(6,7)]
  show ?thesis by (simp add: unwind_def)
qed

text \<open>An exception while they were made.\<close>

lemma unwind_endpoints:
  assumes "same_vars env vars" and "tidy env (w_disk w0)" and known: "base_ready env (disk_fs (w_disk w0))"
    and "make_endpoints tx vars nsec me (w0, CaptureClient_default ctl evs) = (wc, Inl x)"
  shows "\<exists>w'. unwind me wc x = Some (w', Inl x) \<and> restored env w0 w'"
proof -
  obtain d where ctor: "Endpoints_ctor tx vars nsec (of_nat me) (w_disk w0) = (d, Inl x)"
    and wc: "wc = (w0\<lparr>w_disk := d\<rparr>, CaptureClient_default ctl evs)"
    using assms(4) by (auto simp: make_endpoints_def split: prod.splits sum.splits)
  obtain fs1 r where rust: "new_endpoints env nsec (of_nat me) (disk_fs (w_disk w0)) = (fs1, r)" by fastforce
  note agree = Endpoints_ctor_agrees [OF assms(1,2) ctor rust known]
  from agree(1) obtain err where r: "r = Inl err" by (auto simp: same_result_iff)
  have "\<not> too_long r \<Longrightarrow> only_base env (disk_fs (w_disk w0)) fs1"
    using new_endpoints_Inl [OF rust [unfolded r]] by (simp add: r)
  then have kept: "\<not> too_long r \<Longrightarrow> fs_dirs fs1 p = fs_dirs (disk_fs (w_disk w0)) p"
    if "p \<noteq> runtime_base env" for p
    using that by (blast intro: base_ready_exact [OF known] only_base_other)
  have "fs_dirs (with_base env (disk_fs (w_disk w0))) p = fs_dirs (disk_fs (w_disk w0)) p"
    if "p \<noteq> runtime_base env" for p
    using that by (simp add: with_base_ready [OF known])
  with kept have "fs_dirs (disk_fs d) p = fs_dirs (disk_fs (w_disk w0)) p" if "p \<noteq> runtime_base env" for p
    using that agree(3) by (cases "too_long r") simp_all
  then show ?thesis
    using agree(2)
    by (simp add: wc unwind_def dtor_not_started CaptureClient_default_def drop_members_def Socket_close_def
        Socket_empty_def restored_def)
qed

text \<open>Ending a plugin that was started takes the kernel's tables back to what they were.\<close>

lemma terminate_started:
  assumes "kernel_ok me k" and "k_procs k me = Some pr" and "fd \<notin> fst ` set (pr_fds pr)"
    and "kn = k\<lparr>k_procs := (k_procs k)(me \<mapsto> pr\<lparr>pr_fds := pr_fds pr @ [(fd, write_end q)]\<rparr>,
          k_next_pid k \<mapsto> plugin), k_next_pipe := n, k_next_pid := m\<rparr>"
  shows "\<exists>kn'. terminate me kn (c\<lparr>cc_pid := int (k_next_pid k), cc_stdinFd := int fd\<rparr>)
      = Some (kn', c\<lparr>cc_pid := - 1, cc_stdinFd := - 1\<rparr>)
    \<and> k_procs kn' = k_procs k \<and> k_written kn' = k_written k"
proof -
  have less: "me < k_next_pid k" and new: "k_procs k (k_next_pid k) = None"
    using assms(1,2) unfolding kernel_ok_def by blast+
  let ?kn' = "reap (k_next_pid k) (sys_kill (k_next_pid k) (sys_close me fd kn))"
  have "terminate me kn (c\<lparr>cc_pid := int (k_next_pid k), cc_stdinFd := int fd\<rparr>)
      = Some (?kn', c\<lparr>cc_pid := - 1, cc_stdinFd := - 1\<rparr>)"
    using less by (simp add: terminate_def close_stdin_def sys_waitpid_def sys_kill_def)
  moreover have "k_procs ?kn' = k_procs k"
    using less new assms(2,3)
    by (auto simp: reap_def sys_kill_def sys_exit_def sys_close_def on_proc_def assms(4) fun_eq_iff)
  moreover have "k_written ?kn' = k_written k"
    by (simp add: reap_def sys_kill_def sys_exit_def sys_close_def on_proc_def assms(4))
  ultimately show ?thesis by blast
qed

text \<open>The last step: a process that can be taken down again, or none.\<close>

lemma spawn_step:
  assumes "same_vars env vars" and "tidy env (w_disk w)" and known: "base_ready env (disk_fs (w_disk w))"
    and "Endpoints_ctor tx vars nsec pid (w_disk w) = (d1, Inr e)" and "ready w d1 e ctl evs (w1, c1)"
    and "kernel_ok me (w_kernel w)" and "0 \<in> fst ` set (fds_of (w_kernel w) me)"
  obtains (refused) err ctx kn where "spawn_refusal os argv (w_kernel w) = Some err"
      "spawnPlugin os tx me argv (w_kernel w) = Some (kn, Inl (Thrown (Error_io tx err ctx)))"
      "k_procs kn = k_procs (w_kernel w)" "k_written kn = k_written (w_kernel w)"
  | (started) kn q fd w'' where "spawn_refusal os argv (w_kernel w) = None"
      "spawnPlugin os tx me argv (w_kernel w) = Some (kn, Inr (q, fd))" "0 < q" "alive kn q"
      "map_option pr_argv (k_procs kn q) = Some argv"
      "CaptureClient_dtor me (w1\<lparr>w_kernel := kn\<rparr>) (c1\<lparr>cc_pid := int q, cc_stdinFd := int fd\<rparr>) = Some w''"
      "restored env w w''"
proof -
  obtain pr where me: "k_procs (w_kernel w) me = Some pr" using assms(6) by (auto simp: kernel_ok_def)
  then have stdin: "0 \<in> fst ` set (pr_fds pr)" using assms(7) by simp
  show thesis
  proof (cases rule: spawn_cases [OF assms(6) me stdin, of os argv tx])
    case (1 fd)
    let ?q = "k_next_pid (w_kernel w)"
    let ?kn = "(w_kernel w)\<lparr>k_procs := (k_procs (w_kernel w))(me \<mapsto> pr\<lparr>pr_fds := pr_fds pr
        @ [(fd, write_end (k_next_pipe (w_kernel w)))]\<rparr>,
        ?q \<mapsto> plugin_process os ?q (pr_fds pr) argv (k_next_pipe (w_kernel w))),
      k_next_pipe := k_next_pipe (w_kernel w) + 2, k_next_pid := ?q + 1\<rparr>"
    have "me < ?q" using assms(6) me by (auto simp: kernel_ok_def)
    then have q: "0 < ?q" by simp
    obtain kn' where gone: "terminate me ?kn (c1\<lparr>cc_pid := int ?q, cc_stdinFd := int fd\<rparr>)
        = Some (kn', c1\<lparr>cc_pid := - 1, cc_stdinFd := - 1\<rparr>)"
      "k_procs kn' = k_procs (w_kernel w)" "k_written kn' = k_written (w_kernel w)"
      using terminate_started [OF assms(6) me 1(2) refl] by blast
    obtain ns' d' where drop: "drop_members (w_nng w1) (w_disk w1) c1 = (ns', d')" by fastforce
    then have "drop_members (w_nng w1) (w_disk w1) (c1\<lparr>cc_pid := - 1, cc_stdinFd := - 1\<rparr>) = (ns', d')"
      by (simp add: drop_members_def)
    with gone(1) have dtor: "CaptureClient_dtor me (w1\<lparr>w_kernel := ?kn\<rparr>)
        (c1\<lparr>cc_pid := int ?q, cc_stdinFd := int fd\<rparr>) = Some \<lparr>w_kernel = kn', w_nng = ns', w_disk = d'\<rparr>"
      by (simp add: CaptureClient_dtor_def)
    show thesis
      by (rule started [OF 1(1,3) q _ _ dtor ready_dropped [OF assms(1-5) drop gone(2,3)]])
        (simp_all add: alive_def plugin_process_def)
  next
    case (2 err ctx n m)
    show thesis by (rule refused [OF 2]) simp_all
  qed
qed

text \<open>A launched client of C++ and one of Rust, in the same world.\<close>

definition same_launched :: "fs \<Rightarrow> world \<Rightarrow> capture_client \<Rightarrow> cpp_client \<Rightarrow> bool" where
  "same_launched fs' w' c k \<longleftrightarrow> agree_client (\<lambda>bs. bs) c k \<and> cc_endpoints k = Some (cl_endpoints c)
     \<and> disk_fs (w_disk w') = fs' \<and> isRunning k \<and> alive (w_kernel w') (nat (cc_pid k))
     \<and> map_option pr_argv (k_procs (w_kernel w') (nat (cc_pid k)))
         = Some (proc_program (cl_child c) # proc_args (cl_child c))"

lemma launch_cpp_run:
  assumes "same_lib nng lib" and "same_vars env vars" and "tidy env (w_disk w)" and "nng_ok (w_nng w)"
    and "kernel_ok me (w_kernel w)" and "0 \<in> fst ` set (fds_of (w_kernel w) me)"
    and "launch nng env nsec (of_nat me) (\<lambda>program args. spawn_refusal os (program # args) (w_kernel w)) st
        ctl evs (disk_fs (w_disk w)) argv device = (fs', r)"
    and known: "base_ready env (disk_fs (w_disk w))"
  shows "\<exists>w' x. launch_cpp lib os tx vars binds nsec me ctl evs w argv device = Some (w', x)
    \<and> same_result tx (same_launched fs' w') r x
    \<and> (\<forall>y. x = Inl y \<longrightarrow> restored env w w')
    \<and> (\<forall>k. x = Inr k \<longrightarrow> (\<exists>w''. CaptureClient_dtor me w' k = Some w'' \<and> restored env w w''))"
proof (cases argv)
  case Nil
  with assms(7) show ?thesis
    by (auto simp: launch_def launch_cpp_def restored_def)
next
  case (Cons program rest)
  let ?init = "CaptureClient_default ctl evs"
  obtain d1 x where ctor: "Endpoints_ctor tx vars nsec (of_nat me) (w_disk w) = (d1, x)" by fastforce
  obtain fs1 r1 where rust: "new_endpoints env nsec (of_nat me) (disk_fs (w_disk w)) = (fs1, r1)" by fastforce
  note agree = Endpoints_ctor_agrees [OF assms(2,3) ctor rust known]
  from agree(1) show ?thesis
  proof (cases rule: same_result_cases)
    case (error err y)
    have failed: "make_endpoints tx vars nsec me (w, ?init) = ((w\<lparr>w_disk := d1\<rparr>, ?init), Inl y)"
      using ctor error by (simp add: make_endpoints_def)
    from unwind_endpoints [OF assms(2,3) known failed] error(3) show ?thesis
      using failed assms(7) rust error(1) Cons by (auto simp: launch_def launch_cpp_def)
  next
    case (ok ep e)
    then have ep: "ep = e" by simp
    let ?c = "?init\<lparr>cc_endpoints := Some e\<rparr>" and ?w = "w\<lparr>w_disk := d1\<rparr>"
    have made: "make_endpoints tx vars nsec me (w, ?init) = ((?w, ?c), Inr e)"
      using ctor ok by (simp add: make_endpoints_def)
    have ctor': "Endpoints_ctor tx vars nsec (of_nat me) (w_disk w) = (d1, Inr e)" using ctor ok by simp
    have closed: "\<not> so_open (cc_control ?c)" "\<not> so_open (cc_events ?c)"
      by (simp_all add: CaptureClient_default_def Socket_empty_def)
    then have none: "handles ?c = {}" by (auto simp: handles_def)
    have start: "ready w d1 e ctl evs (?w, ?c)"
      using assms(4) none by (auto simp: ready_def owns_def intro!: exI [of _ "[]"])
    obtain t where t: "e = endpoints_at env t" using new_endpoints_Inr [OF rust [unfolded ok ep]] by metis
    have urls: "drop 6 (ep_control e) = ep_dir e @ ''/ctl''" "drop 6 (ep_events e) = ep_dir e @ ''/evt''"
      by (simp_all add: t endpoints_at_def path_in_tag_dir)
    obtain w1 c1 y where up: "set_up lib tx binds e (?w, ?c) = ((w1, c1), y)" by (metis surj_pair)
    from set_up_runs [OF assms(1) start closed urls, of tx binds]
    have ready: "ready w d1 e ctl evs (w1, c1)" and same: "same_result tx (\<lambda>_ _. True) (setup_sockets nng e) y"
      by (simp_all add: runs_def up)
    then have kn: "w_kernel w1 = w_kernel w" by (simp add: ready_def)
    note unwinds = unwind_ready [OF assms(2,3) known ctor' ready]
    from same show ?thesis
    proof (cases rule: same_result_cases)
      case (error err z)
      have "w1\<lparr>w_kernel := w_kernel w\<rparr> = w1" using kn by (cases w1) simp
      with unwinds [OF refl refl, of me z] error show ?thesis
        using assms(7) rust ok(1) ep made up by (auto simp: launch_def launch_cpp_def Cons)
    next
      case (ok u v)
      have argv': "program # child_args rest device e = full_argv argv device e"
        by (simp add: child_args_def full_argv_def Cons)
      show ?thesis
      proof (cases rule: spawn_step [OF assms(2,3) known ctor' ready assms(5,6), of os "full_argv argv device e"])
        case (1 err ctx kn')
        from unwinds [OF 1(3,4), of me "Thrown (Error_io tx err ctx)"] 1(1,2) ok show ?thesis
          using assms(7) rust \<open>r1 = Inr ep\<close> ep made up kn
          by (auto simp: launch_def launch_cpp_def Cons argv' [unfolded Cons] Let_def error_from_io_def)
      next
        case (2 kn' q fd w'')
        have "disk_fs (w_disk w1) = fs1"
          using ready agree(3) \<open>r1 = Inr ep\<close> by (auto simp: ready_def disk_fs_def too_long_def)
        with 2 ok ready_fields [OF ready] show ?thesis
          using assms(7) rust \<open>r1 = Inr ep\<close> ep made up kn
          by (auto simp: launch_def launch_cpp_def Cons argv' [unfolded Cons] Let_def same_launched_def
              agree_client_def same_socket_def isRunning_def)
      qed
    qed
  qed
qed

text \<open>Where the parent of the base directory is missing, nothing is made at all.\<close>

lemma launch_cpp_no_parent:
  assumes "same_vars env vars" and "tidy env (w_disk w)" and "\<not> base_ready env (disk_fs (w_disk w))"
  shows "\<exists>w' y. launch_cpp lib os tx vars binds nsec me ctl evs w argv device = Some (w', Inl y)
    \<and> restored env w w'"
proof (cases "argv = []")
  case True
  then show ?thesis by (simp add: launch_cpp_def restored_def)
next
  case False
  from Endpoints_ctor_no_parent [OF assms, of tx nsec "of_nat me"] obtain y where
    "Endpoints_ctor tx vars nsec (of_nat me) (w_disk w) = (w_disk w, Inl y)" by blast
  then have "make_endpoints tx vars nsec me (w, CaptureClient_default ctl evs)
      = ((w, CaptureClient_default ctl evs), Inl y)"
    by (simp add: make_endpoints_def)
  with False show ?thesis
    by (simp add: launch_cpp_def unwind_def dtor_not_started CaptureClient_default_def drop_members_def
        Socket_close_def Socket_empty_def restored_def)
qed

section \<open>Properties\<close>


definition example_disk :: disk where
  "example_disk = \<lparr>dk_dirs = [(''/run/user/1000/openmso'', 0x1ED)], dk_files = [], dk_umask = 0x12,
     dk_fault = (\<lambda>_ _. None)\<rparr>"

definition example_vars :: cpp_vars where
  "example_vars = \<lparr>XDG_RUNTIME_DIR = Some ''/run/user/1000'', TMPDIR = None\<rparr>"

definition example_lib :: nng_lib where
  "example_lib = \<lparr>lib_open = (\<lambda>_. None), lib_set = (\<lambda>_ _. None), lib_listener_create = (\<lambda>_ _. None),
     lib_listener_set = (\<lambda>_ _. None), lib_listener_start = (\<lambda>_ _. None), lib_dial = (\<lambda>_ _. None)\<rparr>"

definition example_world :: world where
  "example_world = \<lparr>w_kernel = demo_kernel, w_nng = fresh_nng, w_disk = example_disk\<rparr>"

lemma example_world_facts:
  "same_lib example_nng example_lib" "same_vars example_env example_vars"
  "tidy example_env (w_disk example_world)" "nng_ok (w_nng example_world)"
  "kernel_ok 1 (w_kernel example_world)" "0 \<in> fst ` set (fds_of (w_kernel example_world) 1)"
  "disk_fs (w_disk example_world) = example_fs"
  using demo_kernel_ok tag_not_below_base [of example_env]
  by (auto simp: same_lib_def example_nng_def example_lib_def same_vars_def example_env_def example_vars_def
      plain_dir_def tidy_def example_world_def example_disk_def nng_ok_def fresh_nng_def example_base disk_fs_def
      example_fs_def runtime_base_def path_join_def)

lemma example_base_ready: "base_ready example_env (disk_fs (w_disk example_world))"
  by (simp add: base_ready_def example_world_facts example_base) (simp add: example_fs_def)

lemma example_launch:
  "\<exists>c. launch example_nng example_env 3 (of_nat 1) spawn False quiet_socket quiet_socket
       (disk_fs (w_disk example_world)) [''/opt/demo/plugin''] ''demo://0''
    = (case spawn ''/opt/demo/plugin'' (child_args [] ''demo://0'' (endpoints_at example_env 2)) of
         None \<Rightarrow> (with_dir example_env example_fs 2, Inr c)
       | Some e \<Rightarrow> (drop_endpoints (with_dir example_env example_fs 2) (endpoints_at example_env 2), Inl (Io e)))"
proof -
  have "new_endpoints example_env 3 (of_nat 1) example_fs
      = (with_dir example_env example_fs 2, Inr (endpoints_at example_env 2))"
    using new_example by (simp add: new_endpoints_def)
  then show ?thesis
    by (auto simp: launch_def setup_sockets_def build_socket_def listen_def set_recv_timeout_def try_nng_def
        example_nng_def Let_def example_world_facts error_from_io_def split: option.splits)
qed



text \<open>A plugin that cannot be executed.\<close>

definition no_exec_os :: os where
  "no_exec_os = demo_os\<lparr>os_exec := (\<lambda>_. Some no_entry)\<rparr>"

lemma no_exec_launch:
  "\<exists>w' y. launch_cpp example_lib no_exec_os example_texts example_vars (\<lambda>_. True) 3 1 quiet_socket quiet_socket
     example_world [''/opt/demo/plugin''] ''demo://0'' = Some (w', Inl y)"
proof -
  let ?spawn = "\<lambda>program args. spawn_refusal no_exec_os (program # args) (w_kernel example_world)"
  have "?spawn program args = Some no_entry" for program args
    by (simp add: spawn_refusal_def no_exec_os_def demo_os_def)
  then obtain fs' where rust: "launch example_nng example_env 3 (of_nat 1) ?spawn False quiet_socket
      quiet_socket (disk_fs (w_disk example_world)) [''/opt/demo/plugin''] ''demo://0'' = (fs', Inl (Io no_entry))"
    using example_launch [of ?spawn] by auto
  from launch_cpp_run [OF example_world_facts(1-6) rust example_base_ready, of example_texts "\<lambda>_. True"] show ?thesis
    by (auto elim!: same_result_cases)
qed


text \<open>
  Moving hands everything over: destroying the object moved from does nothing, and a
  move assignment does to the world what destroying its target does.
\<close>

lemma nng_close_commute: "nng_close (nng_close ns a) b = nng_close (nng_close ns b) a"
  by (simp add: nng_close_eq conj_commute)

lemma moves_hand_over:
  "CaptureClient_dtor me w (snd (CaptureClient_move c)) = Some w"
  "(case CaptureClient_assign me w this other of
      None \<Rightarrow> CaptureClient_dtor me w this = None
    | Some (w', new, old) \<Rightarrow> new = other \<and> CaptureClient_dtor me w' old = Some w'
        \<and> CaptureClient_dtor me w this = Some w')"
proof -
  show "CaptureClient_dtor me w (snd (CaptureClient_move c)) = Some w"
    by (simp add: CaptureClient_move_def dtor_not_started moved_from_def Socket_move_def drop_members_def
        Socket_close_def)
  have frame: "terminate me k c = Some (k', c') \<Longrightarrow> cc_endpoints c' = cc_endpoints c
      \<and> cc_control c' = cc_control c \<and> cc_events c' = cc_events c" for k k' c c'
    by (auto simp: terminate_def close_stdin_def Let_def split: if_splits prod.splits)
  show "case CaptureClient_assign me w this other of
      None \<Rightarrow> CaptureClient_dtor me w this = None
    | Some (w', new, old) \<Rightarrow> new = other \<and> CaptureClient_dtor me w' old = Some w'
        \<and> CaptureClient_dtor me w this = Some w'"
  proof (cases "terminate me (w_kernel w) this")
    case None
    then show ?thesis by (simp add: CaptureClient_assign_def CaptureClient_dtor_def)
  next
    case (Some kc)
    then obtain k c where "kc = (k, c)" "terminate me (w_kernel w) this = Some (k, c)" by (cases kc) simp
    with frame [OF this(2)] show ?thesis
      by (simp add: CaptureClient_assign_def CaptureClient_dtor_def Socket_assign_def Socket_close_def
          drop_members_def terminate_def close_stdin_def nng_close_commute Let_def)
  qed
qed

end
