(* ===== verification/OCP_CppSession.thy ===== *)
theory OCP_CppSession
  imports OCP_CppClient
begin

text \<open>
  A session between a C++ frontend and a Rust plugin: \<open>drain\<close> of
  \<open>cpp/tests/test_session.cpp\<close>, which reads the events of a capture and puts the
  samples of each stream together, over the chunks of the Rust crate's \<open>StreamSender\<close>.
\<close>

section \<open>The reading loop\<close>

text \<open>\<open>CHECK\<close> counts the checks that failed.\<close>

definition check_cpp :: "bool \<Rightarrow> nat \<Rightarrow> nat" where
  "check_cpp ok failures = (if ok then failures else failures + 1)"

type_synonym streams = "u32 \<rightharpoonup> bytes"

lemma next_event_consumes:
  "nextEvent_cpp tx cw k = Some (k', x) \<Longrightarrow>
   length (sk_inbox (cc_events_io k')) < length (sk_inbox (cc_events_io k))"
  by (auto simp: nextEvent_cpp_def Socket_recv_def split: list.splits sum.splits)

text \<open>
  \<open>unitsize\<close> and \<open>streams\<close> are the two maps; the name of a stream that is not in the
  first stands for samples of one byte.
\<close>

function drain_cpp ::
  "texts \<Rightarrow> cpp_wire \<Rightarrow> nat \<Rightarrow> (u32 \<rightharpoonup> usize) \<Rightarrow> nat \<Rightarrow> streams \<Rightarrow> cpp_client \<Rightarrow> (nat \<times> streams) called" where
  "drain_cpp tx cw ms unitsize failures streams k =
     (case nextEvent_cpp tx cw k of
        None \<Rightarrow> None
      | Some (k, Inl x) \<Rightarrow> Some (k, Inl x)
      | Some (k, Inr event) \<Rightarrow>
          (case ev_event event of
             Some (Data data) \<Rightarrow>
               (let unit = (case unitsize (cd_stream data) of None \<Rightarrow> 1 | Some u \<Rightarrow> u) in
                case snd (decodePayload tx ms data unit []) of
                  Inl x \<Rightarrow> Some (k, Inl x)
                | Inr packed \<Rightarrow>
                    (let failures = check_cpp (of_nat (length (cow_bytes packed)) = cd_sample_count data * unit) failures;
                         old = (case streams (cd_stream data) of None \<Rightarrow> [] | Some s \<Rightarrow> s) in
                     case str_append ms old (cow_bytes packed) of
                       Inl x \<Rightarrow> Some (k, Inl x)
                     | Inr s \<Rightarrow> drain_cpp tx cw ms unitsize failures (streams(cd_stream data \<mapsto> s)) k))
           | Some (CaptureEnd fin) \<Rightarrow> Some (k, Inr (check_cpp (ce_error fin = None) failures, streams))
           | _ \<Rightarrow> drain_cpp tx cw ms unitsize failures streams k))"
  by pat_completeness auto
termination
  by (relation "measure (\<lambda>(tx, cw, ms, unitsize, failures, streams, k). length (sk_inbox (cc_events_io k)))")
    (auto dest!: next_event_consumes)

declare drain_cpp.simps [simp del]

section \<open>A chunk of the Rust sender in C++\<close>

lemma chunk_decodes_in_cpp:
  assumes "sender_ok ss" and "whole_samples (ss_unitsize ss) part" and "length part \<le> ms" and "ms \<le> isize_max"
    and "part_payload ss part = Ret payload"
  shows "\<exists>c. snd (decodePayload tx ms (chunk_data ss part payload) (ss_unitsize ss) []) = Inr c \<and> cow_bytes c = part"
proof (cases "ss_encoding ss")
  case Packed
  with assms(5) show ?thesis by (simp add: part_payload_def decodePayload_def chunk_data_def)
next
  case Transition
  from assms(1) have u: "ss_unitsize ss \<noteq> 0" by (simp add: sender_ok_def)
  obtain payload' where p: "encode_transition part (ss_unitsize ss) = Ret payload'"
    "decode_transition Release payload' (ss_unitsize ss) (part_samples ss part) = Ret (Inr part)"
    by (rule transition_codec.encoded [OF u assms(2)]) (simp add: part_samples_def)
  with assms(5) Transition have rust: "decode_transition Release payload (ss_unitsize ss) (part_samples ss part) = Ret (Inr part)"
    by (simp add: part_payload_def)
  with decodeTransition_agrees [OF assms(4), of tx payload "ss_unitsize ss" "part_samples ss part"] assms(3)
  have "decodeTransition ms payload (ss_unitsize ss) (part_samples ss part) = Inr part"
    by (auto simp: agree_upto_def same_result_def split: if_splits elim!: rel_sum.cases)
  with Transition show ?thesis by (simp add: decodePayload_def chunk_data_def)
next
  case EncodingUnspecified
  with assms(1) show ?thesis by (simp add: sender_ok_def)
qed

lemma chunk_size_checks:
  assumes "whole_samples (ss_unitsize ss) part"
  shows "of_nat (length part) = cd_sample_count (chunk_data ss part payload) * ss_unitsize ss"
proof -
  have "length part = length part div unat (ss_unitsize ss) * unat (ss_unitsize ss)"
    using assms by (simp add: whole_samples_def)
  then have "of_nat (length part) = (of_nat (length part div unat (ss_unitsize ss)) * of_nat (unat (ss_unitsize ss)) :: u64)"
    by (metis of_nat_mult)
  then show ?thesis by (simp add: chunk_data_def part_samples_def)
qed

text \<open>Reading an event that the wire reads back.\<close>

lemma nextEvent_reads:
  fixes w :: wire
  assumes "sk_inbox (cc_events_io k) = Inr (enc_event w m) # rest"
    and "parse_event cw (enc_event w m) = Some m"
  shows "nextEvent_cpp tx cw k = Some (k\<lparr>cc_events_io := (cc_events_io k)\<lparr>sk_inbox := rest\<rparr>\<rparr>, Inr m)"
  using assms by (simp add: nextEvent_cpp_def Socket_recv_def)

lemma drain_cpp_chunks:
  fixes w :: wire
  assumes "ms \<le> isize_max"
  shows "\<lbrakk>sender_ok ss; unitsize (ss_stream ss) = Some (ss_unitsize ss);
      list_all (whole_samples (ss_unitsize ss)) parts; stream_chunks ss parts = Ret ds;
      list_all (\<lambda>d. parse_event cw (enc_event w \<lparr>ev_event = Some (Data d)\<rparr>) = Some \<lparr>ev_event = Some (Data d)\<rparr>) ds;
      sk_inbox (cc_events_io k) = map Inr (data_msgs (enc_event w) ds @ rest);
      old = (case streams (ss_stream ss) of None \<Rightarrow> [] | Some s \<Rightarrow> s); length old + length (concat parts) \<le> ms\<rbrakk> \<Longrightarrow>
    \<exists>k'. drain_cpp tx cw ms unitsize failures streams k
        = drain_cpp tx cw ms unitsize failures
            (if parts = [] then streams else streams(ss_stream ss \<mapsto> old @ concat parts)) k'
      \<and> sk_inbox (cc_events_io k') = map Inr rest"
proof (induction parts arbitrary: ss ds k streams old)
  case Nil
  then show ?case by auto
next
  case (Cons part parts)
  from Cons.prems(4) obtain payload ds' where ds: "part_payload ss part = Ret payload"
    "stream_chunks (advance ss part) parts = Ret ds'" "ds = chunk_data ss part payload # ds'"
    by (auto simp: return_iff)
  let ?d = "chunk_data ss part payload" and ?streams = "streams(ss_stream ss \<mapsto> old @ part)"
  let ?k = "k\<lparr>cc_events_io := (cc_events_io k)\<lparr>sk_inbox := map Inr (data_msgs (enc_event w) ds' @ rest)\<rparr>\<rparr>"
  from Cons.prems(3,8) have whole: "whole_samples (ss_unitsize ss) part" and fits: "length part \<le> ms" by simp_all
  obtain c where c: "snd (decodePayload tx ms ?d (ss_unitsize ss) []) = Inr c" "cow_bytes c = part"
    using chunk_decodes_in_cpp [OF Cons.prems(1) whole fits assms ds(1)] by blast
  have "nextEvent_cpp tx cw k = Some (?k, Inr \<lparr>ev_event = Some (Data ?d)\<rparr>)"
    by (rule nextEvent_reads [where w = w]) (use Cons.prems(5,6) ds(3) in simp_all)
  moreover have "cd_stream ?d = ss_stream ss" by (simp add: chunk_data_def)
  moreover have "str_append ms old part = Inr (old @ part)"
    using Cons.prems(8) by (simp add: str_append_def)
  ultimately have step: "drain_cpp tx cw ms unitsize failures streams k
      = drain_cpp tx cw ms unitsize failures ?streams ?k"
    using Cons.prems(2,7) c chunk_size_checks [OF whole, of payload]
    by (subst drain_cpp.simps) (simp add: check_cpp_def)
  obtain k' where k': "drain_cpp tx cw ms unitsize failures ?streams ?k
      = drain_cpp tx cw ms unitsize failures
          (if parts = [] then ?streams
           else ?streams(ss_stream (advance ss part) \<mapsto> (old @ part) @ concat parts)) k'"
    "sk_inbox (cc_events_io k') = map Inr rest"
    using Cons.IH [where ss = "advance ss part" and k = ?k and streams = ?streams and old = "old @ part",
        OF _ _ _ ds(2)] Cons.prems ds(3) by (auto simp del: fun_upd_apply simp: fun_upd_same)
  have same: "(if parts = [] then ?streams else ?streams(ss_stream (advance ss part) \<mapsto> (old @ part) @ concat parts))
      = streams(ss_stream ss \<mapsto> old @ concat (part # parts))"
    by simp
  show ?case
    by (rule exI [of _ k']) (simp only: step k'(1) same k'(2) list.distinct if_False simp_thms)
qed

section \<open>Properties\<close>

text \<open>
  C16. A C++ frontend gets the samples a Rust plugin has sent.  When a \<open>StreamSender\<close> has sent
  the samples of a call without an error, in either encoding, and then the capture has
  ended, the C++ reading loop comes to its end with exactly these samples under the
  stream's number and no check failed.
\<close>

theorem cpp_frontend_gets_the_samples:
  fixes w :: wire
  assumes "length packed \<le> ms" and "ms \<le> isize_max"
    and "sender_ok ss" and "unat (ss_unitsize ss) \<le> 2 ^ 20" and "whole_samples (ss_unitsize ss) packed"
    and "stream_send prof (enc_event w) ss es packed = Ret (ss', es', Inr ())"
    and "stream_chunks ss (chunks (unat (chunk_size (ss_unitsize ss))) packed) = Ret ds"
    and "list_all (\<lambda>e. parse_event cw (enc_event w \<lparr>ev_event = Some e\<rparr>) = Some \<lparr>ev_event = Some e\<rparr>)
      (map Data ds @ [CaptureEnd \<lparr>ce_capture_id = cid, ce_error = None\<rparr>])"
    and "sk_inbox (cc_events_io k)
      = map Inr (drop (length (sk_sent (ev_socket es))) (sk_sent (ev_socket es'))
          @ [enc_event w \<lparr>ev_event = Some (CaptureEnd \<lparr>ce_capture_id = cid, ce_error = None\<rparr>)\<rparr>])"
    and "unitsize (ss_stream ss) = Some (ss_unitsize ss)" and "packed \<noteq> []"
  shows "\<exists>k'. drain_cpp tx cw ms unitsize 0 Map.empty k = Some (k', Inr (0, [ss_stream ss \<mapsto> packed]))
    \<and> sk_inbox (cc_events_io k') = []"
proof -
  let ?parts = "chunks (unat (chunk_size (ss_unitsize ss))) packed"
  let ?fin = "enc_event w \<lparr>ev_event = Some (CaptureEnd \<lparr>ce_capture_id = cid, ce_error = None\<rparr>)\<rparr>"
  from assms(3) have u: "ss_unitsize ss \<noteq> 0" by (simp add: sender_ok_def)
  note whole = chunks_whole [OF u assms(4,5)]
  from whole(2) assms(11) have some: "?parts \<noteq> []" by auto
  from assms(6) have "send_parts prof (enc_event w) ss es ?parts = Ret (ss', es', Inr ())"
    by (auto simp: stream_send_def Let_def split: if_splits)
  from send_parts_prefix [OF this assms(7)] stream_chunks_drain [OF assms(3) whole(1,3), of prof] assms(7)
  have "sk_sent (ev_socket es') = sk_sent (ev_socket es) @ data_msgs (enc_event w) ds" by auto
  then have box: "sk_inbox (cc_events_io k) = map Inr (data_msgs (enc_event w) ds @ [?fin])"
    using assms(9) by simp
  have reads: "list_all (\<lambda>d. parse_event cw (enc_event w \<lparr>ev_event = Some (Data d)\<rparr>) = Some \<lparr>ev_event = Some (Data d)\<rparr>) ds"
    "parse_event cw ?fin = Some \<lparr>ev_event = Some (CaptureEnd \<lparr>ce_capture_id = cid, ce_error = None\<rparr>)\<rparr>"
    using assms(8) by (simp_all add: list_all_iff)
  have room: "length ([] :: bytes) + length (concat ?parts) \<le> ms" using assms(1) whole(2) by simp
  obtain k' where k': "drain_cpp tx cw ms unitsize 0 Map.empty k
      = drain_cpp tx cw ms unitsize 0 [ss_stream ss \<mapsto> packed] k'" "sk_inbox (cc_events_io k') = map Inr [?fin]"
    using drain_cpp_chunks [where w = w and cw = cw and ss = ss and unitsize = unitsize and parts = ?parts
        and ds = ds and k = k and rest = "[?fin]" and old = "[]" and streams = Map.empty and ms = ms
        and tx = tx and failures = 0, OF assms(2,3,10) whole(1) assms(7) reads(1) box _ room] some whole(2)
    by auto
  then have "nextEvent_cpp tx cw k' = Some (k'\<lparr>cc_events_io := (cc_events_io k')\<lparr>sk_inbox := []\<rparr>\<rparr>,
      Inr \<lparr>ev_event = Some (CaptureEnd \<lparr>ce_capture_id = cid, ce_error = None\<rparr>)\<rparr>)"
    by (intro nextEvent_reads [where w = w, OF _ reads(2)]) simp
  then show ?thesis unfolding k'(1) by (subst drain_cpp.simps) (simp add: check_cpp_def)
qed

text \<open>A wire that knows one chunk and the end of its capture.\<close>

definition session_sender :: stream_sender where
  "session_sender = example_sender\<lparr>ss_encoding := Packed\<rparr>"

definition session_end :: event where
  "session_end = CaptureEnd \<lparr>ce_capture_id = 7, ce_error = None\<rparr>"

definition cpp_session_wire :: wire where
  "cpp_session_wire = tiny_wire\<lparr>
     enc_event := (\<lambda>m. if ev_event m = Some session_end then [8] else [9]),
     dec_event := (\<lambda>bs. Inr \<lparr>ev_event = Some (if bs = [8] then session_end
       else Data (chunk_data session_sender [1, 2] [1, 2]))\<rparr>)\<rparr>"

theorem cpp_frontend_gets_the_samples_witness:
  "\<exists>k'. drain_cpp example_texts (cpp_wire_of cpp_session_wire) libstdcxx_max [ss_stream session_sender \<mapsto> 2] 0 Map.empty
       ((cpp_of (demo_client []))\<lparr>cc_events_io := quiet_socket\<lparr>sk_inbox := [Inr [9], Inr [8]]\<rparr>\<rparr>)
     = Some (k', Inr (0, [ss_stream session_sender \<mapsto> [1, 2]]))"
proof -
  let ?d = "chunk_data session_sender [1, 2] [1, 2]"
  let ?w = cpp_session_wire
  let ?k = "(cpp_of (demo_client []))\<lparr>cc_events_io := quiet_socket\<lparr>sk_inbox := [Inr [9], Inr [8]]\<rparr>\<rparr>"
  let ?es = "new_events quiet_socket" and ?es' = "new_events (quiet_socket\<lparr>sk_sent := [[9]]\<rparr>)"
  have sender: "ss_unitsize session_sender = 2" by (simp add: session_sender_def example_sender_def)
  have "unat (chunk_size 2) = 2 ^ 20" by (simp add: chunk_size_def MAX_PAYLOAD_def)
  then have parts: "chunks (unat (chunk_size (ss_unitsize session_sender))) [1, 2 :: u8] = [[1, 2]]"
    by (simp add: sender chunks.simps)
  have ok: "sender_ok session_sender" "unat (ss_unitsize session_sender) \<le> 2 ^ 20"
    "whole_samples (ss_unitsize session_sender) [1, 2]" "length [1, 2 :: u8] \<le> libstdcxx_max" "libstdcxx_max \<le> isize_max"
    by (simp_all add: sender_ok_def session_sender_def example_sender_def whole_samples_def isize_max_def libstdcxx_max_def)
  have wire: "enc_event ?w \<lparr>ev_event = Some (Data d)\<rparr> = [9]" "enc_event ?w \<lparr>ev_event = Some session_end\<rparr> = [8]"
    "dec_event ?w [9] = Inr \<lparr>ev_event = Some (Data ?d)\<rparr>" "dec_event ?w [8] = Inr \<lparr>ev_event = Some session_end\<rparr>" for d
    by (simp_all add: cpp_session_wire_def session_end_def)
  have send: "stream_send Debug (enc_event ?w) session_sender ?es [1, 2] = Ret (advance session_sender [1, 2], ?es', Inr ())"
    using parts wire(1)
    by (simp add: stream_send_def Let_def part_payload_def events_send_def send_def sock_send_def
        new_events_def quiet_socket_def session_sender_def example_sender_def chunk_size_def MAX_PAYLOAD_def u64_add_def
        advance_def part_samples_def)
  have ds: "stream_chunks session_sender (chunks (unat (chunk_size (ss_unitsize session_sender))) [1, 2]) = Ret [?d]"
    unfolding parts by (simp add: part_payload_def session_sender_def example_sender_def)
  have dec: "list_all (\<lambda>e. parse_event (cpp_wire_of ?w) (enc_event ?w \<lparr>ev_event = Some e\<rparr>) = Some \<lparr>ev_event = Some e\<rparr>)
      (map Data [?d] @ [CaptureEnd \<lparr>ce_capture_id = 7, ce_error = None\<rparr>])"
    using wire by (simp add: session_end_def cpp_wire_of_def)
  have box: "sk_inbox (cc_events_io ?k)
      = map Inr (drop (length (sk_sent (ev_socket ?es))) (sk_sent (ev_socket ?es'))
          @ [enc_event ?w \<lparr>ev_event = Some (CaptureEnd \<lparr>ce_capture_id = 7, ce_error = None\<rparr>)\<rparr>])"
    using wire(2) by (simp add: new_events_def quiet_socket_def session_end_def)
  have unit: "[ss_stream session_sender \<mapsto> 2] (ss_stream session_sender) = Some (ss_unitsize session_sender)"
    by (simp add: sender)
  from cpp_frontend_gets_the_samples [where w = ?w and k = ?k and unitsize = "[ss_stream session_sender \<mapsto> 2]"
      and ss = session_sender and packed = "[1, 2]" and tx = example_texts and es = ?es and es' = ?es' and ds = "[?d]"
      and cid = 7, OF ok(4,5,1-3) send ds dec box unit]
  show ?thesis by blast
qed

end
