(* ===== verification/OCP_CppTests.thy ===== *)
theory OCP_CppTests
  imports OCP_Tests OCP_CppEncoding OCP_CppManifest OCP_CppTransport
begin

text \<open>
  The tests of the C++ binding that need no plugin, run on the model:
  \<open>cpp/tests/test_encoding.cpp\<close>, \<open>test_manifest.cpp\<close> and \<open>test_transport.cpp\<close>.  A test is a
  boolean, one conjunct per check; an exception outside \<open>CHECK_THROWS\<close> makes it false.
  They are the tests of the crate for the most part, and pass because those do and the
  two bindings agree.
\<close>

section \<open>\<open>test_encoding.cpp\<close>\<close>

text \<open>\<open>CHECK_THROWS\<close>\<close>

definition threw :: "'a throws \<Rightarrow> bool" where
  "threw x = (case x of Inl _ \<Rightarrow> True | Inr _ \<Rightarrow> False)"

lemma threw_simps [simp]: "threw (Inl x)" "\<not> threw (Inr a)"
  by (simp_all add: threw_def)

definition roundtrip_cpp :: "nat \<Rightarrow> bytes \<Rightarrow> usize \<Rightarrow> bool" where
  "roundtrip_cpp ms packed unitsize \<longleftrightarrow>
     (case encodeTransition packed unitsize of
        Inl _ \<Rightarrow> False
      | Inr encoded \<Rightarrow>
          decodeTransition ms encoded unitsize (of_nat (length packed div unat unitsize)) = Inr packed)"

definition runs_survive_a_round_trip :: "nat \<Rightarrow> bool" where
  "runs_survive_a_round_trip ms \<longleftrightarrow>
     roundtrip_cpp ms [] 1 \<and> roundtrip_cpp ms [7] 1 \<and> roundtrip_cpp ms [1, 1, 1, 2, 2, 3] 1
     \<and> roundtrip_cpp ms (replicate 500 0xaa) 1 \<and> roundtrip_cpp ms [1, 2, 1, 2, 3, 4, 3, 4] 2"

definition an_idle_bus_costs_almost_nothing :: bool where
  "an_idle_bus_costs_almost_nothing \<longleftrightarrow>
     (case encodeTransition (replicate 100000 0) 1 of Inl _ \<Rightarrow> False | Inr e \<Rightarrow> length e < 10)"

definition long_runs_use_multi_byte_varints_cpp :: "nat \<Rightarrow> bool" where
  "long_runs_use_multi_byte_varints_cpp ms \<longleftrightarrow>
     encodeTransition (replicate 300 5) 1 = Inr [0xac, 0x02, 5] \<and> roundtrip_cpp ms (replicate 100000 5) 1"

definition a_short_count_is_an_error_not_a_truncated_buffer :: "nat \<Rightarrow> bool" where
  "a_short_count_is_an_error_not_a_truncated_buffer ms \<longleftrightarrow>
     (case encodeTransition [1, 1, 2] 1 of
        Inl _ \<Rightarrow> False | Inr encoded \<Rightarrow> threw (decodeTransition ms encoded 1 2))
     \<and> threw (decodeTransition ms [3] 1 3) \<and> threw (decodeTransition ms [0, 9] 1 1)"

definition negotiation_always_leaves_the_mandatory_member :: bool where
  "negotiation_always_leaves_the_mandatory_member \<longleftrightarrow>
     (let packed = sample_encoding_i32 Packed; transition = sample_encoding_i32 Transition;
          ours = supportedEncodings in
      negotiateEncodings [packed] ours = [packed]
      \<and> negotiateEncodings [packed, transition] ours = [transition, packed]
      \<and> negotiateEncodings [transition] [Packed] = [packed]
      \<and> negotiateEncodings [] ours = [packed]
      \<and> negotiateCodecs [] supportedCodecs = [codec_i32 CodecNone])"

text \<open>A view that points into the message is \<open>Borrowed\<close>.\<close>

definition chunks_decode_by_their_declared_encoding_cpp :: "texts \<Rightarrow> nat \<Rightarrow> bool" where
  "chunks_decode_by_their_declared_encoding_cpp tx ms \<longleftrightarrow>
     (let packed = [1, 1, 1, 2];
          data = default_data\<lparr>cd_sample_count := 4, cd_encoding := sample_encoding_i32 Packed,
            cd_codec := codec_i32 CodecNone, cd_payload := packed\<rparr> in
      case decodePayload tx ms data 1 [] of
        (_, Inl _) \<Rightarrow> False
      | (scratch, Inr view) \<Rightarrow>
          cow_bytes view = packed \<and> view = Borrowed (cd_payload data)
          \<and> (case encodeTransition packed 1 of
               Inl _ \<Rightarrow> False
             | Inr payload \<Rightarrow>
                 (let data = data\<lparr>cd_encoding := sample_encoding_i32 Transition, cd_payload := payload\<rparr> in
                  case decodePayload tx ms data 1 scratch of
                    (_, Inl _) \<Rightarrow> False
                  | (scratch, Inr view) \<Rightarrow>
                      cow_bytes view = packed
                      \<and> threw (snd (decodePayload tx ms (data\<lparr>cd_codec := codec_i32 Zstd\<rparr>) 1 scratch)))))"

section \<open>\<open>test_manifest.cpp\<close>\<close>

definition canonical_json_cpp :: string where
  "canonical_json_cpp = raw_lines
     [''{'',
      ''        \"name\": \"generic-fx2\",'',
      ''        \"description\": \"Cypress FX2 logic analyzers\",'',
      ''        \"version\": \"0.0.1\",'',
      ''        \"run\": [\"./generic-fx2\"],'',
      ''        \"urlSchemes\": [\"usb\", \"fd\"],'',
      ''        \"usbIds\": [{\"id\": \"04b4:8613\", \"needsFirmware\": true},'',
      ''                   {\"id\": \"1d50:608c\", \"note\": \"openmso\"}],'',
      ''        \"palette\": {\"analog\": [\"COLOR_YELLOW\", \"COLOR_MAGENTA\"]}}'']"

text \<open>\<open>palette()\<close> of a message without one is the default, which has no colours.\<close>

definition canonical_json_field_names_round_trip_cpp ::
  "(string \<Rightarrow> string + plugin_manifest) \<Rightarrow> bool" where
  "canonical_json_field_names_round_trip_cpp json_to_message \<longleftrightarrow>
     (case parse_cpp json_to_message canonical_json_cpp of
        Inl _ \<Rightarrow> False
      | Inr m \<Rightarrow>
          pm_name m = ''generic-fx2'' \<and> length (pm_url_schemes m) = 2 \<and> hd (pm_url_schemes m) = ''usb''
          \<and> (case pm_usb_ids m of
               [first, second] \<Rightarrow> usb_needs_firmware first \<and> \<not> usb_needs_firmware second
             | _ \<Rightarrow> False)
          \<and> (case pm_palette m of
               Some p \<Rightarrow> (case cp_analog p of
                   a # b # _ \<Rightarrow> a = COLOR_YELLOW \<and> b = COLOR_MAGENTA
                 | _ \<Rightarrow> False)
             | None \<Rightarrow> False)
          \<and> pm_vendor m = [])"

definition an_unknown_key_is_rejected_rather_than_ignored ::
  "(string \<Rightarrow> string + plugin_manifest) \<Rightarrow> bool" where
  "an_unknown_key_is_rejected_rather_than_ignored json_to_message \<longleftrightarrow>
     threw (parse_cpp json_to_message ''{\"name\": \"demo\", \"runn\": [\"./demo\"]}'')"

definition argv_resolves_against_the_plugin_directory_cpp :: bool where
  "argv_resolves_against_the_plugin_directory_cpp \<longleftrightarrow>
     (let m = default_manifest\<lparr>pm_run :=
            [''{python}'', ''plugin.py'', ''--verbose'', ''/usr/bin/thing'', ''demo'']\<rparr> in
      resolveArgv m ''/plugins/demo'' ''/usr/bin/python3.13''
        = [''/usr/bin/python3.13'', ''/plugins/demo/plugin.py'', ''--verbose'', ''/usr/bin/thing'', ''demo''])"

section \<open>\<open>test_transport.cpp\<close>\<close>

text \<open>\<open>substr\<close> behind the scheme, and \<open>erase\<close> from the last slash on.\<close>

definition pathOf :: "string \<Rightarrow> string" where
  "pathOf url = drop (length ''ipc://'') url"

definition erase_from_last_slash :: "string \<Rightarrow> string" where
  "erase_from_last_slash path = butlast (rev (dropWhile (\<lambda>c. c \<noteq> CHR ''/'') (rev path)))"

text \<open>\<open>stat\<close>: the mode of a directory, \<open>None\<close> for a path that does not exist.\<close>

definition stat_mode :: "disk \<Rightarrow> string \<Rightarrow> u32 option" where
  "stat_mode d path =
     (if path \<in> set (dk_files d) then Some 0 else map_of (dk_dirs d) path)"

definition endpoints_are_private_and_vanish_with_the_frontend ::
  "texts \<Rightarrow> cpp_vars \<Rightarrow> u32 \<Rightarrow> u32 \<Rightarrow> disk \<Rightarrow> bool" where
  "endpoints_are_private_and_vanish_with_the_frontend tx vars now pid d \<longleftrightarrow>
     (case Endpoints_ctor tx vars now pid d of
        (_, Inl _) \<Rightarrow> False
      | (d, Inr e) \<Rightarrow>
          starts_with (ep_control e) ''ipc://'' \<and> ep_control e \<noteq> ep_events e
          \<and> (let dir = erase_from_last_slash (pathOf (ep_control e)) in
              (case stat_mode d dir of None \<Rightarrow> False | Some mode \<Rightarrow> mode AND 0x1FF = mode_700)
              \<and> stat_mode (Endpoints_dtor d e) dir = None))"

definition concurrent_frontends_get_separate_directories_cpp ::
  "texts \<Rightarrow> cpp_vars \<Rightarrow> u32 \<times> u32 \<Rightarrow> u32 \<times> u32 \<Rightarrow> disk \<Rightarrow> bool" where
  "concurrent_frontends_get_separate_directories_cpp tx vars first second d \<longleftrightarrow>
     (case Endpoints_ctor tx vars (fst first) (snd first) d of
        (_, Inl _) \<Rightarrow> False
      | (d, Inr a) \<Rightarrow>
          (case Endpoints_ctor tx vars (fst second) (snd second) d of
             (_, Inl _) \<Rightarrow> False
           | (_, Inr b) \<Rightarrow> ep_control a \<noteq> ep_control b))"

definition overlong_socket_paths_are_rejected_before_nng_sees_them :: bool where
  "overlong_socket_paths_are_rejected_before_nng_sees_them \<longleftrightarrow>
     threw (checkSunPath (''/run/user/1000/'' @ replicate 100 (CHR ''x'')))
     \<and> \<not> threw (checkSunPath ''/run/user/1000/openmso/7f3a/ctl'')"

text \<open>
  The two sockets of the last test refuse nothing on the way (\<open>idle\<close>), and what one has
  sent is what the other receives.
\<close>

definition hello_log :: event_msg where
  "hello_log = \<lparr>ev_event = Some (Log \<lparr>log_level = log_level_i32 LogWarning, log_message = ''hello''\<rparr>)\<rparr>"

definition idle_traffic :: socket where
  "idle_traffic = \<lparr>sk_inbox = [], sk_faults = [], sk_sent = []\<rparr>"

definition set_up_pipe ::
  "nng_lib \<Rightarrow> texts \<Rightarrow> string \<Rightarrow> nng_state \<Rightarrow> nng_state \<times> unit throws" where
  "set_up_pipe lib tx url ns =
     st_bind (Socket_ctor lib tx Pull0 ns) (\<lambda>ns pull.
     st_bind (Socket_listen lib tx Pull0 pull url ns) (\<lambda>ns _.
     st_bind (setRecvTimeout lib tx Pull0 pull (Some 5000) ns) (\<lambda>ns _.
     st_bind (Socket_ctor lib tx Push0 ns) (\<lambda>ns push.
       (ns, Socket_dial lib tx Push0 url)))))"

definition a_message_round_trips_over_ipc ::
  "nng_lib \<Rightarrow> texts \<Rightarrow> (event_msg \<Rightarrow> bytes option) \<Rightarrow> (bytes \<Rightarrow> event_msg option) \<Rightarrow>
   cpp_vars \<Rightarrow> u32 \<Rightarrow> u32 \<Rightarrow> disk \<Rightarrow> nng_state \<Rightarrow> bool" where
  "a_message_round_trips_over_ipc lib tx ser parse vars now pid d ns \<longleftrightarrow>
     (case Endpoints_ctor tx vars now pid d of
        (_, Inl _) \<Rightarrow> False
      | (_, Inr endpoints) \<Rightarrow>
     \<not> threw (snd (set_up_pipe lib tx (ep_events endpoints) ns))
     \<and> (case Socket_send tx ser ''omso.capture.v1.Event'' idle_traffic hello_log of
          (_, Inl _) \<Rightarrow> False
        | (push, Inr _) \<Rightarrow>
            (case Socket_recv tx parse ''recv'' ''omso.capture.v1.Event''
                    (idle_traffic\<lparr>sk_inbox := map Inr (sk_sent push)\<rparr>) of
               Some (_, Inr got) \<Rightarrow>
                 (case ev_event got of
                    Some (Log l) \<Rightarrow> log_message l = ''hello'' \<and> log_level l = log_level_i32 LogWarning
                  | _ \<Rightarrow> False)
             | _ \<Rightarrow> False)))"

section \<open>Why they pass\<close>

text \<open>
  Strings of at least a hundred thousand bytes and of at most what a Rust slice can hold:
  the limit \<open>ms\<close> of every implementation.
\<close>

definition room_for_tests :: "nat \<Rightarrow> bool" where
  "room_for_tests ms \<longleftrightarrow> 100000 \<le> ms \<and> ms \<le> isize_max"

lemma encodeTransition_Ret:
  "unitsize \<noteq> 0 \<Longrightarrow> encode_transition packed unitsize = Ret e \<Longrightarrow> encodeTransition packed unitsize = Inr e"
  by (simp add: encodeTransition_eq)

lemma roundtrip_cpp_ok:
  assumes "room_for_tests ms" and "unitsize \<noteq> 0" and "length packed \<le> 100000"
    and "unat unitsize dvd length packed"
  shows "roundtrip_cpp ms packed unitsize"
proof -
  obtain e where e: "encode_transition packed unitsize = Ret e"
    using encode_transition_runs [OF assms(2), of packed] assms(1,3)
    by (auto simp: room_for_tests_def isize_max_def)
  have "decode_transition Release e unitsize (of_nat (length packed div unat unitsize)) = Ret (Inr packed)"
    using roundtrip_ok [OF assms(2) _ assms(4), of Release] assms(3) e by (simp add: roundtrip_def isize_max_def)
  moreover have "ms \<le> isize_max" "length packed \<le> ms" using assms(1,3) by (simp_all add: room_for_tests_def)
  moreover note decodeTransition_agrees [OF calculation(2), of example_texts e unitsize
      "of_nat (length packed div unat unitsize)"]
  ultimately have "decodeTransition ms e unitsize (of_nat (length packed div unat unitsize)) = Inr packed"
    by (cases "decodeTransition ms e unitsize (of_nat (length packed div unat unitsize))")
      (auto simp: agree_upto_def same_result_iff split: if_splits)
  then show ?thesis by (simp add: roundtrip_cpp_def encodeTransition_Ret [OF assms(2) e])
qed

lemma runs_cpp_ok: "room_for_tests ms \<Longrightarrow> runs_survive_a_round_trip ms"
  unfolding runs_survive_a_round_trip_def by (intro conjI roundtrip_cpp_ok) simp_all

lemma idle_cpp_ok: an_idle_bus_costs_almost_nothing
  using idle_ok
  by (auto simp: idle_bus_collapses_to_one_run_def an_idle_bus_costs_almost_nothing_def
      encodeTransition_eq split: outcome.splits)

lemma long_runs_cpp_ok:
  assumes "room_for_tests ms"
  shows "long_runs_use_multi_byte_varints_cpp ms"
proof -
  have "encode_transition (replicate 300 5) 1 = Ret [0xac, 0x02, 5]"
    using long_runs_ok [of Release] by (simp add: long_runs_use_multi_byte_varints_def)
  moreover have "roundtrip_cpp ms (replicate 100000 5) 1"
    by (rule roundtrip_cpp_ok [OF assms]) simp_all
  ultimately show ?thesis
    by (simp add: long_runs_use_multi_byte_varints_cpp_def encodeTransition_Ret)
qed

text \<open>What Rust refuses C++ refuses.\<close>

lemma refused_in_cpp:
  assumes "ms \<le> isize_max" and "fails (decode_transition Release payload unitsize samples)"
  shows "threw (decodeTransition ms payload unitsize samples)"
  using decodeTransition_agrees [OF assms(1), of example_texts payload unitsize samples] assms(2)
  by (cases "decodeTransition ms payload unitsize samples")
    (auto simp: agree_upto_def fails_def same_result_iff split: if_splits)

lemma short_count_cpp_ok:
  assumes "room_for_tests ms"
  shows "a_short_count_is_an_error_not_a_truncated_buffer ms"
proof -
  have ms: "ms \<le> isize_max" using assms by (simp add: room_for_tests_def)
  have e: "encode_transition [1, 1, 2] 1 = Ret [2, 1, 1, 2]" by code_simp
  have "fails (decode_transition Release [2, 1, 1, 2] 1 2)" "fails (decode_transition Release [3] 1 3)"
    "fails (decode_transition Release [0, 9] 1 1)"
    using short_count_ok [of Release] by (simp_all add: a_short_count_is_an_error_def e)
  then show ?thesis
    by (simp add: a_short_count_is_an_error_not_a_truncated_buffer_def encodeTransition_Ret [OF _ e]
        refused_in_cpp [OF ms])
qed

lemma negotiation_cpp_ok: negotiation_always_leaves_the_mandatory_member
  using negotiation_ok
  by (simp add: negotiation_always_leaves_the_mandatory_member_def
      negotiation_keeps_the_mandatory_member_def negotiation_eq Let_def)

lemma chunks_cpp_ok:
  assumes "room_for_tests ms"
  shows "chunks_decode_by_their_declared_encoding_cpp tx ms"
proof -
  have e: "encode_transition [1, 1, 1, 2] 1 = Ret [3, 1, 1, 2]" by code_simp
  have "roundtrip_cpp ms [1, 1, 1, 2] 1" by (rule roundtrip_cpp_ok [OF assms]) simp_all
  then have d: "decodeTransition ms [3, 1, 1, 2] 1 4 = Inr [1, 1, 1, 2]"
    by (simp add: roundtrip_cpp_def encodeTransition_Ret [OF _ e])
  show ?thesis
    by (simp add: chunks_decode_by_their_declared_encoding_cpp_def Let_def decodePayload_def
        encodeTransition_Ret [OF _ e] d default_data_def)
qed

lemma manifest_cpp_ok:
  assumes "json_to_message canonical_json_cpp = Inr fx2_manifest"
    and "json_to_message ''{\"name\": \"demo\", \"runn\": [\"./demo\"]}'' = Inl e"
  shows "canonical_json_field_names_round_trip_cpp json_to_message"
    and "an_unknown_key_is_rejected_rather_than_ignored json_to_message"
  using assms
  by (simp_all add: canonical_json_field_names_round_trip_cpp_def
      an_unknown_key_is_rejected_rather_than_ignored_def parse_cpp_def fx2_manifest_def
      default_manifest_def)

lemma argv_cpp_ok: argv_resolves_against_the_plugin_directory_cpp
proof -
  have "plain_dir ''/plugins/demo''" by (simp add: plain_dir_def)
  with argv_tests_ok(3) show ?thesis
    by (simp add: argv_resolves_against_the_plugin_directory_cpp_def
        argv_resolves_against_the_plugin_directory_def resolveArgv_eq Let_def)
qed

lemma paths_cpp_ok: overlong_socket_paths_are_rejected_before_nng_sees_them
  by (simp add: overlong_socket_paths_are_rejected_before_nng_sees_them_def checkSunPath_def)

text \<open>A disk on which the runtime directory is free for use, and need not be made with its ancestors.\<close>

definition runtime_disk_usable :: "env_vars \<Rightarrow> disk \<Rightarrow> bool" where
  "runtime_disk_usable env d \<longleftrightarrow> runtime_dir_usable env (disk_fs d) \<and> base_ready env (disk_fs d)"

lemma Endpoints_ctor_first:
  assumes "same_vars env vars" and "tidy env d" and "runtime_disk_usable env d"
    and "fs_dirs (disk_fs d) (tag_dir env ((now XOR pid) AND 0xffff)) = None"
  shows "\<exists>d'. Endpoints_ctor tx vars now pid d
      = (d', Inr (endpoints_at env ((now XOR pid) AND 0xffff)))
    \<and> disk_fs d' = with_dir env (disk_fs d) ((now XOR pid) AND 0xffff) \<and> dk_files d' = dk_files d"
proof -
  have rust: "new_endpoints env now pid (disk_fs d) = (with_dir env (disk_fs d) ((now XOR pid) AND 0xffff),
      Inr (endpoints_at env ((now XOR pid) AND 0xffff)))"
    using assms(3,4) by (intro new_endpoints_first) (simp_all add: runtime_disk_usable_def runtime_dir_usable_def)
  obtain d' x where cpp: "Endpoints_ctor tx vars now pid d = (d', x)" by fastforce
  from Endpoints_ctor_agrees [OF assms(1,2) cpp rust] assms(3) cpp show ?thesis
    by (auto simp: too_long_def same_result_def rel_sum.simps runtime_disk_usable_def)
qed

lemma directory_of_control [simp]:
  "erase_from_last_slash (pathOf (ep_control (endpoints_at env t))) = tag_dir env t"
  by (simp add: endpoints_at_def path_in_tag_dir pathOf_def erase_from_last_slash_def)

lemma stat_dir: "path \<notin> set (dk_files d) \<Longrightarrow> stat_mode d path = fs_dirs (disk_fs d) path"
  by (simp add: stat_mode_def disk_fs_def)

lemma endpoints_cpp_ok:
  assumes "same_vars env vars" and "tidy env d" and "runtime_disk_usable env d"
    and "fs_dirs (disk_fs d) (tag_dir env ((now XOR pid) AND 0xffff)) = None"
  shows "endpoints_are_private_and_vanish_with_the_frontend tx vars now pid d"
proof -
  let ?t = "(now XOR pid) AND 0xffff"
  obtain d' where d': "Endpoints_ctor tx vars now pid d = (d', Inr (endpoints_at env ?t))"
    "disk_fs d' = with_dir env (disk_fs d) ?t" "dk_files d' = dk_files d"
    using Endpoints_ctor_first [OF assms] by blast
  have rust: "new_endpoints env now pid (disk_fs d) = (with_dir env (disk_fs d) ?t, Inr (endpoints_at env ?t))"
    using assms(3,4) by (intro new_endpoints_first) (simp_all add: runtime_disk_usable_def runtime_dir_usable_def)
  note gone = Endpoints_dtor_agrees [OF assms(2) rust d'(2), of "[]"]
  have files: "tag_dir env ?t \<notin> set (dk_files d)" using assms(2) by (simp add: tidy_def)
  have quiet: "fs_fault (with_dir env (disk_fs d) ?t) = (\<lambda>_ _. None)"
    using assms(2) by (simp add: with_dir_def Let_def) (simp add: disk_fs_def tidy_def)
  have "stat_mode d' (tag_dir env ?t) = Some (mode_700 AND NOT (fs_umask (disk_fs d)))"
    using files d' by (simp add: stat_dir with_dir_def Let_def del: and.assoc)
  moreover have "stat_mode (Endpoints_dtor d' (endpoints_at env ?t)) (tag_dir env ?t) = None"
    using gone files d'(3) quiet
    by (simp add: stat_dir drop_endpoints_def remove_dir_all_def endpoints_at_def del: and.assoc)
  ultimately show ?thesis
    using owner_keeps_access [of "fs_umask (disk_fs d)"] assms(3)
    by (simp add: endpoints_are_private_and_vanish_with_the_frontend_def d'(1) runtime_disk_usable_def runtime_dir_usable_def
        Let_def del: and.assoc)
      (simp add: endpoints_at_def starts_with_def path_in_tag_dir)
qed

lemma tidy_with_dir:
  assumes "tidy env d" and ready: "base_ready env (disk_fs d)" and "disk_fs d' = with_dir env (disk_fs d) t" and "dk_files d' = dk_files d"
  shows "tidy env d'"
proof -
  have dirs: "map_of (dk_dirs d') = (map_of (dk_dirs d))
      (runtime_base env \<mapsto> mode_700, tag_dir env t \<mapsto> mode_700 AND NOT (dk_umask d))"
    and fault: "dk_fault d' = dk_fault d"
    using arg_cong [OF assms(3), of fs_dirs] arg_cong [OF assms(3), of fs_fault]
    by (simp_all add: with_dir_def with_base_ready [OF ready] Let_def) (simp_all add: disk_fs_def)
  have names: "set (map fst (dk_dirs d')) = {tag_dir env t, runtime_base env} \<union> set (map fst (dk_dirs d))"
    using arg_cong [OF dirs, of dom] by (auto simp: dom_map_of_conv_image_fst)
  have "\<not> starts_with (tag_dir env t) (tag_dir env t' @ ''/'')" for t'
  proof
    assume "starts_with (tag_dir env t) (tag_dir env t' @ ''/'')"
    then have "take (Suc (length (show_04x (unat t')))) (show_04x (unat t)) = show_04x (unat t') @ ''/''"
      by (simp add: starts_with_def tag_dir_form)
    then have "CHR ''/'' \<in> set (take (Suc (length (show_04x (unat t')))) (show_04x (unat t)))" by simp
    then have "CHR ''/'' \<in> set (show_04x (unat t))" by (rule in_set_takeD)
    then show False using show_04x_facts [of "unat t"] by blast
  qed
  with assms(1,4) names fault show ?thesis
    using tag_not_below_base by (auto simp: tidy_def)
qed

text \<open>
  The second frontend's directory is none of those that exist, so not that of the first.
\<close>

lemma concurrent_cpp_ok:
  assumes "same_vars env vars" and "tidy env d" and "runtime_disk_usable env d"
    and "\<And>t. fs_dirs (disk_fs d) (tag_dir env t) = None"
  shows "concurrent_frontends_get_separate_directories_cpp tx vars first second d"
proof -
  let ?t = "(fst first XOR snd first) AND 0xffff"
  obtain d' where d': "Endpoints_ctor tx vars (fst first) (snd first) d = (d', Inr (endpoints_at env ?t))"
    "disk_fs d' = with_dir env (disk_fs d) ?t" "dk_files d' = dk_files d"
    using Endpoints_ctor_first [OF assms(1-3) assms(4)] by blast
  obtain d2 x where cpp: "Endpoints_ctor tx vars (fst second) (snd second) d' = (d2, x)" by fastforce
  obtain fs2 r where rust: "new_endpoints env (fst second) (snd second) (disk_fs d') = (fs2, r)" by fastforce
  have rust1: "new_endpoints env (fst first) (snd first) (disk_fs d) = (disk_fs d', Inr (endpoints_at env ?t))"
    using assms(3,4) d'(2) by (simp only:) (intro new_endpoints_first, simp_all add: runtime_disk_usable_def runtime_dir_usable_def)
  have "concurrent_frontends_get_separate_directories env (fst first, snd first) (fst second, snd second) (disk_fs d)"
    using assms(3) by (intro concurrent_test_ok [OF _ assms(4)]) (simp add: runtime_disk_usable_def)
  then obtain b where b: "r = Inr b" "ep_control (endpoints_at env ?t) \<noteq> ep_control b"
    using rust rust1
    by (auto simp: concurrent_frontends_get_separate_directories_def split: sum.splits)
  have "fs_dirs (disk_fs d') (runtime_base env) = Some mode_700"
    by (simp add: d'(2) with_dir_def Let_def) (simp add: with_base_def)
  then have here: "base_ready env (disk_fs d')" by (simp add: base_ready_def)
  have ready: "base_ready env (disk_fs d)" using assms(3) by (simp add: runtime_disk_usable_def)
  have "same_result tx (=) r x"
    by (rule Endpoints_ctor_agrees(1) [OF assms(1) tidy_with_dir [OF assms(2) ready d'(2,3)] cpp rust here])
  with b have "x = Inr b" by (cases x) simp_all
  with b(2) cpp d'(1) show ?thesis by (simp add: concurrent_frontends_get_separate_directories_cpp_def)
qed

text \<open>A library that refuses nothing.\<close>

definition willing :: "nng_lib \<Rightarrow> bool" where
  "willing lib \<longleftrightarrow> lib_open lib = (\<lambda>_. None) \<and> lib_set lib = (\<lambda>_ _. None)
     \<and> lib_listener_create lib = (\<lambda>_ _. None) \<and> lib_listener_set lib = (\<lambda>_ _. None)
     \<and> lib_listener_start lib = (\<lambda>_ _. None) \<and> lib_dial lib = (\<lambda>_ _. None)"

lemma set_options_willing: "willing lib \<Longrightarrow> \<exists>ns'. set_options lib tx p h opts ns = (ns', Inr ())"
proof (induction opts arbitrary: ns)
  case (Cons o1 opts)
  obtain opt ctx where "o1 = (opt, ctx)" by fastforce
  with Cons show ?case by (simp add: set_option_def willing_def check_nng_def)
qed simp

lemma set_up_pipe_willing: "willing lib \<Longrightarrow> \<exists>ns'. set_up_pipe lib tx url ns = (ns', Inr ())"
proof -
  assume w: "willing lib"
  have ctor: "\<exists>ns' s. Socket_ctor lib tx p ns = (ns', Inr s)" for p ns
  proof -
    have "lib_open lib p = None" using w by (simp add: willing_def)
    moreover obtain ns' where "set_options lib tx p (ns_next ns) (socket_options_cpp p)
        (ns\<lparr>ns_next := ns_next ns + 1, ns_sockets := ns_sockets ns @ [(ns_next ns, p, [])]\<rparr>) = (ns', Inr ())"
      using set_options_willing [OF w] by blast
    ultimately show ?thesis by (simp add: Socket_ctor_def check_nng_def Let_def)
  qed
  obtain n1 s1 where 1: "Socket_ctor lib tx Pull0 ns = (n1, Inr s1)" using ctor by blast
  obtain n2 where 2: "Socket_listen lib tx Pull0 s1 url n1 = (n2, Inr ())"
    using w by (cases "take 6 url = ''ipc://''") (simp_all add: Socket_listen_def willing_def check_nng_def Let_def)
  obtain n3 where 3: "setRecvTimeout lib tx Pull0 s1 (Some 5000) n2 = (n3, Inr ())"
    using w by (simp add: setRecvTimeout_def set_option_def willing_def check_nng_def)
  obtain n4 s4 where 4: "Socket_ctor lib tx Push0 n3 = (n4, Inr s4)" using ctor by blast
  have "Socket_dial lib tx Push0 url = Inr ()"
    using w by (simp add: Socket_dial_def willing_def check_nng_def)
  with 1 2 3 4 show ?thesis by (simp add: set_up_pipe_def)
qed

lemma message_cpp_ok:
  assumes "same_vars env vars" and "tidy env d" and "runtime_disk_usable env d"
    and "fs_dirs (disk_fs d) (tag_dir env ((now XOR pid) AND 0xffff)) = None"
    and "willing lib" and "ser hello_log = Some bs" and "parse bs = Some hello_log"
  shows "a_message_round_trips_over_ipc lib tx ser parse vars now pid d ns"
proof -
  obtain d' where "Endpoints_ctor tx vars now pid d
      = (d', Inr (endpoints_at env ((now XOR pid) AND 0xffff)))"
    using Endpoints_ctor_first [OF assms(1-4)] by blast
  moreover obtain ns' where "set_up_pipe lib tx (ep_events (endpoints_at env ((now XOR pid) AND 0xffff))) ns
      = (ns', Inr ())"
    using set_up_pipe_willing [OF assms(5)] by blast
  ultimately show ?thesis
    using assms(6,7)
    by (simp add: a_message_round_trips_over_ipc_def Socket_send_def Socket_recv_def idle_traffic_def)
      (simp add: hello_log_def)
qed

section \<open>All of them\<close>

text \<open>
  The tests of the binding hold of the model, wherever those of the crate do: for every
  largest string that leaves room for them, every clock and process id, a disk on which
  nothing stands in the way, a library that refuses nothing, and a JSON reader and a
  codec that read back what the tests write.
\<close>

lemma cpp_tests_pass:
  assumes "room_for_tests ms" and "same_vars env vars" and "tidy env d"
    and "runtime_disk_usable env d" and "\<And>t. fs_dirs (disk_fs d) (tag_dir env t) = None"
    and "willing lib" and "ser hello_log = Some bs" and "parse bs = Some hello_log"
    and "json_to_message canonical_json_cpp = Inr fx2_manifest"
    and "json_to_message ''{\"name\": \"demo\", \"runn\": [\"./demo\"]}'' = Inl e"
  shows "runs_survive_a_round_trip ms \<and> an_idle_bus_costs_almost_nothing
    \<and> long_runs_use_multi_byte_varints_cpp ms
    \<and> a_short_count_is_an_error_not_a_truncated_buffer ms
    \<and> negotiation_always_leaves_the_mandatory_member
    \<and> chunks_decode_by_their_declared_encoding_cpp tx ms
    \<and> canonical_json_field_names_round_trip_cpp json_to_message
    \<and> an_unknown_key_is_rejected_rather_than_ignored json_to_message
    \<and> argv_resolves_against_the_plugin_directory_cpp
    \<and> endpoints_are_private_and_vanish_with_the_frontend tx vars now pid d
    \<and> concurrent_frontends_get_separate_directories_cpp tx vars (now, pid) (now', pid') d
    \<and> overlong_socket_paths_are_rejected_before_nng_sees_them
    \<and> a_message_round_trips_over_ipc lib tx ser parse vars now pid d ns"
  by (intro conjI runs_cpp_ok [OF assms(1)] idle_cpp_ok long_runs_cpp_ok [OF assms(1)]
      short_count_cpp_ok [OF assms(1)] negotiation_cpp_ok chunks_cpp_ok [OF assms(1)]
      manifest_cpp_ok [OF assms(9,10)] argv_cpp_ok endpoints_cpp_ok [OF assms(2-4) assms(5)]
      concurrent_cpp_ok [OF assms(2-5)] paths_cpp_ok
      message_cpp_ok [where ser = ser and parse = parse, OF assms(2-4) assms(5) assms(6-8)])

text \<open>Values for which all this holds.\<close>

definition willing_lib :: nng_lib where
  "willing_lib = \<lparr>lib_open = (\<lambda>_. None), lib_set = (\<lambda>_ _. None), lib_listener_create = (\<lambda>_ _. None),
     lib_listener_set = (\<lambda>_ _. None), lib_listener_start = (\<lambda>_ _. None), lib_dial = (\<lambda>_ _. None)\<rparr>"

definition example_vars :: cpp_vars where
  "example_vars = \<lparr>XDG_RUNTIME_DIR = xdg_runtime_dir example_env, TMPDIR = Some (temp_dir example_env)\<rparr>"

definition strict_reader :: "string \<Rightarrow> string + plugin_manifest" where
  "strict_reader json = (if json = canonical_json_cpp then Inr fx2_manifest else Inl ''unknown field'')"

definition run_disk :: disk where
  "run_disk = bare_disk ''/run/user/1000''"

lemma cpp_tests_pass_witness:
  "runs_survive_a_round_trip libstdcxx_max \<and> canonical_json_field_names_round_trip_cpp strict_reader
   \<and> an_unknown_key_is_rejected_rather_than_ignored strict_reader
   \<and> concurrent_frontends_get_separate_directories_cpp example_texts example_vars (7, 5) (5, 7) run_disk
   \<and> a_message_round_trips_over_ipc willing_lib example_texts (\<lambda>_. Some []) (\<lambda>_. Some hello_log)
       example_vars 7 5 run_disk \<lparr>ns_next = 0, ns_sockets = [], ns_listeners = []\<rparr>"
proof -
  have "room_for_tests libstdcxx_max" by (simp add: room_for_tests_def libstdcxx_max_def isize_max_def)
  moreover have "same_vars example_env example_vars"
    by (simp add: same_vars_def example_vars_def example_env_def plain_dir_def)
  moreover have away: "tag_dir example_env t \<noteq> ''/run/user/1000''"
    "\<not> starts_with ''/run/user/1000'' (tag_dir example_env t @ ''/'')" for t
    by (simp_all add: tag_dir_form example_base starts_with_def)
  then have "tidy example_env run_disk" by (simp add: tidy_def run_disk_def bare_disk_def)
  moreover have "parent_dir ''/run/user/1000/openmso'' = ''/run/user/1000''" by code_simp
  then have "runtime_disk_usable example_env run_disk"
    by (simp add: runtime_disk_usable_def runtime_dir_usable_def no_faults_def base_ready_def dir_known_def
        disk_fs_def run_disk_def bare_disk_def example_base)
  moreover have "fs_dirs (disk_fs run_disk) (tag_dir example_env t) = None" for t
    using away by (simp add: disk_fs_def run_disk_def bare_disk_def)
  moreover have "willing willing_lib" by (simp add: willing_def willing_lib_def)
  moreover have "strict_reader canonical_json_cpp = Inr fx2_manifest" by (simp add: strict_reader_def)
  moreover have "''{\"name\": \"demo\", \"runn\": [\"./demo\"]}'' \<noteq> canonical_json_cpp" by code_simp
  then have "strict_reader ''{\"name\": \"demo\", \"runn\": [\"./demo\"]}'' = Inl ''unknown field''"
    by (simp add: strict_reader_def)
  ultimately show ?thesis
    using cpp_tests_pass [where ms = libstdcxx_max and env = example_env and vars = example_vars
        and d = run_disk and lib = willing_lib and ser = "\<lambda>_. Some []" and parse = "\<lambda>_. Some hello_log"
        and json_to_message = strict_reader and now = 7 and pid = 5 and now' = 5 and pid' = 7
        and tx = example_texts and bs = "[]"]
    by (simp only: simp_thms)
qed

end
