(* ===== verification/Spec2Isabelle.thy ===== *)
theory Spec2Isabelle
  imports OCP_Prelude OCP_Proto OCP_Error OCP_Varint OCP_Encoding OCP_Manifest OCP_Args
    OCP_Transport OCP_Events OCP_Server OCP_Threads OCP_Client OCP_System OCP_Lifecycle OCP_Types
    OCP_Tests OCP_Scenarios OCP_Build OCP_CppError OCP_CppEncoding OCP_CppManifest OCP_CppTransport
    OCP_CppSpawn OCP_CppClient OCP_CppLaunch OCP_CppSession OCP_CppTests
begin

text \<open>
  A verification development of \<open>openmso-api\<close>: the crate \<open>rust/openmso\<close>, which
  implements the OpenMSO Capture Protocol, and the binding \<open>cpp\<close>, which implements the
  frontend's side of it a second time in C++.  A frontend launches a capture plugin as
  a child process and talks to it over two nng sockets in a private directory: a
  request/reply socket for control and a push/pull socket for events.

  Parts and theories.  \<open>OCP_Prelude\<close>: machine integers, outcomes (a value or a
  panic), the arithmetic of the two build profiles, slices and strings of the
  standard library.  \<open>OCP_Proto\<close>: the messages of \<open>proto/omso/capture/v1\<close> as the
  generated module presents them.  \<open>OCP_Error\<close>: \<open>lib.rs\<close>, the local and the wire
  errors with their texts.  \<open>OCP_Varint\<close> and \<open>OCP_Encoding\<close>: \<open>encoding.rs\<close>, the
  varint, the run-length (transition) codec, \<open>decode_payload\<close> and the negotiation.
  \<open>OCP_Manifest\<close>: \<open>manifest.rs\<close>.  \<open>OCP_Args\<close>: \<open>server/args.rs\<close>.
  \<open>OCP_Transport\<close>: \<open>transport.rs\<close>, sockets and options, sending and receiving, and
  \<open>Endpoints\<close> with its directory.  \<open>OCP_Events\<close>: \<open>server/events.rs\<close>, the event
  stream with the running flag and \<open>StreamSender\<close>.  \<open>OCP_Server\<close>: \<open>server/mod.rs\<close>,
  the trait of a plugin, \<open>dispatch\<close> and the control loop.  \<open>OCP_Threads\<close>: the same
  \<open>dispatch\<close> cut at every access to the running flag, with pushes of other threads
  in between, and the proof that a request is atomic all the same.  \<open>OCP_Client\<close>:
  \<open>client.rs\<close>, launching, the typed requests, shutdown and drop.  \<open>OCP_System\<close>: a
  client and a plugin composed over their two sockets.  \<open>OCP_Lifecycle\<close>: how a session
  ends, with the loop that returns, the stdin watch, and a frontend that waits for the
  process, drops its client or dies.  \<open>OCP_Types\<close>: which of the
  messages that the generated types admit have a meaning, and that the crate sends no
  others.  \<open>OCP_Tests\<close>: the unit tests of the crate on the model.  \<open>OCP_Scenarios\<close>:
  the integration test \<open>tests/control_loop.rs\<close>, its stub plugin with acquisition threads,
  its harness and its scenarios.  \<open>OCP_Build\<close>: \<open>build.rs\<close>, as the list of its effects.
  This theory holds the handshake.

  Of the binding, with the same names as the files under \<open>cpp/src\<close>: \<open>OCP_CppError\<close>,
  exceptions, their texts and when one is the same error as a Rust one (\<open>same_error\<close>,
  \<open>same_result\<close>); \<open>OCP_CppEncoding\<close>, the index-based codec over strings with a largest
  size; \<open>OCP_CppManifest\<close>; \<open>OCP_CppTransport\<close>, sockets as owners of nng handles and
  \<open>Endpoints\<close> over directories and files; \<open>OCP_CppSpawn\<close>, \<open>spawnPlugin\<close> over processes,
  descriptor tables and pipes; \<open>OCP_CppClient\<close>, \<open>CaptureClient\<close> with its requests, its
  shutdown and its ownership; \<open>OCP_CppLaunch\<close>, \<open>launch\<close> with the unwinding of its
  exceptions; \<open>OCP_CppSession\<close>, the reading loop of \<open>cpp/tests/test_session.cpp\<close>;
  \<open>OCP_CppTests\<close>, the other tests of the binding.

  State. A socket is the list of what its receives will report, the list of what its
  sends will report, and the messages handed over so far; the file system is the map of
  directories with their modes (the Windows build of \<open>Endpoints\<close> has none,
  \<open>pipe_endpoints\<close>); a server is the plugin's own state, the \<open>Events\<close> object and the local
  \<open>greeted\<close>; a client is the record of its fields. Of the binding, the world outside an
  object is the kernel (\<open>kernel\<close>: processes with their descriptors, pipes), the library's
  open sockets and listeners (\<open>nng_state\<close>) and the disk (\<open>disk\<close>, which refines the file
  system above by \<open>disk_fs\<close>); a client is the record of its members. All of it is passed
  explicitly. Errors are \<open>Inl\<close>, panics are \<open>Panic\<close>, a call that blocks for ever is \<open>None\<close> (or
  \<open>Waiting\<close> for the loop).

  Interfaces.  \<open>run_codec\<close> (varint), \<open>sample_codec\<close> (packed and transition),
  \<open>run_flag\<close> (the \<open>AtomicBool\<close> of \<open>Events\<close>) and \<open>request_service\<close> (what a client
  counts on) are locales; each is interpreted on the model's own definitions, and
  the properties of the client of an interface rest on the interpretation.

  What the lemmas show.  Round trips and exact acceptance of the varint and of the
  transition codec; that a sent stream reassembles and survives a failing socket;
  that \<open>Endpoints\<close> are private, disjoint and cleaned up; the grammar of the
  arguments; that the dispatcher refines the phase machine \<open>phase_step\<close> in every
  reachable state (\<open>srv_reach\<close>: requests answered, and events pushed by any thread
  in between); that the loop answers every message once and in order, and what ends
  it; that typed client calls agree with the dispatcher; that a launched plugin
  parses the very URLs its frontend listens on.  Of the composed system (\<open>sys_step\<close>:
  calls answered, given up and answered late, or not sent; pushes of threads; messages
  of the event stream arriving and being read, in any order) an invariant shows that no
  call ends in a protocol error, that the frontend reads the stream without gaps, and
  that the end of a capture, once read, means a plugin that is ready; and that the
  samples of a capture arrive as they were.  Replies and chunks are typed.  The crate's
  tests hold of the model, those of the control loop under every interleaving of the
  acquisition thread (\<open>thread_step\<close>, one push a step) with the requests, and so do those of
  the binding.  Several properties record where the code does less than it means to: see
  those on hostile sample counts, wrapped products, unknown codecs, oversized varints, over-long socket paths, oversized
  units, the end of a stale capture, plugins that outlive their frontend, and plugins
  whose \<open>shutdown\<close> is cut off.

  The binding is proved against the crate: the codec, the negotiation, the manifest,
  the typed requests, \<open>Endpoints\<close> and \<open>launch\<close> end in the same results or the same errors,
  and where the two part ways the theorem says where (unknown codecs, over-long paths,
  shutting down a stuck plugin). Beyond that, what a C++ frontend owns is given back: a
  failed launch and the destruction of a client leave no socket, listener, file,
  process or descriptor; moving hands all of it over; the samples a Rust plugin has
  sent arrive as they were; and of a frontend that dies it is shown which of its
  plugins the operating system tells.

  The composed system allows more than the programs do: after an accepted \<open>Shutdown\<close>
  the loop has returned and no later request is answered, which its steps do not
  exclude.  \<open>life_step\<close> does: it cuts the turn that accepts \<open>Shutdown\<close> between the reply and
  the plugin's \<open>shutdown\<close>, and adds the ends of both processes.  Every run of it is one of
  the composed system, and it shows that \<open>Shutdown\<close> is final, and that a plugin with a
  stdin watch may be ended before its \<open>shutdown\<close> has run.

  Bounds.  \<open>usize\<close> is 64 bits.  A slice is at most \<open>isize_max\<close> bytes long.  No fuel
  is used: every loop is a total function, by structural recursion or a measure; the
  control loop consumes one message of the control socket per turn, which
  \<open>serve_turns\<close>, the loop cut off after a number of turns, makes into a bound.  The loop of
  \<open>Endpoints::new\<close> has the code's own bound of 64.

  Parameters, standing for code that is not in the repository: the results of nng calls
  (\<open>nng_env\<close>, and \<open>nng_lib\<close> as C sees them), the generated protobuf codecs (\<open>wire\<close>, \<open>cpp_wire\<close>,
  and the JSON reader of the manifest), what the operating system refuses (\<open>fs_fault\<close>,
  \<open>spawn\<close>, \<open>os\<close>) and which plugins get stuck, the texts of error numbers and enumerators
  (\<open>texts\<close>), the code generators of the build, the clock and the process id, and the
  handlers of a plugin (\<open>capture_server\<close>). Where a property needs a codec to read back a
  message it says so for the messages concerned (\<open>exchange\<close>).

  Not modelled: the scenarios of \<open>test_session.cpp\<close> against a demo plugin that is not in
  the repository, but for their reading loop; what a process does after it has left
  \<open>serve\<close>, but for the pushes of its threads; the Windows build of the binding's \<open>listen\<close> (the rest of the binding is for
  Unix), exhaustion of memory below \<open>isize::MAX\<close>, panics inside a plugin's handlers,
  signals that interrupt a system call, the descriptors nng itself opens, and two
  messages of different threads on one socket at the same time (nng serialises them).
\<close>

section \<open>Properties across components\<close>

definition demo_plugin_info :: plugin_info where
  "demo_plugin_info = \<lparr>pi_name = ''demo'', pi_version = ''1'', pi_vendor = [], pi_description = []\<rparr>"

definition demo_capabilities :: capabilities where
  "demo_capabilities = \<lparr>cap_modes = [], cap_trigger_kinds = []\<rparr>"

definition demo_device :: device_info where
  "demo_device = \<lparr>di_vendor = [], di_model = [], di_serial = [], di_firmware_version = []\<rparr>"

text \<open>
  C33. The handshake from end to end.  A client's \<open>hello\<close> to a fresh server whose
  plugin answers with \<open>hello_result\<close> returns the crate's protocol version and
  exactly the encodings and codecs of the crate in its preference order; the server is
  greeted and ready; and the encoding of every chunk that a stream sender of the
  plugin can make is among those agreed on, and accepted by the client's request.
\<close>

theorem handshake:
  assumes "\<not> srv_greeted s" and "\<not> srv_running s"
    and "exchange w h s c (ReqHello (make_hello name version))"
    and "on_hello h (srv_plugin s) (make_hello name version)
      = (p, evs, Inr (make_hello_result (make_hello name version) plugin caps device))"
  shows "\<exists>c' r. client_hello w c name version = Some (c', Inr r)
    \<and> hr_protocol r = PROTOCOL_VERSION
    \<and> hr_encodings r = map sample_encoding_i32 [Transition, Packed]
    \<and> hr_codecs r = map codec_i32 [CodecNone]
    \<and> phase_of (fst (dispatch w h s (Some (ReqHello (make_hello name version))))) = Ready
    \<and> (\<forall>cid acq stream u ss part payload. new_sender cid acq stream u = Ret ss \<longrightarrow>
         cd_encoding (chunk_data ss part payload) \<in> set (hr_encodings r)
         \<and> cd_encoding (chunk_data (transition ss) part payload) \<in> set (hr_encodings r)
         \<and> cd_codec (chunk_data ss part payload) \<in> set (hr_codecs r)
         \<and> accepts (he_accept_encodings (make_hello name version)) (ss_encoding ss)
         \<and> accepts (he_accept_encodings (make_hello name version)) (ss_encoding (transition ss)))"
proof -
  let ?req = "make_hello name version"
  let ?r = "make_hello_result ?req plugin caps device"
  have d: "snd (dispatch w h s (Some (ReqHello ?req))) = Inr (RespHello ?r)"
    "phase_of (fst (dispatch w h s (Some (ReqHello ?req)))) = Ready"
    using assms(1,2,4) by (auto simp: dispatch_def call_def phase_of_def split: prod.splits)
  have "agrees (snd (dispatch w h s (Some (ReqHello ?req)))) RespHello (client_hello w c name version)"
    unfolding client_hello_def using assms(3) by (rule agrees_matching) auto
  with d(1) obtain c' v where v: "map_ok RespHello v = Inr (RespHello ?r)"
    "client_hello w c name version = Some (c', remotely v)"
    by (auto simp: agrees_def)
  then have call: "client_hello w c name version = Some (c', Inr ?r)"
    by (auto simp: remotely_def return_iff)
  have enc: "hr_encodings ?r = map sample_encoding_i32 [Transition, Packed]"
    "hr_codecs ?r = map codec_i32 [CodecNone]"
    by (simp_all add: make_hello_result_def make_hello_def negotiate_encodings_def negotiate_codecs_def
        intersect_def ENCODINGS_def CODECS_def)
  have "ss_encoding ss = Packed" if "new_sender cid acq stream u = Ret ss" for cid acq stream u ss
    using that by (auto simp: new_sender_def split: if_splits)
  with call d(2) enc show ?thesis
    by (intro exI [of _ c'] exI [of _ ?r])
      (auto simp: make_hello_result_def make_hello_def chunk_data_def transition_def accepts_def
        ENCODINGS_def)
qed

text \<open>A wire that knows one request and its reply.\<close>

definition hello_wire :: wire where
  "hello_wire = tiny_wire\<lparr>
     dec_request := (\<lambda>_. Inr \<lparr>rq_seq = 1, rq_request = Some (ReqHello (make_hello ''scope'' ''2.0''))\<rparr>),
     dec_response := (\<lambda>_. Inr \<lparr>rs_seq = 1, rs_error = None, rs_response = Some (RespHello
       (make_hello_result (make_hello ''scope'' ''2.0'') demo_plugin_info demo_capabilities demo_device))\<rparr>)\<rparr>"

theorem handshake_witness:
  "\<exists>c' r. client_hello hello_wire (demo_client [Inr [1, 10]]) ''scope'' ''2.0'' = Some (c', Inr r)
     \<and> hr_encodings r = [2, 1] \<and> hr_codecs r = [1]"
proof -
  let ?s = "new_server 0 quiet_socket :: nat server"
  let ?req = "make_hello ''scope'' ''2.0''"
  let ?r = "make_hello_result ?req demo_plugin_info demo_capabilities demo_device"
  have fresh: "\<not> srv_greeted ?s" "\<not> srv_running ?s"
    by (simp_all add: new_server_def new_events_def is_running_def)
  have hello: "on_hello (demo []) (srv_plugin ?s) ?req = (1, [], Inr ?r)"
    by (simp add: demo_def new_server_def demo_plugin_info_def demo_capabilities_def demo_device_def)
  have "exchange hello_wire (demo []) ?s (demo_client [Inr [1, 10]]) (ReqHello ?req)"
    using hello
    by (simp add: exchange_def answer_bytes_def answer_def dispatch_def call_def make_response_def
        refuses_def demo_client_def hello_wire_def tiny_wire_def new_server_def quiet_socket_def)
  from handshake [OF fresh this hello] show ?thesis by auto
qed

end
